(* ===== verification/Prelude.thy ===== *)
theory Prelude
  imports Main "HOL-Library.Word"
begin

text \<open>
  Shared vocabulary of the development: the C integer types as fixed-width words, the byte-addressed
  memory the driver and the NVMe controller share, little-endian multi-byte loads and stores, and
  the lemmas on them that the component theories use. The host is a little-endian LP64 machine, as
  the structures in \<^verbatim>\<open>tools/nvme.c\<close> (bit fields, in-memory command layout) presuppose.

  The lemma collections are \<open>ram_simps\<close> (reading back what was stored) and \<open>word_defs\<close> (the small
  bit-twiddling definitions).
\<close>

unbundle bit_operations_syntax

named_theorems ram_simps "loads after stores"
named_theorems word_defs "unfolding rules of the one-line word helpers"

section \<open>Machine types\<close>

type_synonym u8 = "8 word"
type_synonym u16 = "16 word"
type_synonym u32 = "32 word"
type_synonym u64 = "64 word"

text \<open>A flat byte memory indexed by 64-bit addresses.\<close>

type_synonym ram = "u64 \<Rightarrow> u8"

abbreviation (input) NULL :: u64 where
  "NULL \<equiv> 0"

section \<open>Little-endian byte strings\<close>

definition le_bytes :: "nat \<Rightarrow> 'a::len word \<Rightarrow> u8 list" where
  "le_bytes n v = map (\<lambda>i. ucast (drop_bit (8 * i) v)) [0..<n]"

fun le_word :: "u8 list \<Rightarrow> 'a::len word" where
  "le_word [] = 0"
| "le_word (b # bs) = ucast b OR push_bit 8 (le_word bs)"

fun store_bytes :: "ram \<Rightarrow> u64 \<Rightarrow> u8 list \<Rightarrow> ram" where
  "store_bytes r a [] = r"
| "store_bytes r a (b # bs) = store_bytes (r(a := b)) (a + 1) bs"

definition load_bytes :: "ram \<Rightarrow> u64 \<Rightarrow> nat \<Rightarrow> u8 list" where
  "load_bytes r a n = map (\<lambda>i. r (a + of_nat i)) [0..<n]"

definition memset0 :: "ram \<Rightarrow> u64 \<Rightarrow> nat \<Rightarrow> ram" where
  "memset0 r a n = (\<lambda>x. if unat (x - a) < n then 0 else r x)"

definition store8 :: "ram \<Rightarrow> u64 \<Rightarrow> u8 \<Rightarrow> ram" where
  "store8 r a v = store_bytes r a (le_bytes 1 v)"

definition store16 :: "ram \<Rightarrow> u64 \<Rightarrow> u16 \<Rightarrow> ram" where
  "store16 r a v = store_bytes r a (le_bytes 2 v)"

definition store32 :: "ram \<Rightarrow> u64 \<Rightarrow> u32 \<Rightarrow> ram" where
  "store32 r a v = store_bytes r a (le_bytes 4 v)"

definition store64 :: "ram \<Rightarrow> u64 \<Rightarrow> u64 \<Rightarrow> ram" where
  "store64 r a v = store_bytes r a (le_bytes 8 v)"

definition load8 :: "ram \<Rightarrow> u64 \<Rightarrow> u8" where
  "load8 r a = r a"

definition load16 :: "ram \<Rightarrow> u64 \<Rightarrow> u16" where
  "load16 r a = le_word (load_bytes r a 2)"

definition load32 :: "ram \<Rightarrow> u64 \<Rightarrow> u32" where
  "load32 r a = le_word (load_bytes r a 4)"

definition load64 :: "ram \<Rightarrow> u64 \<Rightarrow> u64" where
  "load64 r a = le_word (load_bytes r a 8)"

section \<open>Lemmas on byte strings\<close>

lemma length_le_bytes [simp]: "length (le_bytes n v) = n"
  by (simp add: le_bytes_def)

lemma length_load_bytes [simp]: "length (load_bytes r a n) = n"
  by (simp add: load_bytes_def)

lemma bit_le_word:
  "bit (le_word bs :: 'a::len word) j \<longleftrightarrow>
     j < LENGTH('a) \<and> j div 8 < length bs \<and> bit (bs ! (j div 8)) (j mod 8)"
proof (induction bs arbitrary: j)
  case Nil
  then show ?case by simp
next
  case (Cons b bs)
  show ?case
  proof (cases "j < 8")
    case True
    then show ?thesis by (auto simp: bit_simps)
  next
    case False
    then have d: "j div 8 = Suc ((j - 8) div 8)" and m: "j mod 8 = (j - 8) mod 8"
      by (simp_all add: le_div_geq le_mod_geq not_less)
    have "\<not> bit b j"
      using False bit_imp_le_length [of b j] by auto
    with False Cons.IH [of "j - 8"] show ?thesis
      by (auto simp: bit_simps d m)
  qed
qed

lemma le_word_le_bytes:
  assumes "LENGTH('a) \<le> 8 * n"
  shows "le_word (le_bytes n (v :: 'a::len word)) = v"
proof (rule bit_word_eqI)
  fix j
  assume j: "j < LENGTH('a)"
  then have "j div 8 < n" using assms by (simp add: div_less_iff_less_mult mult.commute)
  with j show "bit (le_word (le_bytes n v) :: 'a word) j = bit v j"
    by (simp add: bit_le_word le_bytes_def bit_simps)
qed

lemma le_bytes_inject:
  assumes "LENGTH('a) \<le> 8 * n"
  shows "le_bytes n (v :: 'a::len word) = le_bytes n w \<longleftrightarrow> v = w"
  using le_word_le_bytes [OF assms] by metis

section \<open>Lemmas on memory\<close>

lemma store_bytes_outside:
  "(\<And>i. i < length bs \<Longrightarrow> x \<noteq> a + of_nat i) \<Longrightarrow> store_bytes r a bs x = r x"
proof (induction bs arbitrary: r a)
  case Nil
  then show ?case by simp
next
  case (Cons b bs)
  have "x \<noteq> a" using Cons.prems [of 0] by simp
  moreover have "store_bytes (r(a := b)) (a + 1) bs x = (r(a := b)) x"
  proof (rule Cons.IH)
    fix i assume "i < length bs"
    then show "x \<noteq> a + 1 + of_nat i" using Cons.prems [of "Suc i"] by (simp add: add.assoc)
  qed
  ultimately show ?case by simp
qed

lemma unat_of_nat_u64: "i < 2 ^ 64 \<Longrightarrow> unat (of_nat i :: u64) = i"
  by (simp add: unat_of_nat take_bit_nat_eq_self)

lemma unat_less_2p64: "unat (x :: u64) < 2 ^ 64"
  using unsigned_less [of x] by simp

lemma unat_less_2p32: "unat (x :: u32) < 2 ^ 32"
  using unsigned_less [of x] by simp

lemma unat_less_2p16: "unat (x :: u16) < 2 ^ 16"
  using unsigned_less [of x] by simp

lemma unat_less_2p8: "unat (x :: u8) < 2 ^ 8"
  using unsigned_less [of x] by simp

lemma unat_Suc_less:
  fixes i n :: "'a::len word"
  assumes "i < n"
  shows "unat (i + 1) = Suc (unat i)"
proof -
  have "Suc (unat i) \<le> unat n" using assms by (simp add: word_less_nat_alt Suc_le_eq)
  also have "unat n < 2 ^ LENGTH('a)" by (rule unsigned_less)
  finally show ?thesis by (simp add: unat_word_ariths)
qed

lemma Suc_unat_eq_iff:
  fixes i n :: "'a::len word"
  shows "i < n \<Longrightarrow> Suc (unat i) = unat n \<longleftrightarrow> i + 1 = n"
  by (simp add: word_unat_eq_iff unat_Suc_less)

lemmas unat_Suc_u32 = unat_Suc_less [where 'a = 32]

lemma of_nat_u64_eq_iff:
  "i < 2 ^ 64 \<Longrightarrow> j < 2 ^ 64 \<Longrightarrow> (of_nat i :: u64) = of_nat j \<longleftrightarrow> i = j"
  by (metis unat_of_nat_u64)

lemma store_bytes_inside:
  assumes "i < length bs" and "length bs \<le> 2 ^ 64"
  shows "store_bytes r a bs (a + of_nat i) = bs ! i"
  using assms
proof (induction bs arbitrary: r a i)
  case Nil
  then show ?case by simp
next
  case (Cons b bs)
  show ?case
  proof (cases i)
    case 0
    have "store_bytes (r(a := b)) (a + 1) bs a = (r(a := b)) a"
    proof (rule store_bytes_outside)
      fix k assume k: "k < length bs"
      show "a \<noteq> a + 1 + of_nat k"
      proof
        assume "a = a + 1 + of_nat k"
        then have "(of_nat (Suc k) :: u64) = of_nat 0" by (simp add: add.assoc)
        with k Cons.prems(2) show False by (subst (asm) of_nat_u64_eq_iff) auto
      qed
    qed
    with 0 show ?thesis by simp
  next
    case (Suc k)
    have "store_bytes (r(a := b)) (a + 1) bs (a + 1 + of_nat k) = bs ! k"
      using Cons.prems Suc by (intro Cons.IH) auto
    with Suc show ?thesis by (simp add: add.assoc)
  qed
qed

text \<open>
  Two byte ranges do not overlap when each starts outside the other; the distances are taken modulo
  the size of the address space, so ranges that wrap around are covered too.
\<close>

lemma disjoint_ranges:
  fixes a a' :: u64
  assumes "m \<le> unat (a' - a)" and "n \<le> unat (a - a')" and "k < m" and "i < n"
  shows "a' + of_nat i \<noteq> a + of_nat k"
proof
  assume eq: "a' + of_nat i = a + of_nat k"
  have small: "k < 2 ^ 64" "i < 2 ^ 64"
    using assms unat_less_2p64 [of "a' - a"] unat_less_2p64 [of "a - a'"] by linarith+
  show False
  proof (cases "i \<le> k")
    case True
    with eq have "a' - a = of_nat (k - i)" by (simp add: of_nat_diff algebra_simps)
    then have "unat (a' - a) = k - i" using small by (simp only: unat_of_nat_u64)
    with assms show False by simp
  next
    case False
    with eq have "a - a' = of_nat (i - k)" by (simp add: of_nat_diff algebra_simps)
    then have "unat (a - a') = i - k" using small by (simp only: unat_of_nat_u64)
    with assms show False by simp
  qed
qed

lemma load_bytes_store_other:
  assumes "length bs \<le> unat (a' - a)" and "n \<le> unat (a - a')"
  shows "load_bytes (store_bytes r a bs) a' n = load_bytes r a' n"
  using disjoint_ranges [OF assms] by (auto simp: load_bytes_def intro!: store_bytes_outside)

lemma load_bytes_store_same:
  assumes "length bs \<le> 2 ^ 64" and "n = length bs"
  shows "load_bytes (store_bytes r a bs) a n = bs"
  using assms by (intro nth_equalityI) (simp_all add: load_bytes_def store_bytes_inside)

lemma load8_alt: "load8 r a = le_word (load_bytes r a 1)"
  by (simp add: load8_def load_bytes_def)

lemma load_store_same [ram_simps]:
  "load8 (store8 r a v8) a = v8"
  "load16 (store16 r a v16) a = v16"
  "load32 (store32 r a v32) a = v32"
  "load64 (store64 r a v64) a = v64"
  by (simp_all add: load8_alt load16_def load32_def load64_def store8_def store16_def store32_def
      store64_def load_bytes_store_same le_word_le_bytes)

lemma unat_minus_1_u64 [ram_simps]: "unat (- 1 :: u64) = 18446744073709551615"
  by (simp add: unsigned_minus_1_eq_mask mask_eq_exp_minus_1)

lemma load_store_other [ram_simps]:
  "2 \<le> unat (a' - a) \<Longrightarrow> 2 \<le> unat (a - a') \<Longrightarrow> load16 (store16 r a v16) a' = load16 r a'"
  "1 \<le> unat (a' - a) \<Longrightarrow> 1 \<le> unat (a - a') \<Longrightarrow> load8 (store8 r a v8) a' = load8 r a'"
  "1 \<le> unat (a' - a) \<Longrightarrow> 2 \<le> unat (a - a') \<Longrightarrow> load16 (store8 r a v8) a' = load16 r a'"
  "1 \<le> unat (a' - a) \<Longrightarrow> 4 \<le> unat (a - a') \<Longrightarrow> load32 (store8 r a v8) a' = load32 r a'"
  "1 \<le> unat (a' - a) \<Longrightarrow> 8 \<le> unat (a - a') \<Longrightarrow> load64 (store8 r a v8) a' = load64 r a'"
  "2 \<le> unat (a' - a) \<Longrightarrow> 1 \<le> unat (a - a') \<Longrightarrow> load8 (store16 r a v16) a' = load8 r a'"
  "2 \<le> unat (a' - a) \<Longrightarrow> 4 \<le> unat (a - a') \<Longrightarrow> load32 (store16 r a v16) a' = load32 r a'"
  "2 \<le> unat (a' - a) \<Longrightarrow> 8 \<le> unat (a - a') \<Longrightarrow> load64 (store16 r a v16) a' = load64 r a'"
  "4 \<le> unat (a' - a) \<Longrightarrow> 1 \<le> unat (a - a') \<Longrightarrow> load8 (store32 r a v32) a' = load8 r a'"
  "4 \<le> unat (a' - a) \<Longrightarrow> 2 \<le> unat (a - a') \<Longrightarrow> load16 (store32 r a v32) a' = load16 r a'"
  "4 \<le> unat (a' - a) \<Longrightarrow> 4 \<le> unat (a - a') \<Longrightarrow> load32 (store32 r a v32) a' = load32 r a'"
  "4 \<le> unat (a' - a) \<Longrightarrow> 8 \<le> unat (a - a') \<Longrightarrow> load64 (store32 r a v32) a' = load64 r a'"
  "8 \<le> unat (a' - a) \<Longrightarrow> 1 \<le> unat (a - a') \<Longrightarrow> load8 (store64 r a v64) a' = load8 r a'"
  "8 \<le> unat (a' - a) \<Longrightarrow> 2 \<le> unat (a - a') \<Longrightarrow> load16 (store64 r a v64) a' = load16 r a'"
  "8 \<le> unat (a' - a) \<Longrightarrow> 4 \<le> unat (a - a') \<Longrightarrow> load32 (store64 r a v64) a' = load32 r a'"
  "8 \<le> unat (a' - a) \<Longrightarrow> 8 \<le> unat (a - a') \<Longrightarrow> load64 (store64 r a v64) a' = load64 r a'"
  by (simp_all add: load8_alt load16_def load32_def load64_def store8_def store16_def store32_def
      store64_def load_bytes_store_other)

lemma unat_add_of_nat_le: "unat (x + of_nat i :: u64) \<le> unat x + i"
proof -
  have "unat (x + of_nat i) = (unat x + unat (of_nat i :: u64)) mod 2 ^ 64"
    by (simp add: unat_word_ariths)
  also have "\<dots> \<le> unat x + unat (of_nat i :: u64)" by (rule mod_less_eq_dividend)
  also have "unat (of_nat i :: u64) \<le> i"
    by (simp add: unat_of_nat take_bit_nat_less_eq_self)
  finally show ?thesis by simp
qed

lemma load_bytes_memset0:
  assumes "unat (a' - a) + m \<le> n"
  shows "load_bytes (memset0 r a n) a' m = replicate m 0"
proof (rule nth_equalityI)
  fix i
  assume "i < length (load_bytes (memset0 r a n) a' m)"
  then have i: "i < m" by simp
  have "unat (a' + of_nat i - a) \<le> unat (a' - a) + i"
    using unat_add_of_nat_le [of "a' - a" i] by (simp add: algebra_simps)
  with i assms show "load_bytes (memset0 r a n) a' m ! i = replicate m 0 ! i"
    by (simp add: load_bytes_def memset0_def)
qed simp

lemma load_memset0 [ram_simps]:
  "unat (a' - a) + 1 \<le> n \<Longrightarrow> load8 (memset0 r a n) a' = 0"
  "unat (a' - a) + 2 \<le> n \<Longrightarrow> load16 (memset0 r a n) a' = 0"
  "unat (a' - a) + 4 \<le> n \<Longrightarrow> load32 (memset0 r a n) a' = 0"
  "unat (a' - a) + 8 \<le> n \<Longrightarrow> load64 (memset0 r a n) a' = 0"
  by (simp_all add: load8_alt load16_def load32_def load64_def load_bytes_memset0 eval_nat_numeral)

text \<open>Bytes at a distance from the stored ones keep their value.\<close>

lemma store_bytes_frame:
  assumes "length bs \<le> unat (x - a)"
  shows "store_bytes r a bs x = r x"
proof (rule store_bytes_outside)
  fix i assume i: "i < length bs"
  show "x \<noteq> a + of_nat i"
  proof
    assume "x = a + of_nat i"
    then have "x - a = of_nat i" by simp
    moreover have "i < 2 ^ 64" using i assms unat_less_2p64 [of "x - a"] by linarith
    ultimately have "unat (x - a) = i" by (simp only: unat_of_nat_u64)
    with i assms show False by simp
  qed
qed

lemma store_frame:
  "1 \<le> unat (x - a) \<Longrightarrow> store8 r a v8 x = r x"
  "2 \<le> unat (x - a) \<Longrightarrow> store16 r a v16 x = r x"
  "4 \<le> unat (x - a) \<Longrightarrow> store32 r a v32 x = r x"
  "8 \<le> unat (x - a) \<Longrightarrow> store64 r a v64 x = r x"
  "n \<le> unat (x - a) \<Longrightarrow> memset0 r a n x = r x"
  by (simp_all add: store8_def store16_def store32_def store64_def store_bytes_frame memset0_def)

text \<open>A store inside a window does not reach outside it.\<close>

lemma window_distance:
  fixes x a d :: u64
  assumes "m \<le> unat (x - a)" and "unat d + k \<le> m"
  shows "k \<le> unat (x - (a + d))"
proof -
  have "d \<le> x - a" using assms by (simp add: word_le_nat_alt)
  then have "unat (x - a - d) = unat (x - a) - unat d" by (rule unat_sub)
  with assms show ?thesis by (simp add: diff_diff_eq)
qed

lemma unat_behind:
  assumes "m < d" and "d < 2 ^ 64"
  shows "unat (a + of_nat m - (a + of_nat d) :: u64) = 2 ^ 64 - (d - m)"
proof -
  have "a + of_nat m - (a + of_nat d) = (of_nat m - of_nat d :: u64)" by simp
  moreover have "unat (of_nat m :: u64) = m" "unat (of_nat d :: u64) = d"
    using assms by (simp_all add: unat_of_nat_u64)
  ultimately show ?thesis using assms by (simp add: unat_sub_if')
qed

lemma load_bytes_cong:
  "(\<And>i. i < n \<Longrightarrow> r (a + of_nat i) = r' (a + of_nat i)) \<Longrightarrow> load_bytes r a n = load_bytes r' a n"
  by (simp add: load_bytes_def)

text \<open>A range apart from a window of stores is not changed by them.\<close>

lemma apart_distance:
  fixes a a' :: u64
  assumes "m \<le> unat (a' - a)" and "n \<le> unat (a - a')" and "i < n"
  shows "m \<le> unat (a' + of_nat i - a)"
proof (rule ccontr)
  let ?k = "unat (a' + of_nat i - a)"
  assume "\<not> m \<le> ?k"
  then have "a' + of_nat i \<noteq> a + of_nat ?k" using assms by (intro disjoint_ranges) auto
  then show False by simp
qed

section \<open>Reading one location at several widths\<close>

lemma load_bytes_append: "load_bytes r a (m + n) = load_bytes r a m @ load_bytes r (a + of_nat m) n"
  by (rule nth_equalityI) (auto simp: load_bytes_def nth_append algebra_simps)

lemma nth_load_bytes: "i < n \<Longrightarrow> load_bytes r a n ! i = r (a + of_nat i)"
  by (simp add: load_bytes_def)

lemma load8_of_load32:
  assumes "i < 4"
  shows "load8 r (a + of_nat i) = ucast (drop_bit (8 * i) (load32 r a))"
proof (rule bit_word_eqI)
  fix j assume "j < LENGTH(8)"
  then have "j < 8" by simp
  with assms show "bit (load8 r (a + of_nat i)) j = bit (ucast (drop_bit (8 * i) (load32 r a)) :: u8) j"
    by (simp add: load8_def load32_def bit_simps bit_le_word nth_load_bytes)
qed

lemma load16_of_load32: "load16 r (a + 2) = ucast (drop_bit 16 (load32 r a))"
proof (rule bit_word_eqI)
  fix j assume "j < LENGTH(16)"
  then have j: "j < 16" by simp
  then have "(16 + j) div 8 = 2 + j div 8" "(16 + j) mod 8 = j mod 8"
    using mod_add_left_eq [of 16 8 j] by simp_all
  moreover have "j div 8 < 2" using j by simp
  ultimately show "bit (load16 r (a + 2)) j = bit (ucast (drop_bit 16 (load32 r a)) :: u16) j"
    using j by (simp add: load16_def load32_def bit_simps bit_le_word nth_load_bytes add.assoc)
qed

lemma load64_of_load32:
  "load64 r a = ucast (load32 r a) OR push_bit 32 (ucast (load32 r (a + 4)))"
proof (rule bit_word_eqI)
  fix j assume "j < LENGTH(64)"
  then have j: "j < 64" by simp
  show "bit (load64 r a) j = bit (ucast (load32 r a) OR push_bit 32 (ucast (load32 r (a + 4))) :: u64) j"
  proof (cases "j < 32")
    case True
    then have "j div 8 < 4" by simp
    with True j show ?thesis by (simp add: load64_def load32_def bit_simps bit_le_word nth_load_bytes)
  next
    case False
    define k where "k = j - 32"
    then have k: "j = 32 + k" "k < 32" using False j by auto
    then have "j div 8 = 4 + k div 8" "j mod 8 = k mod 8" "k div 8 < 4"
      using mod_add_left_eq [of 32 8 k] by simp_all
    with k show ?thesis
      by (simp add: load64_def load32_def bit_simps bit_le_word nth_load_bytes add.assoc)
  qed
qed

end
