(* ===== verification/World.thy ===== *)
theory World
  imports Prelude
begin

text \<open>
  What the user-space code runs against. The code under \<^verbatim>\<open>tools/\<close> talks to three things that are not
  in the repository: the C library and kernel system calls, the NVMe controller behind its BAR0
  registers, and the DMA engine of that controller, which changes memory while the program runs.
  They are the fields of the record \<open>env\<close>, a parameter of every definition that uses them; the
  theorems hold for every such record unless they name a hypothesis about it.

  The state of the program is the record \<open>world\<close>: the C variable \<^verbatim>\<open>errno\<close>, the memory shared with the
  device, the opaque state of everything outside the process, and a ghost trace of the externally
  visible effects in program order. Messages on standard output are not part of the state, so
  \<^verbatim>\<open>print_errno\<close> (\<^verbatim>\<open>tools/lib/util.c\<close>) and the progress \<^verbatim>\<open>printf\<close>s have no counterpart.
\<close>

unbundle bit_operations_syntax

section \<open>Error numbers and flags\<close>

abbreviation (input) ENOENT :: int where "ENOENT \<equiv> 2"
abbreviation (input) EINTR :: int where "EINTR \<equiv> 4"
abbreviation (input) EIO :: int where "EIO \<equiv> 5"
abbreviation (input) ENOMEM :: int where "ENOMEM \<equiv> 12"
abbreviation (input) EACCES :: int where "EACCES \<equiv> 13"
abbreviation (input) EFAULT :: int where "EFAULT \<equiv> 14"
abbreviation (input) ENODEV :: int where "ENODEV \<equiv> 19"
abbreviation (input) EINVAL :: int where "EINVAL \<equiv> 22"
abbreviation (input) ENOTTY :: int where "ENOTTY \<equiv> 25"
abbreviation (input) ENAMETOOLONG :: int where "ENAMETOOLONG \<equiv> 36"
abbreviation (input) ETIMEDOUT :: int where "ETIMEDOUT \<equiv> 110"

datatype open_flag = O_RDWR | O_RDONLY | O_SYNC | O_CLOEXEC

section \<open>The structures shared with the kernel driver\<close>

text \<open>\<^verbatim>\<open>struct mem\<close> and \<^verbatim>\<open>struct bdf\<close> of \<^verbatim>\<open>tools/lib/driver/common.h\<close>; \<^verbatim>\<open>long size\<close> is a signed 64-bit word.\<close>

record mem =
  mem_fd :: int
  kernel_virtaddr :: u64
  user_virtaddr :: u64
  dma_addr :: u64
  mem_size :: u64

record bdf =
  bdf_domain :: int
  bdf_bus :: u8
  bdf_dev :: u8
  bdf_func :: u8

definition mem_zero :: mem where
  "mem_zero = \<lparr>mem_fd = 0, kernel_virtaddr = 0, user_virtaddr = NULL, dma_addr = 0, mem_size = 0\<rparr>"

definition bdf_zero :: bdf where
  "bdf_zero = \<lparr>bdf_domain = 0, bdf_bus = 0, bdf_dev = 0, bdf_func = 0\<rparr>"

section \<open>The environment\<close>

type_synonym ('s, 'r) act = "ram \<times> 's \<Rightarrow> 'r \<times> ram \<times> 's"

text \<open>
  A failing system call returns \<open>Inl e\<close> (or \<open>Some e\<close> where it has no other result) with the error
  number \<open>e\<close>. \<open>hw_step\<close> is what the device does to memory before a volatile access or while the
  program sleeps.
\<close>

record 's env =
  hw_step :: "ram \<times> 's \<Rightarrow> ram \<times> 's"
  mmio_rd :: "u64 \<Rightarrow> ('s, u32) act"
  mmio_wr :: "u64 \<Rightarrow> u32 \<Rightarrow> ram \<times> 's \<Rightarrow> ram \<times> 's"
  sys_open :: "string \<Rightarrow> open_flag list \<Rightarrow> ('s, int + int) act"
  sys_close :: "int \<Rightarrow> ('s, int option) act"
  sys_mmap :: "int \<Rightarrow> u64 \<Rightarrow> ('s, int + u64) act"
  sys_munmap :: "u64 \<Rightarrow> u64 \<Rightarrow> ('s, int option) act"
  sys_pread :: "int \<Rightarrow> nat \<Rightarrow> nat \<Rightarrow> ('s, int + u8 list) act"
  sys_pwrite :: "int \<Rightarrow> u8 list \<Rightarrow> nat \<Rightarrow> ('s, int + nat) act"
  sys_opendir :: "string \<Rightarrow> ('s, int + string list) act"
  sys_ioctl_get_bdf :: "int \<Rightarrow> ('s, int + bdf) act"
  sys_ioctl_get_meminfo :: "int \<Rightarrow> ('s, int + mem) act"
  sys_ioctl_release_mem :: "int \<Rightarrow> mem \<Rightarrow> ('s, int option) act"
  sys_calloc :: "('s, bool) act"
  sys_clock_gettime :: "('s, int \<times> int) act"

datatype event =
    Ev_Barrier
  | Ev_Mmio_Write u64 u32
  | Ev_Open int
  | Ev_Close int
  | Ev_Mmap int u64 u64
  | Ev_Munmap u64 u64
  | Ev_Release mem

record 's world =
  errno :: int
  trace :: "event list"
  ram :: ram
  sys :: 's

section \<open>Calls\<close>

definition hw_act :: "('s, 'r) act \<Rightarrow> 's world \<Rightarrow> 'r \<times> 's world" where
  "hw_act f w = (case f (ram w, sys w) of (r, m, s) \<Rightarrow> (r, w\<lparr>ram := m, sys := s\<rparr>))"

definition hw_run :: "'s env \<Rightarrow> 's world \<Rightarrow> 's world" where
  "hw_run E w = (case hw_step E (ram w, sys w) of (m, s) \<Rightarrow> w\<lparr>ram := m, sys := s\<rparr>)"

definition emit :: "event \<Rightarrow> 's world \<Rightarrow> 's world" where
  "emit e w = w\<lparr>trace := trace w @ [e]\<rparr>"

definition mmio_read32 :: "'s env \<Rightarrow> u64 \<Rightarrow> 's world \<Rightarrow> u32 \<times> 's world" where
  "mmio_read32 E a w = hw_act (mmio_rd E a) w"

definition mmio_write32 :: "'s env \<Rightarrow> u64 \<Rightarrow> u32 \<Rightarrow> 's world \<Rightarrow> 's world" where
  "mmio_write32 E a v w =
     (case mmio_wr E a v (ram w, sys w) of (m, s) \<Rightarrow> emit (Ev_Mmio_Write a v) (w\<lparr>ram := m, sys := s\<rparr>))"

definition c_open :: "'s env \<Rightarrow> string \<Rightarrow> open_flag list \<Rightarrow> 's world \<Rightarrow> int \<times> 's world" where
  "c_open E path flags w =
     (case hw_act (sys_open E path flags) w of
        (Inl e, w) \<Rightarrow> (-1, w\<lparr>errno := e\<rparr>)
      | (Inr fd, w) \<Rightarrow> (fd, if fd < 0 then w else emit (Ev_Open fd) w))"

text \<open>
  The events of \<^verbatim>\<open>close\<close> and \<^verbatim>\<open>munmap\<close> record the call: the program gives the descriptor or mapping up by
  making it and never tries again, whatever the result is. Linux frees the descriptor also when \<^verbatim>\<open>close\<close>
  fails, and \<^verbatim>\<open>munmap\<close> fails only for an argument that is not a mapping of the program.
\<close>

definition c_close :: "'s env \<Rightarrow> int \<Rightarrow> 's world \<Rightarrow> int \<times> 's world" where
  "c_close E fd w =
     (case hw_act (sys_close E fd) w of
        (Some e, w) \<Rightarrow> (-1, emit (Ev_Close fd) (w\<lparr>errno := e\<rparr>))
      | (None, w) \<Rightarrow> (0, emit (Ev_Close fd) w))"

definition MAP_FAILED :: u64 where
  "MAP_FAILED = - 1"

definition c_mmap :: "'s env \<Rightarrow> int \<Rightarrow> u64 \<Rightarrow> 's world \<Rightarrow> u64 \<times> 's world" where
  "c_mmap E fd len w =
     (case hw_act (sys_mmap E fd len) w of
        (Inl e, w) \<Rightarrow> (MAP_FAILED, w\<lparr>errno := e\<rparr>)
      | (Inr a, w) \<Rightarrow> (a, if a = MAP_FAILED then w else emit (Ev_Mmap fd a len) w))"

definition c_munmap :: "'s env \<Rightarrow> u64 \<Rightarrow> u64 \<Rightarrow> 's world \<Rightarrow> int \<times> 's world" where
  "c_munmap E a len w =
     (case hw_act (sys_munmap E a len) w of
        (Some e, w) \<Rightarrow> (-1, emit (Ev_Munmap a len) (w\<lparr>errno := e\<rparr>))
      | (None, w) \<Rightarrow> (0, emit (Ev_Munmap a len) w))"

definition c_ioctl_get_bdf :: "'s env \<Rightarrow> int \<Rightarrow> bdf \<Rightarrow> 's world \<Rightarrow> int \<times> bdf \<times> 's world" where
  "c_ioctl_get_bdf E fd b w =
     (case hw_act (sys_ioctl_get_bdf E fd) w of
        (Inl e, w) \<Rightarrow> (-1, b, w\<lparr>errno := e\<rparr>)
      | (Inr b', w) \<Rightarrow> (0, b', w))"

definition c_ioctl_get_meminfo :: "'s env \<Rightarrow> int \<Rightarrow> mem \<Rightarrow> 's world \<Rightarrow> int \<times> mem \<times> 's world" where
  "c_ioctl_get_meminfo E fd m w =
     (case hw_act (sys_ioctl_get_meminfo E fd) w of
        (Inl e, w) \<Rightarrow> (-1, m, w\<lparr>errno := e\<rparr>)
      | (Inr m', w) \<Rightarrow> (0, m', w))"

definition c_ioctl_release_mem :: "'s env \<Rightarrow> int \<Rightarrow> mem \<Rightarrow> 's world \<Rightarrow> int \<times> 's world" where
  "c_ioctl_release_mem E fd m w =
     (case hw_act (sys_ioctl_release_mem E fd m) w of
        (Some e, w) \<Rightarrow> (-1, emit (Ev_Release m) (w\<lparr>errno := e\<rparr>))
      | (None, w) \<Rightarrow> (0, emit (Ev_Release m) w))"

text \<open>Volatile loads: the device may run before each of them.\<close>

definition vload8 :: "'s env \<Rightarrow> u64 \<Rightarrow> 's world \<Rightarrow> u8 \<times> 's world" where
  "vload8 E a w = (let w = hw_run E w in (load8 (ram w) a, w))"

definition vload16 :: "'s env \<Rightarrow> u64 \<Rightarrow> 's world \<Rightarrow> u16 \<times> 's world" where
  "vload16 E a w = (let w = hw_run E w in (load16 (ram w) a, w))"

section \<open>Effects on the trace\<close>

text \<open>Each call appends its own event and nothing else; most proofs need only these facts.\<close>

named_theorems trace_simps "what a call does to the ghost trace"

lemma trace_hw_act [trace_simps]: "hw_act f w = (r, w') \<Longrightarrow> trace w' = trace w"
  by (auto simp: hw_act_def split: prod.splits)

lemma trace_hw_run [simp, trace_simps]: "trace (hw_run E w) = trace w"
  by (simp add: hw_run_def split: prod.splits)

lemma errno_hw_run [simp]: "errno (hw_run E w) = errno w"
  by (simp add: hw_run_def split: prod.splits)

lemma trace_emit [simp, trace_simps]: "trace (emit e w) = trace w @ [e]"
  by (simp add: emit_def)

lemma trace_mmio_read32 [trace_simps]: "mmio_read32 E a w = (v, w') \<Longrightarrow> trace w' = trace w"
  by (simp add: mmio_read32_def trace_hw_act)

lemma trace_mmio_write32 [simp, trace_simps]:
  "trace (mmio_write32 E a v w) = trace w @ [Ev_Mmio_Write a v]"
  by (simp add: mmio_write32_def split: prod.splits)

lemma trace_c_open [trace_simps]:
  "c_open E path flags w = (fd, w') \<Longrightarrow> trace w' = trace w @ (if fd < 0 then [] else [Ev_Open fd])"
  by (auto simp: c_open_def dest: trace_hw_act split: prod.splits sum.splits if_splits)

lemma trace_c_close [trace_simps]:
  "c_close E fd w = (r, w') \<Longrightarrow> trace w' = trace w @ [Ev_Close fd]"
  by (auto simp: c_close_def dest: trace_hw_act split: prod.splits option.splits)

lemma trace_c_mmap [trace_simps]:
  "c_mmap E fd len w = (a, w') \<Longrightarrow>
     trace w' = trace w @ (if a = MAP_FAILED then [] else [Ev_Mmap fd a len])"
  by (auto simp: c_mmap_def dest: trace_hw_act split: prod.splits sum.splits if_splits)

lemma trace_c_munmap [trace_simps]:
  "c_munmap E a len w = (r, w') \<Longrightarrow> trace w' = trace w @ [Ev_Munmap a len]"
  by (auto simp: c_munmap_def dest: trace_hw_act split: prod.splits option.splits)

lemma trace_c_ioctl_get_bdf [trace_simps]:
  "c_ioctl_get_bdf E fd b w = (r, b', w') \<Longrightarrow> trace w' = trace w"
  by (auto simp: c_ioctl_get_bdf_def dest: trace_hw_act split: prod.splits sum.splits)

lemma trace_c_ioctl_get_meminfo [trace_simps]:
  "c_ioctl_get_meminfo E fd m w = (r, m', w') \<Longrightarrow> trace w' = trace w"
  by (auto simp: c_ioctl_get_meminfo_def dest: trace_hw_act split: prod.splits sum.splits)

lemma trace_c_ioctl_release_mem [trace_simps]:
  "c_ioctl_release_mem E fd m w = (r, w') \<Longrightarrow> trace w' = trace w @ [Ev_Release m]"
  by (auto simp: c_ioctl_release_mem_def dest: trace_hw_act split: prod.splits option.splits)

lemma trace_vload [trace_simps]:
  "vload8 E a w = (v8, w') \<Longrightarrow> trace w' = trace w"
  "vload16 E a w = (v16, w') \<Longrightarrow> trace w' = trace w"
  by (auto simp: vload8_def vload16_def Let_def)

section \<open>A concrete environment\<close>

text \<open>Every register reads zero, memory changes only by the program's own stores, and every system
  call fails; instances below replace single fields.\<close>

definition idle_env :: "'s env" where
  "idle_env =
     \<lparr>hw_step = (\<lambda>(m, s). (m, s)), mmio_rd = (\<lambda>_ (m, s). (0, m, s)), mmio_wr = (\<lambda>_ _ (m, s). (m, s)),
      sys_open = (\<lambda>_ _ (m, s). (Inl ENOENT, m, s)), sys_close = (\<lambda>_ (m, s). (None, m, s)),
      sys_mmap = (\<lambda>_ _ (m, s). (Inl ENOMEM, m, s)), sys_munmap = (\<lambda>_ _ (m, s). (None, m, s)),
      sys_pread = (\<lambda>_ _ _ (m, s). (Inl EIO, m, s)), sys_pwrite = (\<lambda>_ _ _ (m, s). (Inl EIO, m, s)),
      sys_opendir = (\<lambda>_ (m, s). (Inl ENOENT, m, s)),
      sys_ioctl_get_bdf = (\<lambda>_ (m, s). (Inl ENOTTY, m, s)),
      sys_ioctl_get_meminfo = (\<lambda>_ (m, s). (Inl ENOTTY, m, s)),
      sys_ioctl_release_mem = (\<lambda>_ _ (m, s). (Some ENOTTY, m, s)),
      sys_calloc = (\<lambda>(m, s). (False, m, s)), sys_clock_gettime = (\<lambda>(m, s). ((0, 0), m, s))\<rparr>"

definition idle_world :: "unit world" where
  "idle_world = \<lparr>errno = 0, trace = [], ram = (\<lambda>_. 0), sys = ()\<rparr>"

end
