(* ===== verification/Driver.thy ===== *)
theory Driver
  imports World
begin

text \<open>
  The kernel module \<^verbatim>\<open>tools/lib/driver/driver.c\<close>: a character device per PCI function whose \<^verbatim>\<open>mmap\<close>
  allocates a coherent DMA buffer and whose \<^verbatim>\<open>ioctl\<close>s describe it. Structures that the module allocates
  live in maps from their address, so that \<^verbatim>\<open>kfree\<close> removes an address and a later access to it is the
  value \<open>Inl Use_After_Free\<close>. The results of the kernel functions that the module calls are arguments.
  An operation is one function of the state. Two callbacks do not keep \<^verbatim>\<open>pgenpci_dev->lock\<close> for all that
  they do and are composed of parts: \<^verbatim>\<open>dma_vma_close\<close> reads the device pointer before it takes the lock, and
  \<^verbatim>\<open>genpci_remove\<close> frees the device after it gave the lock back. \<open>Driver_Inv\<close> takes whole callbacks as steps,
  \<open>Driver_Race\<close> interleaves the parts.
\<close>

unbundle bit_operations_syntax

section \<open>State\<close>

record dma_entry =
  pgenpci_dev :: "nat option"
  entry_dev :: nat
  virt_addr :: u64
  entry_dma :: u64
  entry_size :: u64
  vma_refs :: nat
  release_requested :: bool
  listed :: bool

record genpci_dev =
  pdev :: nat
  devt :: u32
  dev_instance :: u32
  is_open :: bool
  memlist :: "nat list"

text \<open>What the module uses of a \<^verbatim>\<open>struct pci_dev\<close>, with the resources that it acquires for it.\<close>

record pci_dev =
  domain_nr :: int
  bus_number :: u8
  devfn :: u32
  enable_cnt :: nat
  bus_master :: bool
  regions :: bool
  drvdata :: "nat option"
  dev_refs :: nat

text \<open>
  The pages that a mapping shows: a coherent buffer, named by its kernel address, or a run of page frames.
\<close>

datatype vma_target = Maps_Buffer u64 u64 | Maps_Frames u64 u64

record kernel =
  entries :: "nat \<rightharpoonup> dma_entry"
  devs :: "nat \<rightharpoonup> genpci_dev"
  files :: "nat \<rightharpoonup> nat"
  vmas :: "nat \<rightharpoonup> nat"
  vm_pages :: "nat \<rightharpoonup> vma_target"
  coherent :: "u64 \<rightharpoonup> u64 \<times> u64"
  pci :: "nat \<Rightarrow> pci_dev"
  genpci_instance_ida :: "u32 set"
  cdevs :: "u32 \<rightharpoonup> nat \<times> u32"
  nodes :: "u32 set"
  genpci_chr_devt :: u32

datatype fault = Use_After_Free | Refcount_Fault

definition deref :: "(nat \<rightharpoonup> 'a) \<Rightarrow> nat \<Rightarrow> ('a \<Rightarrow> fault + 'b) \<Rightarrow> fault + 'b" where
  "deref m p f = (case m p of None \<Rightarrow> Inl Use_After_Free | Some x \<Rightarrow> f x)"

definition upd_entry :: "nat \<Rightarrow> (dma_entry \<Rightarrow> dma_entry) \<Rightarrow> kernel \<Rightarrow> kernel" where
  "upd_entry e f k = k\<lparr>entries := (entries k)(e := map_option f (entries k e))\<rparr>"

definition upd_dev :: "nat \<Rightarrow> (genpci_dev \<Rightarrow> genpci_dev) \<Rightarrow> kernel \<Rightarrow> kernel" where
  "upd_dev d f k = k\<lparr>devs := (devs k)(d := map_option f (devs k d))\<rparr>"

definition upd_pci :: "nat \<Rightarrow> (pci_dev \<Rightarrow> pci_dev) \<Rightarrow> kernel \<Rightarrow> kernel" where
  "upd_pci p f k = k\<lparr>pci := (pci k)(p := f (pci k p))\<rparr>"

text \<open>\<^verbatim>\<open>list_del\<close> unlinks an entry from the list that it is on.\<close>

definition list_del :: "nat \<Rightarrow> kernel \<Rightarrow> kernel" where
  "list_del e k = k\<lparr>devs := (\<lambda>d. map_option (\<lambda>dv. dv\<lparr>memlist := filter (\<lambda>x. x \<noteq> e) (memlist dv)\<rparr>) (devs k d))\<rparr>"

definition get_device :: "nat \<Rightarrow> kernel \<Rightarrow> kernel" where
  "get_device p = upd_pci p (\<lambda>v. v\<lparr>dev_refs := dev_refs v + 1\<rparr>)"

definition put_device :: "nat \<Rightarrow> kernel \<Rightarrow> kernel" where
  "put_device p = upd_pci p (\<lambda>v. v\<lparr>dev_refs := dev_refs v - 1\<rparr>)"

section \<open>Buffers and their mappings\<close>

definition detach_entry :: "nat \<Rightarrow> kernel \<Rightarrow> kernel" where
  "detach_entry e k =
     upd_entry e (\<lambda>v. v\<lparr>listed := False, pgenpci_dev := None, release_requested := True\<rparr>) (list_del e k)"

fun detach_loop :: "nat list \<Rightarrow> kernel \<Rightarrow> fault + kernel" where
  "detach_loop [] k = Inr k"
| "detach_loop (e # es) k = deref (entries k) e (\<lambda>_. detach_loop es (detach_entry e k))"

definition genpci_detach_dma_entries :: "nat \<Rightarrow> kernel \<Rightarrow> fault + kernel" where
  "genpci_detach_dma_entries d k = deref (devs k) d (\<lambda>dv. detach_loop (memlist dv) k)"

definition dma_vma_open :: "nat \<Rightarrow> kernel \<Rightarrow> fault + kernel" where
  "dma_vma_open v k =
     deref (vmas k) v (\<lambda>e. deref (entries k) e (\<lambda>entry.
       if vma_refs entry = 0 then Inl Refcount_Fault
       else Inr (upd_entry e (\<lambda>x. x\<lparr>vma_refs := vma_refs x + 1\<rparr>) k)))"

text \<open>The release of an entry without mappings.\<close>

definition free_entry :: "nat \<Rightarrow> dma_entry \<Rightarrow> kernel \<Rightarrow> kernel" where
  "free_entry e entry k =
     (let k = k\<lparr>coherent := (coherent k)(virt_addr entry := None)\<rparr>;
          k = put_device (entry_dev entry) k
      in k\<lparr>entries := (entries k)(e := None)\<rparr>)"

text \<open>
  \<^verbatim>\<open>dma_vma_close\<close> in three parts: the reads of the entry and of its device pointer, which no lock protects,
  taking the lock of that device, and the rest, up to the unlock under it. The last part frees an entry
  that has no mapping and is on no list, so that nothing else can reach it.
\<close>

definition dev_freed :: "nat option \<Rightarrow> kernel \<Rightarrow> bool" where
  "dev_freed dev k \<longleftrightarrow> dev \<noteq> None \<and> devs k (the dev) = None"

definition close_read :: "nat \<Rightarrow> kernel \<Rightarrow> fault + nat \<times> nat option" where
  "close_read v k =
     deref (vmas k) v (\<lambda>e. deref (entries k) e (\<lambda>entry. Inr (e, pgenpci_dev entry)))"

definition close_lock :: "nat option \<Rightarrow> kernel \<Rightarrow> fault + unit" where
  "close_lock dev k = (if dev_freed dev k then Inl Use_After_Free else Inr ())"

definition close_rest :: "nat \<Rightarrow> nat option \<Rightarrow> kernel \<Rightarrow> fault + kernel" where
  "close_rest e dev k =
     deref (entries k) e (\<lambda>entry.
       if vma_refs entry = 0 then Inl Refcount_Fault
       else let k = upd_entry e (\<lambda>x. x\<lparr>vma_refs := vma_refs x - 1\<rparr>) k;
                do_free = (vma_refs entry = 1);
                k = (if do_free \<and> listed entry then upd_entry e (\<lambda>x. x\<lparr>listed := False\<rparr>) (list_del e k) else k)
       in if dev_freed dev k then Inl Use_After_Free
          else Inr (if do_free then free_entry e entry k else k))"

definition dma_vma_close :: "nat \<Rightarrow> kernel \<Rightarrow> fault + kernel" where
  "dma_vma_close v k =
     (case close_read v k of Inl f \<Rightarrow> Inl f | Inr (e, dev) \<Rightarrow>
      case close_lock dev k of Inl f \<Rightarrow> Inl f | Inr _ \<Rightarrow> close_rest e dev k)"

section \<open>File operations\<close>

definition genpci_open :: "nat \<Rightarrow> nat \<Rightarrow> kernel \<Rightarrow> fault + int \<times> kernel" where
  "genpci_open d filp k =
     deref (devs k) d (\<lambda>_.
       let k = k\<lparr>files := (files k)(filp \<mapsto> d)\<rparr>
       in Inr (0, upd_dev d (\<lambda>x. x\<lparr>is_open := True\<rparr>) k))"

definition genpci_close :: "nat \<Rightarrow> kernel \<Rightarrow> fault + int \<times> kernel" where
  "genpci_close filp k =
     deref (files k) filp (\<lambda>d. deref (devs k) d (\<lambda>_. Inr (0, upd_dev d (\<lambda>x. x\<lparr>is_open := False\<rparr>) k)))"

text \<open>
  \<^verbatim>\<open>mmap_dma\<close>. The first argument holds the results of \<^verbatim>\<open>kzalloc\<close>, of \<^verbatim>\<open>dma_alloc_coherent\<close> (kernel and bus
  address) and of \<^verbatim>\<open>dma_mmap_coherent\<close> or \<^verbatim>\<open>remap_pfn_range\<close>; the mapping is given by its name, \<^verbatim>\<open>vm_start\<close>,
  \<^verbatim>\<open>vm_end\<close> and \<^verbatim>\<open>vm_pgoff\<close>. With offset 0 the mapping shows the new buffer. Otherwise it shows the page frames
  that follow the frame of the buffer's bus address at that distance.
\<close>

record mmap_results =
  kzalloc_entry :: "nat option"
  alloc_coherent :: "(u64 \<times> u64) option"
  remap_ret :: int

definition page_align :: "u64 \<Rightarrow> u64" where
  "page_align sz = (sz + 4095) AND NOT 4095"

definition PFN_DOWN :: "u64 \<Rightarrow> u64" where
  "PFN_DOWN x = drop_bit 12 x"

definition map_pages :: "u64 \<Rightarrow> u64 \<Rightarrow> u64 \<Rightarrow> u64 \<Rightarrow> vma_target" where
  "map_pages vm_pgoff va da sz =
     (if vm_pgoff = 0 then Maps_Buffer va sz else Maps_Frames (PFN_DOWN da + vm_pgoff) sz)"

definition new_entry :: "nat \<Rightarrow> nat \<Rightarrow> u64 \<Rightarrow> u64 \<Rightarrow> u64 \<Rightarrow> dma_entry" where
  "new_entry d p sz da va =
     \<lparr>pgenpci_dev = Some d, entry_dev = p, virt_addr = va, entry_dma = da, entry_size = sz,
      vma_refs = 1, release_requested = False, listed = True\<rparr>"

definition mmap_dma :: "mmap_results \<Rightarrow> nat \<Rightarrow> nat \<Rightarrow> u64 \<Rightarrow> u64 \<Rightarrow> u64 \<Rightarrow> kernel \<Rightarrow> fault + int \<times> kernel" where
  "mmap_dma R filp vma vm_start vm_end vm_pgoff k =
     deref (files k) filp (\<lambda>d.
       let sz = page_align (vm_end - vm_start) in
       case kzalloc_entry R of
         None \<Rightarrow> Inr (- ENOMEM, k)
       | Some e \<Rightarrow>
         deref (devs k) d (\<lambda>dv.
           case alloc_coherent R of
             None \<Rightarrow> Inr (- ENOMEM, k)
           | Some (va, da) \<Rightarrow>
             let k = k\<lparr>coherent := (coherent k)(va \<mapsto> (da, sz))\<rparr> in
             if remap_ret R \<noteq> 0 then Inr (remap_ret R, k\<lparr>coherent := (coherent k)(va := None)\<rparr>)
             else
               let k = k\<lparr>vm_pages := (vm_pages k)(vma \<mapsto> map_pages vm_pgoff va da sz)\<rparr>;
                   k = get_device (pdev dv) k;
                   k = k\<lparr>entries := (entries k)(e \<mapsto> new_entry d (pdev dv) sz da va)\<rparr>;
                   k = k\<lparr>vmas := (vmas k)(vma \<mapsto> e)\<rparr>;
                   k = upd_dev d (\<lambda>x. x\<lparr>memlist := e # memlist x\<rparr>) k
               in Inr (0, k)))"

datatype ioctl_cmd = IOCTL_GET_MEMFINFO | IOCTL_GET_BDF | IOCTL_RELEASE_MEM mem | IOCTL_OTHER

datatype ioctl_out = Out_None | Out_Mem mem | Out_Bdf bdf

fun scan_memlist :: "(nat \<rightharpoonup> dma_entry) \<Rightarrow> (dma_entry \<Rightarrow> bool) \<Rightarrow> nat list \<Rightarrow> fault + nat option" where
  "scan_memlist m P [] = Inr None"
| "scan_memlist m P (e # es) = deref m e (\<lambda>x. if P x then Inr (Some e) else scan_memlist m P es)"

definition mem_of_entry :: "dma_entry \<Rightarrow> mem" where
  "mem_of_entry x = mem_zero\<lparr>dma_addr := entry_dma x, kernel_virtaddr := virt_addr x, mem_size := entry_size x\<rparr>"

definition bdf_of_pci :: "pci_dev \<Rightarrow> bdf" where
  "bdf_of_pci p =
     \<lparr>bdf_domain = domain_nr p, bdf_bus = bus_number p,
      bdf_dev = ucast (drop_bit 3 (devfn p) AND 0x1f), bdf_func = ucast (devfn p AND 7)\<rparr>"

text \<open>\<open>copy_ok\<close> says whether \<^verbatim>\<open>copy_to_user\<close> or \<^verbatim>\<open>copy_from_user\<close> succeeds.\<close>

definition genpci_ioctl :: "bool \<Rightarrow> nat \<Rightarrow> ioctl_cmd \<Rightarrow> kernel \<Rightarrow> fault + int \<times> ioctl_out \<times> kernel" where
  "genpci_ioctl copy_ok filp cmd k =
     deref (files k) filp (\<lambda>d.
       case cmd of
         IOCTL_GET_MEMFINFO \<Rightarrow>
           deref (devs k) d (\<lambda>dv.
             case scan_memlist (entries k) (\<lambda>x. \<not> release_requested x) (memlist dv) of
               Inl f \<Rightarrow> Inl f
             | Inr None \<Rightarrow> Inr (- ENOENT, Out_None, k)
             | Inr (Some e) \<Rightarrow>
               deref (entries k) e (\<lambda>x.
                 if copy_ok then Inr (0, Out_Mem (mem_of_entry x), k) else Inr (- EFAULT, Out_None, k)))
       | IOCTL_GET_BDF \<Rightarrow>
           deref (devs k) d (\<lambda>dv.
             if copy_ok then Inr (0, Out_Bdf (bdf_of_pci (pci k (pdev dv))), k)
             else Inr (- EFAULT, Out_None, k))
       | IOCTL_RELEASE_MEM m \<Rightarrow>
           if \<not> copy_ok then Inr (- EFAULT, Out_None, k)
           else deref (devs k) d (\<lambda>dv.
             case scan_memlist (entries k) (\<lambda>x. virt_addr x = kernel_virtaddr m \<and> entry_dma x = dma_addr m) (memlist dv) of
               Inl f \<Rightarrow> Inl f
             | Inr None \<Rightarrow> Inr (- ENOENT, Out_None, k)
             | Inr (Some e) \<Rightarrow> Inr (0, Out_None, upd_entry e (\<lambda>x. x\<lparr>release_requested := True\<rparr>) k))
       | IOCTL_OTHER \<Rightarrow> Inr (- ENOTTY, Out_None, k))"

section \<open>Binding and unbinding a PCI function\<close>

text \<open>
  The results of the kernel functions that \<^verbatim>\<open>genpci_probe\<close> calls, in the order of the calls. The
  functions themselves are modelled by what they are documented to acquire or give back.
\<close>

record probe_results =
  kzalloc_dev :: "nat option"
  ida_get :: int
  enable_ret :: int
  mask_ret :: int
  regions_ret :: int
  cdev_ret :: int
  create_err :: bool

definition genpci_MINORS :: u32 where
  "genpci_MINORS = push_bit 20 1"

definition MKDEV :: "u32 \<Rightarrow> u32 \<Rightarrow> u32" where
  "MKDEV ma mi = push_bit 20 ma OR mi"

definition MAJOR :: "u32 \<Rightarrow> u32" where
  "MAJOR dev = drop_bit 20 dev"

definition pci_enable_device_mem :: "nat \<Rightarrow> kernel \<Rightarrow> kernel" where
  "pci_enable_device_mem p = upd_pci p (\<lambda>v. v\<lparr>enable_cnt := enable_cnt v + 1\<rparr>)"

definition pci_disable_device :: "nat \<Rightarrow> kernel \<Rightarrow> kernel" where
  "pci_disable_device p =
     upd_pci p (\<lambda>v. v\<lparr>enable_cnt := enable_cnt v - 1, bus_master := bus_master v \<and> 1 < enable_cnt v\<rparr>)"

definition pci_set_drvdata :: "nat \<Rightarrow> nat option \<Rightarrow> kernel \<Rightarrow> kernel" where
  "pci_set_drvdata p d = upd_pci p (\<lambda>v. v\<lparr>drvdata := d\<rparr>)"

definition pci_set_regions :: "nat \<Rightarrow> bool \<Rightarrow> kernel \<Rightarrow> kernel" where
  "pci_set_regions p b = upd_pci p (\<lambda>v. v\<lparr>regions := b\<rparr>)"

definition dev_zero :: genpci_dev where
  "dev_zero = \<lparr>pdev = 0, devt = 0, dev_instance = 0, is_open = False, memlist = []\<rparr>"

text \<open>The labels at the end of \<^verbatim>\<open>genpci_probe\<close>, each falling through to the next.\<close>

definition out_free_dev :: "nat \<Rightarrow> kernel \<Rightarrow> kernel" where
  "out_free_dev d k = k\<lparr>devs := (devs k)(d := None)\<rparr>"

definition out_remove_ida :: "nat \<Rightarrow> u32 \<Rightarrow> kernel \<Rightarrow> kernel" where
  "out_remove_ida d i k = out_free_dev d (k\<lparr>genpci_instance_ida := genpci_instance_ida k - {i}\<rparr>)"

definition out_disable_device :: "nat \<Rightarrow> u32 \<Rightarrow> nat \<Rightarrow> kernel \<Rightarrow> kernel" where
  "out_disable_device d i p k = out_remove_ida d i (pci_disable_device p k)"

definition out_clear_drvdata :: "nat \<Rightarrow> u32 \<Rightarrow> nat \<Rightarrow> kernel \<Rightarrow> kernel" where
  "out_clear_drvdata d i p k =
     out_disable_device d i p (put_device p (pci_set_regions p False (pci_set_drvdata p None k)))"

definition out_del_cdev :: "nat \<Rightarrow> u32 \<Rightarrow> nat \<Rightarrow> kernel \<Rightarrow> kernel" where
  "out_del_cdev d i p k = out_clear_drvdata d i p (k\<lparr>cdevs := (cdevs k)(MKDEV (MAJOR (genpci_chr_devt k)) i := None)\<rparr>)"

definition genpci_probe :: "probe_results \<Rightarrow> nat \<Rightarrow> kernel \<Rightarrow> int \<times> kernel" where
  "genpci_probe R p k =
     (case kzalloc_dev R of None \<Rightarrow> (- ENOMEM, k) | Some d \<Rightarrow>
      let k = k\<lparr>devs := (devs k)(d \<mapsto> dev_zero)\<rparr> in
      if ida_get R < 0 then (ida_get R, out_free_dev d k)
      else
        let i = word_of_int (ida_get R);
            k = k\<lparr>genpci_instance_ida := insert i (genpci_instance_ida k)\<rparr>;
            dt = MKDEV (MAJOR (genpci_chr_devt k)) i;
            k = upd_dev d (\<lambda>x. x\<lparr>dev_instance := i, devt := dt, memlist := []\<rparr>) k
        in if enable_ret R \<noteq> 0 then (enable_ret R, out_remove_ida d i k)
        else
          let k = upd_pci p (\<lambda>v. v\<lparr>bus_master := True\<rparr>) (pci_enable_device_mem p k)
          in if mask_ret R \<noteq> 0 then (mask_ret R, out_disable_device d i p k)
          else if regions_ret R \<noteq> 0 then (regions_ret R, out_disable_device d i p k)
          else
            let k = upd_dev d (\<lambda>x. x\<lparr>pdev := p\<rparr>) (get_device p (pci_set_regions p True k));
                k = pci_set_drvdata p (Some d) k
            in if cdev_ret R \<noteq> 0 then (cdev_ret R, out_clear_drvdata d i p k)
            else
              let k = k\<lparr>cdevs := (cdevs k)(dt \<mapsto> (d, genpci_MINORS))\<rparr>
              in if create_err R then (- ENODEV, out_del_cdev d i p k)
              else (0, k\<lparr>nodes := insert dt (nodes k)\<rparr>))"

text \<open>What \<^verbatim>\<open>genpci_remove\<close> does after it has detached the entries, without the lock.\<close>

definition remove_finish :: "nat \<Rightarrow> nat \<Rightarrow> kernel \<Rightarrow> fault + kernel" where
  "remove_finish p d k =
     (let k = pci_disable_device p (pci_set_regions p False (pci_set_drvdata p None k)) in
      deref (devs k) d (\<lambda>dv.
        let k = put_device (pdev dv) k;
            k = k\<lparr>nodes := nodes k - {devt dv}\<rparr>;
            k = k\<lparr>cdevs := (cdevs k)(devt dv := None)\<rparr>;
            k = k\<lparr>genpci_instance_ida := genpci_instance_ida k - {dev_instance dv}\<rparr>
        in Inr (k\<lparr>devs := (devs k)(d := None)\<rparr>)))"

definition genpci_remove :: "nat \<Rightarrow> kernel \<Rightarrow> fault + kernel" where
  "genpci_remove p k =
     (case drvdata (pci k p) of None \<Rightarrow> Inl Use_After_Free | Some d \<Rightarrow>
      case genpci_detach_dma_entries d k of Inl f \<Rightarrow> Inl f | Inr k \<Rightarrow> remove_finish p d k)"

section \<open>Loading and unloading the module\<close>

record module_state =
  ida_ready :: bool
  chrdev_region :: bool
  class_ready :: bool
  driver_registered :: bool

definition genpci_init :: "int \<Rightarrow> int option \<Rightarrow> int \<Rightarrow> module_state \<Rightarrow> int \<times> module_state" where
  "genpci_init region_ret class_err register_ret s =
     (let s = s\<lparr>ida_ready := True\<rparr> in
      if region_ret \<noteq> 0 then (region_ret, s\<lparr>ida_ready := False\<rparr>)
      else let s = s\<lparr>chrdev_region := True\<rparr> in
        case class_err of
          Some e \<Rightarrow> (e, s\<lparr>chrdev_region := False, ida_ready := False\<rparr>)
        | None \<Rightarrow> let s = s\<lparr>class_ready := True\<rparr> in
            if register_ret \<noteq> 0
            then (register_ret, s\<lparr>class_ready := False, chrdev_region := False, ida_ready := False\<rparr>)
            else (0, s\<lparr>driver_registered := True\<rparr>))"

text \<open>\<^verbatim>\<open>pci_unregister_driver\<close> calls \<^verbatim>\<open>genpci_remove\<close> for every function that is bound, here \<open>ps\<close>.\<close>

fun remove_all :: "nat list \<Rightarrow> kernel \<Rightarrow> fault + kernel" where
  "remove_all [] k = Inr k"
| "remove_all (p # ps) k = (case genpci_remove p k of Inl f \<Rightarrow> Inl f | Inr k \<Rightarrow> remove_all ps k)"

definition genpci_exit :: "nat list \<Rightarrow> kernel \<Rightarrow> module_state \<Rightarrow> fault + kernel \<times> module_state" where
  "genpci_exit ps k s =
     (case remove_all ps k of Inl f \<Rightarrow> Inl f | Inr k \<Rightarrow>
      let s = s\<lparr>driver_registered := False\<rparr> in
      let s = s\<lparr>class_ready := False\<rparr> in
      Inr (k, s\<lparr>chrdev_region := False, ida_ready := False\<rparr>))"

end
