(* ===== verification/Driver_Inv.thy ===== *)
theory Driver_Inv
  imports Driver
begin

text \<open>
  The driver as a transition system: any sequence of opening, closing, mapping, duplicating and
  removing mappings (\<^verbatim>\<open>fork\<close>, \<^verbatim>\<open>munmap\<close>, exit), \<^verbatim>\<open>ioctl\<close>s, and binding and unbinding of PCI functions, each
  callback as one step. The invariant ties the reference count of every buffer to the number of mappings
  that use it. It has the set of devices that were freed too early as a parameter, which is empty here;
  \<open>Driver_Race\<close>, where the parts of the callbacks interleave, uses it with other sets.
\<close>

section \<open>The kernel's side of the contract\<close>

text \<open>Allocators return memory that is not in use.\<close>

definition mmap_fresh :: "mmap_results \<Rightarrow> kernel \<Rightarrow> bool" where
  "mmap_fresh R k \<longleftrightarrow>
     (case kzalloc_entry R of None \<Rightarrow> True | Some e \<Rightarrow> entries k e = None)
   \<and> (case alloc_coherent R of None \<Rightarrow> True | Some (va, da) \<Rightarrow> coherent k va = None)"

text \<open>A probe is called for a function that is not bound, and gets an unused instance number.\<close>

definition unbound :: "pci_dev \<Rightarrow> bool" where
  "unbound v \<longleftrightarrow> enable_cnt v = 0 \<and> \<not> bus_master v \<and> \<not> regions v \<and> drvdata v = None"

definition probe_devt :: "probe_results \<Rightarrow> kernel \<Rightarrow> u32" where
  "probe_devt R k = MKDEV (MAJOR (genpci_chr_devt k)) (word_of_int (ida_get R))"

definition probe_fresh :: "probe_results \<Rightarrow> nat \<Rightarrow> kernel \<Rightarrow> bool" where
  "probe_fresh R p k \<longleftrightarrow> unbound (pci k p)
     \<and> (case kzalloc_dev R of None \<Rightarrow> True | Some d \<Rightarrow> devs k d = None)
     \<and> word_of_int (ida_get R) \<notin> genpci_instance_ida k
     \<and> cdevs k (probe_devt R k) = None \<and> probe_devt R k \<notin> nodes k"

text \<open>A mapping that is duplicated shows the same pages. One that is removed shows none.\<close>

definition dup_vma :: "nat \<Rightarrow> nat \<Rightarrow> kernel \<Rightarrow> kernel" where
  "dup_vma v v' k = k\<lparr>vmas := (vmas k)(v' := vmas k v), vm_pages := (vm_pages k)(v' := vm_pages k v)\<rparr>"

definition unmap_vma :: "nat \<Rightarrow> kernel \<Rightarrow> kernel" where
  "unmap_vma v k = k\<lparr>vmas := (vmas k)(v := None), vm_pages := (vm_pages k)(v := None)\<rparr>"

section \<open>Steps\<close>

inductive kstep :: "kernel \<Rightarrow> kernel \<Rightarrow> bool" where
  step_open: "genpci_open d f k = Inr (0, k') \<Longrightarrow> files k f = None \<Longrightarrow> kstep k k'"
| step_close: "genpci_close f k = Inr (0, k') \<Longrightarrow> kstep k (k'\<lparr>files := (files k')(f := None)\<rparr>)"
| step_mmap: "mmap_dma R f v a b off k = Inr (ret, k') \<Longrightarrow> vmas k v = None \<Longrightarrow> mmap_fresh R k \<Longrightarrow> kstep k k'"
| step_ioctl: "genpci_ioctl copy_ok f cmd k = Inr (ret, out, k') \<Longrightarrow> kstep k k'"
| step_dup: "vmas k v = Some e \<Longrightarrow> vmas k v' = None \<Longrightarrow> dma_vma_open v' (dup_vma v v' k) = Inr k' \<Longrightarrow> kstep k k'"
| step_unmap: "dma_vma_close v k = Inr k' \<Longrightarrow> kstep k (unmap_vma v k')"
| step_probe: "genpci_probe R p k = (ret, k') \<Longrightarrow> probe_fresh R p k \<Longrightarrow> kstep k k'"
| step_remove: "genpci_remove p k = Inr k' \<Longrightarrow> kstep k k'"

text \<open>The module has just been loaded: nothing is allocated, and the functions are unbound.\<close>

definition kernel_initial :: "kernel \<Rightarrow> bool" where
  "kernel_initial k \<longleftrightarrow> entries k = Map.empty \<and> devs k = Map.empty \<and> files k = Map.empty \<and> vmas k = Map.empty
     \<and> vm_pages k = Map.empty \<and> coherent k = Map.empty \<and> (\<forall>p. unbound (pci k p))"

inductive reachable :: "kernel \<Rightarrow> bool" where
  initial: "kernel_initial k \<Longrightarrow> reachable k"
| step: "reachable k \<Longrightarrow> kstep k k' \<Longrightarrow> reachable k'"

section \<open>The invariant\<close>

definition count_map :: "('a \<rightharpoonup> 'b) \<Rightarrow> 'b \<Rightarrow> nat" where
  "count_map m y = card {x. m x = Some y}"

definition refs_of :: "kernel \<Rightarrow> nat \<Rightarrow> nat" where
  "refs_of k e = count_map (vmas k) e"

text \<open>The buffer of an entry, the device that an entry points back to, and the entries on a device's list.\<close>

definition buf :: "kernel \<Rightarrow> nat \<rightharpoonup> u64" where
  "buf k e = map_option virt_addr (entries k e)"

definition own :: "kernel \<Rightarrow> nat \<rightharpoonup> nat" where
  "own k e = Option.bind (entries k e) pgenpci_dev"

definition mlist :: "kernel \<Rightarrow> nat \<Rightarrow> nat set" where
  "mlist k d = (case devs k d of None \<Rightarrow> {} | Some dv \<Rightarrow> set (memlist dv))"

definition bound_to :: "kernel \<Rightarrow> nat \<rightharpoonup> nat" where
  "bound_to k d = map_option pdev (devs k d)"

text \<open>
  Each entry is referenced by as many mappings as its count says, at least one, is on a list exactly
  if it points to a device, and its buffer is allocated.
\<close>

definition entry_ok :: "kernel \<Rightarrow> nat \<Rightarrow> dma_entry \<Rightarrow> bool" where
  "entry_ok k e x \<longleftrightarrow> vma_refs x = refs_of k e \<and> 0 < vma_refs x \<and> (listed x \<longleftrightarrow> pgenpci_dev x \<noteq> None)
     \<and> coherent k (virt_addr x) = Some (entry_dma x, entry_size x)"

text \<open>
  \<open>G\<close> are the devices that have been freed although entries may still point to them.
\<close>

definition drv_inv_on :: "nat set \<Rightarrow> kernel \<Rightarrow> bool" where
  "drv_inv_on G k \<longleftrightarrow> finite (dom (vmas k)) \<and> ran (vmas k) \<subseteq> dom (entries k)
     \<and> (\<forall>e x. entries k e = Some x \<longrightarrow> entry_ok k e x)
     \<and> (\<forall>e d. own k e = Some d \<and> d \<notin> G \<longleftrightarrow> e \<in> mlist k d)
     \<and> dom (coherent k) \<subseteq> ran (buf k) \<and> (\<forall>e e' va. buf k e = Some va \<longrightarrow> buf k e' = Some va \<longrightarrow> e = e')
     \<and> (\<forall>p d. drvdata (pci k p) = Some d \<longrightarrow> bound_to k d = Some p)
     \<and> dom (vm_pages k) = dom (vmas k) \<and> (\<forall>d\<in>G. devs k d = None)"

abbreviation drv_inv :: "kernel \<Rightarrow> bool" where
  "drv_inv \<equiv> drv_inv_on {}"

lemma drv_invI:
  assumes "finite (dom (vmas k))" "ran (vmas k) \<subseteq> dom (entries k)" "\<And>e x. entries k e = Some x \<Longrightarrow> entry_ok k e x"
    "\<And>e d. own k e = Some d \<and> d \<notin> G \<longleftrightarrow> e \<in> mlist k d" "dom (coherent k) \<subseteq> ran (buf k)"
    "\<And>e e' va. buf k e = Some va \<Longrightarrow> buf k e' = Some va \<Longrightarrow> e = e'"
    "\<And>p d. drvdata (pci k p) = Some d \<Longrightarrow> bound_to k d = Some p"
    "dom (vm_pages k) = dom (vmas k)" "\<And>d. d \<in> G \<Longrightarrow> devs k d = None"
  shows "drv_inv_on G k"
  unfolding drv_inv_on_def using assms by auto

lemma drv_invD:
  assumes "drv_inv_on G k"
  shows "finite (dom (vmas k))" "ran (vmas k) \<subseteq> dom (entries k)" "entries k e = Some x \<Longrightarrow> entry_ok k e x"
    "own k e = Some d \<and> d \<notin> G \<longleftrightarrow> e \<in> mlist k d" "dom (coherent k) \<subseteq> ran (buf k)"
    "buf k e = Some va \<Longrightarrow> buf k e' = Some va \<Longrightarrow> e = e'"
    "drvdata (pci k p) = Some d \<Longrightarrow> bound_to k d = Some p" "dom (vm_pages k) = dom (vmas k)"
    "d \<in> G \<Longrightarrow> devs k d = None"
  using assms unfolding drv_inv_on_def by blast+

text \<open>Fields and flags that the invariant does not mention.\<close>

lemma deref_Inr: "deref m p f = Inr y \<longleftrightarrow> (\<exists>x. m p = Some x \<and> f x = Inr y)"
  by (auto simp: deref_def split: option.splits)

lemma upd_simps [simp]:
  "devs (upd_entry e f k) = devs k" "files (upd_entry e f k) = files k" "vmas (upd_entry e f k) = vmas k"
  "coherent (upd_entry e f k) = coherent k" "pci (upd_entry e f k) = pci k" "vm_pages (upd_entry e f k) = vm_pages k"
  "entries (upd_dev d g k) = entries k" "files (upd_dev d g k) = files k" "vmas (upd_dev d g k) = vmas k"
  "coherent (upd_dev d g k) = coherent k" "pci (upd_dev d g k) = pci k" "vm_pages (upd_dev d g k) = vm_pages k"
  "entries (upd_pci p h k) = entries k" "devs (upd_pci p h k) = devs k" "files (upd_pci p h k) = files k"
  "vmas (upd_pci p h k) = vmas k" "coherent (upd_pci p h k) = coherent k" "vm_pages (upd_pci p h k) = vm_pages k"
  by (simp_all add: upd_entry_def upd_dev_def upd_pci_def)

lemma entries_upd: "entries (upd_entry e f k) = (entries k)(e := map_option f (entries k e))"
  by (simp add: upd_entry_def)

lemma devs_upd: "devs (upd_dev d f k) = (devs k)(d := map_option f (devs k d))"
  by (simp add: upd_dev_def)

lemma pci_upd: "pci (upd_pci p f k) = (pci k)(p := f (pci k p))"
  by (simp add: upd_pci_def)

text \<open>The views depend on nothing else.\<close>

lemma view_cong:
  "vmas k = vmas k' \<Longrightarrow> refs_of k = refs_of k'"
  "entries k = entries k' \<Longrightarrow> buf k = buf k'" "entries k = entries k' \<Longrightarrow> own k = own k'"
  "devs k = devs k' \<Longrightarrow> mlist k = mlist k'" "devs k = devs k' \<Longrightarrow> bound_to k = bound_to k'"
  by (rule ext, simp add: refs_of_def buf_def own_def mlist_def bound_to_def)+

lemma drv_inv_cong:
  assumes "vmas k = vmas k'" "coherent k = coherent k'" "entries k = entries k'" "mlist k = mlist k'" "bound_to k = bound_to k'"
    "\<And>p. drvdata (pci k p) = drvdata (pci k' p)" "vm_pages k = vm_pages k'"
  shows "drv_inv_on G k \<longleftrightarrow> drv_inv_on G k'"
proof -
  have "devs k d = None \<longleftrightarrow> devs k' d = None" for d
    using fun_cong [OF assms(5), of d] by (auto simp: bound_to_def)
  with assms view_cong(1) [OF assms(1)] view_cong(2,3) [OF assms(3)] show ?thesis
    by (simp add: drv_inv_on_def entry_ok_def)
qed

lemma drv_inv_files [simp]: "drv_inv_on G (k\<lparr>files := fs\<rparr>) \<longleftrightarrow> drv_inv_on G k"
  by (rule drv_inv_cong) (simp_all add: fun_eq_iff mlist_def bound_to_def)

lemma map_option_upd_id: "(\<And>x. g (f x) = g x) \<Longrightarrow> map_option g (map_option f y) = map_option g y"
  by (cases y) simp_all

lemma bind_upd_id: "(\<And>x. g (f x) = g x) \<Longrightarrow> Option.bind (map_option f y) g = Option.bind y g"
  by (cases y) simp_all

lemma bind_upd_None: "(\<And>x. g (f x) = None) \<Longrightarrow> Option.bind (map_option f y) g = None"
  by (cases y) simp_all

lemma drv_inv_is_open [simp]: "drv_inv_on G (upd_dev d (\<lambda>x. x\<lparr>is_open := b\<rparr>) k) \<longleftrightarrow> drv_inv_on G k"
  by (rule drv_inv_cong) (auto simp: fun_eq_iff mlist_def bound_to_def devs_upd map_option_upd_id split: option.splits)

lemma drv_inv_release:
  assumes "drv_inv_on G k"
  shows "drv_inv_on G (upd_entry e (\<lambda>x. x\<lparr>release_requested := b\<rparr>) k)" (is "drv_inv_on G ?k")
proof -
  note inv = drv_invD [OF assms]
  have v: "refs_of ?k = refs_of k" "mlist ?k = mlist k" "bound_to ?k = bound_to k" by (rule view_cong; simp)+
  have o: "buf ?k = buf k" "own ?k = own k" "dom (entries ?k) = dom (entries k)"
    by (auto simp: fun_eq_iff buf_def own_def entries_upd map_option_upd_id bind_upd_id split: option.splits)
  have "entry_ok ?k e' x" if x: "entries ?k e' = Some x" for e' x
  proof -
    from x obtain y where y: "entries k e' = Some y" "x = y \<or> x = y\<lparr>release_requested := b\<rparr>"
      by (auto simp: entries_upd split: if_splits)
    show ?thesis using inv(3) [OF y(1)] y(2) by (auto simp: entry_ok_def v)
  qed
  then show ?thesis
    using inv(1,2,5) by (intro drv_invI) (simp_all add: v o inv(4,7,8,9), erule (1) inv(6))
qed

section \<open>Counting mappings\<close>

lemma finite_preimage: "finite (dom m) \<Longrightarrow> finite {x. m x = Some y}"
  by (rule finite_subset [of _ "dom m"]) auto

lemma count_map_insert:
  assumes "m v = None" and "finite (dom m)"
  shows "count_map (m(v \<mapsto> e)) y = count_map m y + (if y = e then 1 else 0)"
proof (cases "y = e")
  case True
  have "{x. (m(v \<mapsto> e)) x = Some e} = insert v {x. m x = Some e}" by auto
  moreover have "v \<notin> {x. m x = Some e}" using assms(1) by simp
  ultimately show ?thesis using True finite_preimage [OF assms(2)] by (simp add: count_map_def)
next
  case False
  then have "{x. (m(v \<mapsto> e)) x = Some y} = {x. m x = Some y}" using assms(1) by auto
  with False show ?thesis by (simp add: count_map_def)
qed

lemma count_map_delete:
  assumes "m v = Some e" and "finite (dom m)"
  shows "count_map (m(v := None)) y = count_map m y - (if y = e then 1 else 0)"
proof -
  have "{x. (m(v := None)) x = Some y} = {x. m x = Some y} - {v}" by auto
  then show ?thesis
    using assms finite_preimage [OF assms(2)] by (simp add: count_map_def card_Diff_singleton_if)
qed

lemma count_map_pos:
  assumes "m v = Some e" and "finite (dom m)"
  shows "0 < count_map m e"
  unfolding count_map_def card_gt_0_iff using assms finite_preimage by fastforce

section \<open>Mapping a buffer\<close>

definition mapped :: "nat \<Rightarrow> nat \<Rightarrow> nat \<Rightarrow> nat \<Rightarrow> u64 \<Rightarrow> u64 \<Rightarrow> u64 \<Rightarrow> u64 \<Rightarrow> kernel \<Rightarrow> kernel" where
  "mapped d p e v va da sz off k =
     upd_dev d (\<lambda>x. x\<lparr>memlist := e # memlist x\<rparr>)
       (get_device p (k\<lparr>coherent := (coherent k)(va \<mapsto> (da, sz)),
          entries := (entries k)(e \<mapsto> new_entry d p sz da va), vmas := (vmas k)(v \<mapsto> e),
          vm_pages := (vm_pages k)(v \<mapsto> map_pages off va da sz)\<rparr>))"

lemma mapped_simps:
  "entries (mapped d p e v va da sz off k) = (entries k)(e \<mapsto> new_entry d p sz da va)"
  "vmas (mapped d p e v va da sz off k) = (vmas k)(v \<mapsto> e)" "files (mapped d p e v va da sz off k) = files k"
  "coherent (mapped d p e v va da sz off k) = (coherent k)(va \<mapsto> (da, sz))"
  "devs (mapped d p e v va da sz off k) = (devs k)(d := map_option (\<lambda>x. x\<lparr>memlist := e # memlist x\<rparr>) (devs k d))"
  "drvdata (pci (mapped d p e v va da sz off k) q) = drvdata (pci k q)"
  "vm_pages (mapped d p e v va da sz off k) = (vm_pages k)(v \<mapsto> map_pages off va da sz)"
  by (simp_all add: mapped_def upd_dev_def upd_pci_def get_device_def)

lemma mmap_dma_ok:
  assumes "mmap_dma R f v a b off k = Inr (0, k')"
  obtains d dv e va da where "files k f = Some d" "devs k d = Some dv" "kzalloc_entry R = Some e"
    "alloc_coherent R = Some (va, da)" "k' = mapped d (pdev dv) e v va da (page_align (b - a)) off k"
proof -
  obtain d e where d: "files k f = Some d" "kzalloc_entry R = Some e"
    using assms by (cases "kzalloc_entry R") (auto simp: mmap_dma_def deref_Inr Let_def)
  obtain dv va da where c: "devs k d = Some dv" "alloc_coherent R = Some (va, da)"
    using assms d by (cases "alloc_coherent R") (auto simp: mmap_dma_def deref_Inr Let_def)
  have "k' = mapped d (pdev dv) e v va da (page_align (b - a)) off k"
    using assms d c by (auto simp: mmap_dma_def deref_def Let_def mapped_def get_device_def upd_dev_def upd_pci_def split: if_splits)
  with d c show thesis using that by blast
qed

lemma mmap_dma_outcome:
  assumes run: "mmap_dma R f v a b off k = Inr (ret, k')" and fresh: "mmap_fresh R k"
  obtains (failed) "ret \<noteq> 0" "k' = k"
  | (ok) d dv e va da where "ret = 0" "files k f = Some d" "devs k d = Some dv" "kzalloc_entry R = Some e"
      "alloc_coherent R = Some (va, da)" "entries k e = None" "coherent k va = None"
      "k' = mapped d (pdev dv) e v va da (page_align (b - a)) off k"
proof (cases "ret = 0")
  case True
  with run have "mmap_dma R f v a b off k = Inr (0, k')" by simp
  then show thesis
    by (rule mmap_dma_ok) (use fresh True in \<open>auto intro: ok simp: mmap_fresh_def\<close>)
next
  case False
  then have "k' = k"
    using run fresh
    by (auto simp: mmap_dma_def deref_Inr mmap_fresh_def Let_def fun_upd_idem split: option.splits if_splits)
  then show thesis using failed False by simp
qed

lemma drv_inv_mapped:
  assumes inv: "drv_inv_on G k" and dv: "devs k d = Some dv" and e: "entries k e = None" and va: "coherent k va = None"
    and v: "vmas k v = None"
  shows "drv_inv_on G (mapped d p e v va da sz off k)" (is "drv_inv_on G ?k")
proof (rule drv_invI)
  note inv' = drv_invD [OF inv]
  have no_e: "refs_of k e = 0" "buf k e = None" "own k e = None"
    using inv'(2) e by (auto simp: refs_of_def count_map_def card_eq_0_iff ran_def buf_def own_def)
  have refs: "refs_of ?k y = refs_of k y + (if y = e then 1 else 0)" for y
    using count_map_insert [OF v inv'(1)] by (simp add: refs_of_def mapped_simps)
  have buf: "buf ?k = (buf k)(e \<mapsto> va)" and own: "own ?k = (own k)(e \<mapsto> d)"
    by (auto simp: fun_eq_iff buf_def own_def mapped_simps new_entry_def)
  have va_new: "buf k y \<noteq> Some va" for y
    using inv'(3) va by (auto simp: buf_def entry_ok_def)
  show "finite (dom (vmas ?k))" using inv'(1) by (simp add: mapped_simps)
  show "ran (vmas ?k) \<subseteq> dom (entries ?k)" using inv'(2) v by (auto simp: mapped_simps)
  show "entry_ok ?k y x" if "entries ?k y = Some x" for y x
    using that inv'(3) [of y x] va no_e
    by (auto simp: mapped_simps entry_ok_def refs new_entry_def split: if_splits)
  have d: "d \<notin> G" using inv'(9) dv by fastforce
  show "own ?k y = Some d' \<and> d' \<notin> G \<longleftrightarrow> y \<in> mlist ?k d'" for y d'
    using inv'(4) [of y d'] dv no_e(3) inv'(4) [of e d'] d
    by (auto simp: own mlist_def mapped_simps)
  show "dom (vm_pages ?k) = dom (vmas ?k)" using inv'(8) by (simp add: mapped_simps)
  show "devs ?k d' = None" if "d' \<in> G" for d' using inv'(9) [OF that] d that by (auto simp: mapped_simps)
  show "dom (coherent ?k) \<subseteq> ran (buf ?k)" using inv'(5) no_e(2) by (auto simp: buf mapped_simps)
  show "y = z" if "buf ?k y = Some a" "buf ?k z = Some a" for y z a
    using that inv'(6) va_new by (auto simp: buf split: if_splits)
  show "bound_to ?k d' = Some q" if "drvdata (pci ?k q) = Some d'" for q d'
    using that inv'(7) [of q d'] by (auto simp: bound_to_def mapped_simps)
qed

section \<open>Duplicating and removing a mapping\<close>

lemma drv_inv_dup:
  assumes inv: "drv_inv_on G k" and v: "vmas k v = Some e" "vmas k v' = None"
    and run: "dma_vma_open v' (dup_vma v v' k) = Inr k'"
  shows "drv_inv_on G k'"
proof (rule drv_invI)
  note inv' = drv_invD [OF inv]
  have k': "k' = upd_entry e (\<lambda>x. x\<lparr>vma_refs := vma_refs x + 1\<rparr>) (dup_vma v v' k)"
    using run v by (auto simp: dma_vma_open_def dup_vma_def deref_Inr split: if_splits)
  have vm: "vm_pages k' = (vm_pages k)(v' := vm_pages k v)" "vmas k' = (vmas k)(v' \<mapsto> e)" "coherent k' = coherent k" "devs k' = devs k" "pci k' = pci k"
    "entries k' = (entries k)(e := map_option (\<lambda>x. x\<lparr>vma_refs := vma_refs x + 1\<rparr>) (entries k e))"
    by (simp_all add: k' entries_upd dup_vma_def v)
  have refs: "refs_of k' y = refs_of k y + (if y = e then 1 else 0)" for y
    using count_map_insert [OF v(2) inv'(1)] by (simp add: refs_of_def vm)
  have o: "buf k' = buf k" "own k' = own k" "dom (entries k') = dom (entries k)"
    by (auto simp: fun_eq_iff buf_def own_def vm map_option_upd_id bind_upd_id split: option.splits)
  have w: "mlist k' = mlist k" "bound_to k' = bound_to k" by (rule view_cong; simp add: vm)+
  show "finite (dom (vmas k'))" using inv'(1) by (simp add: vm)
  show "ran (vmas k') \<subseteq> dom (entries k')" unfolding o(3) using inv'(2) v by (auto simp: vm ran_def)
  show "entry_ok k' y x" if x: "entries k' y = Some x" for y x
  proof (cases "y = e")
    case True
    then obtain z where z: "entries k e = Some z" "x = z\<lparr>vma_refs := vma_refs z + 1\<rparr>" using x by (auto simp: vm)
    show ?thesis using inv'(3) [OF z(1)] True by (simp add: z(2) entry_ok_def refs vm)
  next
    case False
    then have "entries k y = Some x" using x by (simp add: vm)
    from inv'(3) [OF this] False show ?thesis by (simp add: entry_ok_def refs vm)
  qed
  show "own k' y = Some d \<and> d \<notin> G \<longleftrightarrow> y \<in> mlist k' d" for y d using inv'(4) by (simp add: o w)
  show "dom (vm_pages k') = dom (vmas k')" using inv'(8) v by (auto simp: vm dom_def)
  show "devs k' d = None" if "d \<in> G" for d using inv'(9) [OF that] by (simp add: vm)
  show "dom (coherent k') \<subseteq> ran (buf k')" using inv'(5) by (simp add: o vm)
  show "y = z" if "buf k' y = Some a" "buf k' z = Some a" for y z a using that inv'(6) by (simp add: o)
  show "bound_to k' d' = Some q" if "drvdata (pci k' q) = Some d'" for q d' using that inv'(7) by (simp add: w vm)
qed

text \<open>The invariant gives everything that \<^verbatim>\<open>dma_vma_close\<close> checks, so it never faults when it runs alone.\<close>

lemma vma_entry:
  assumes "drv_inv_on G k" and "vmas k v = Some e"
  obtains x where "entries k e = Some x" "vma_refs x = refs_of k e" "0 < vma_refs x"
    "\<And>d. pgenpci_dev x = Some d \<Longrightarrow> d \<notin> G \<Longrightarrow> devs k d \<noteq> None" "listed x \<longleftrightarrow> pgenpci_dev x \<noteq> None"
proof -
  note inv' = drv_invD [OF assms(1)]
  obtain x where x: "entries k e = Some x" using inv'(2) assms(2) by (auto simp: ran_def)
  have "devs k d \<noteq> None" if "pgenpci_dev x = Some d" "d \<notin> G" for d
    using inv'(4) [of e d] that x by (auto simp: own_def mlist_def split: option.splits)
  then show thesis using that [OF x] inv'(3) [OF x] by (simp add: entry_ok_def)
qed

definition after_close :: "nat \<Rightarrow> nat \<Rightarrow> dma_entry \<Rightarrow> kernel \<Rightarrow> kernel" where
  "after_close v e x k =
     (if vma_refs x = 1
      then free_entry e x (if listed x then upd_entry e (\<lambda>x. x\<lparr>listed := False\<rparr>) (list_del e (upd_entry e (\<lambda>x. x\<lparr>vma_refs := vma_refs x - 1\<rparr>) k))
                           else upd_entry e (\<lambda>x. x\<lparr>vma_refs := vma_refs x - 1\<rparr>) k)
      else upd_entry e (\<lambda>x. x\<lparr>vma_refs := vma_refs x - 1\<rparr>) k)"

lemma close_rest_eq:
  assumes "drv_inv_on G k" and "vmas k v = Some e" and "entries k e = Some x"
  shows "close_rest e dev k = (if dev_freed dev k then Inl Use_After_Free else Inr (after_close v e x k))"
proof -
  have "0 < vma_refs x" using drv_invD(3) [OF assms(1,3)] by (simp add: entry_ok_def)
  then show ?thesis
    using assms(3) by (auto simp: close_rest_def deref_def after_close_def Let_def dev_freed_def list_del_def)
qed

lemma dma_vma_close_eq:
  assumes "drv_inv k" and "vmas k v = Some e" and "entries k e = Some x"
  shows "dma_vma_close v k = Inr (after_close v e x k)"
proof -
  obtain y where "entries k e = Some y" "\<And>d. pgenpci_dev y = Some d \<Longrightarrow> devs k d \<noteq> None"
    by (rule vma_entry [OF assms(1,2)]) blast
  then have "\<not> dev_freed (pgenpci_dev x) k" using assms(3) by (cases "pgenpci_dev x") (auto simp: dev_freed_def)
  then show ?thesis
    using assms(2,3) close_rest_eq [OF assms] by (simp add: dma_vma_close_def close_read_def close_lock_def deref_def)
qed

lemma free_entry_fields:
  "vmas (free_entry e x k) = vmas k" "coherent (free_entry e x k) = (coherent k)(virt_addr x := None)"
  "entries (free_entry e x k) = (entries k)(e := None)" "devs (free_entry e x k) = devs k"
  "drvdata (pci (free_entry e x k) p) = drvdata (pci k p)" "files (free_entry e x k) = files k"
  "vm_pages (free_entry e x k) = vm_pages k"
  by (simp_all add: free_entry_def Let_def put_device_def upd_pci_def)

lemma list_del_fields [simp]:
  "vmas (list_del e k) = vmas k" "coherent (list_del e k) = coherent k" "entries (list_del e k) = entries k"
  "pci (list_del e k) = pci k" "files (list_del e k) = files k" "vm_pages (list_del e k) = vm_pages k"
  by (simp_all add: list_del_def)

lemma mlist_list_del [simp]: "mlist (list_del e k) d = mlist k d - {e}"
  by (auto simp: list_del_def mlist_def split: option.splits)

lemma bound_to_list_del [simp]: "bound_to (list_del e k) = bound_to k"
  by (simp add: fun_eq_iff list_del_def bound_to_def map_option_upd_id)

lemma mlist_cong: "devs k = devs k' \<Longrightarrow> mlist k d = mlist k' d"
  by (simp add: mlist_def)

text \<open>The last mapping of an entry goes away: so does the entry, its place on the list and its buffer.\<close>

lemma after_close_last:
  assumes inv: "drv_inv_on G k" and x: "entries k e = Some x" and refs: "vma_refs x = 1"
  shows "entries (after_close v e x k) = (entries k)(e := None)"
    "coherent (after_close v e x k) = (coherent k)(virt_addr x := None)" "vmas (after_close v e x k) = vmas k"
    "mlist (after_close v e x k) d = mlist k d - {e}" "bound_to (after_close v e x k) = bound_to k"
    "drvdata (pci (after_close v e x k) p) = drvdata (pci k p)" "files (after_close v e x k) = files k"
    "vm_pages (after_close v e x k) = vm_pages k"
proof -
  let ?a = "after_close v e x k"
  show "entries ?a = (entries k)(e := None)" "coherent ?a = (coherent k)(virt_addr x := None)" "vmas ?a = vmas k"
    "drvdata (pci ?a p) = drvdata (pci k p)" "files ?a = files k" "vm_pages ?a = vm_pages k"
    using refs by (auto simp: after_close_def free_entry_fields entries_upd fun_eq_iff)
  have dv: "devs ?a = (if listed x then devs (list_del e k) else devs k)"
    using refs by (auto simp: after_close_def free_entry_fields list_del_def)
  have "e \<notin> mlist k d" if "\<not> listed x"
    using x that drv_invD(3) [OF inv x] drv_invD(4) [OF inv, of e d] by (auto simp: entry_ok_def own_def)
  then show "mlist ?a d = mlist k d - {e}"
    using mlist_cong [of ?a "list_del e k" d] mlist_cong [of ?a k d] dv by (cases "listed x") auto
  show "bound_to ?a = bound_to k"
    using view_cong(5) [of ?a "list_del e k"] view_cong(5) [of ?a k] dv by (cases "listed x") auto
qed

lemma refs_after_close:
  assumes inv: "drv_inv_on G k" and v: "vmas k v = Some e"
  shows "refs_of (unmap_vma v (after_close v e x k)) y = refs_of k y - (if y = e then 1 else 0)"
  using count_map_delete [OF v drv_invD(1) [OF inv]]
  by (simp add: refs_of_def unmap_vma_def after_close_def free_entry_fields)

lemma drv_inv_unmap_last:
  assumes inv: "drv_inv_on G k" and v: "vmas k v = Some e" and x: "entries k e = Some x" and one: "vma_refs x = 1"
  shows "drv_inv_on G (unmap_vma v (after_close v e x k))" (is "drv_inv_on G ?k")
proof -
  note inv' = drv_invD [OF inv]
  have xo: "vma_refs x = refs_of k e" "0 < vma_refs x" using inv'(3) [OF x] by (simp_all add: entry_ok_def)
  note refs = refs_after_close [OF inv v, of x]
  note a = after_close_last [OF inv x one, where v = v]
  have u: "vmas ?k = (vmas k)(v := None)" "vm_pages ?k = (vm_pages k)(v := None)" "entries ?k = (entries k)(e := None)"
    "coherent ?k = (coherent k)(virt_addr x := None)" "devs ?k = devs (after_close v e x k)"
    "drvdata (pci ?k q) = drvdata (pci k q)" for q
    by (simp_all add: unmap_vma_def a)
  have fin: "finite (dom (vmas ?k))" using inv'(1) by (simp add: u)
  have "count_map ((vmas k)(v := None)) e = 0" using refs [of e] xo one by (simp add: refs_of_def u(1))
  then have no_e: "vmas k v' \<noteq> Some e" if "v' \<noteq> v" for v'
    using count_map_pos [of "(vmas k)(v := None)" v' e] inv'(1) that by auto
  have buf: "buf ?k = (buf k)(e := None)" "own ?k = (own k)(e := None)"
    by (auto simp: fun_eq_iff buf_def own_def u)
  have w: "mlist ?k d = mlist k d - {e}" "bound_to ?k = bound_to k" for d
    using a(4,5) by (simp_all add: mlist_def bound_to_def fun_eq_iff u)
  show ?thesis
  proof (rule drv_invI)
    show "finite (dom (vmas ?k))" by (rule fin)
    show "ran (vmas ?k) \<subseteq> dom (entries ?k)" using inv'(2) no_e by (auto simp: u ran_def split: if_splits)
    show "entry_ok ?k y z" if z: "entries ?k y = Some z" for y z
    proof -
      have y: "y \<noteq> e" "entries k y = Some z" using z by (auto simp: u split: if_splits)
      have "virt_addr z \<noteq> virt_addr x" using inv'(6) [of y _ e] y x by (auto simp: buf_def)
      then show ?thesis using inv'(3) [OF y(2)] y(1) by (simp add: entry_ok_def u refs)
    qed
    show "dom (vm_pages ?k) = dom (vmas ?k)" using inv'(8) by (simp add: u)
    show "devs ?k d = None" if "d \<in> G" for d
      using fun_cong [OF w(2), of d] inv'(9) [OF that] by (simp add: bound_to_def)
    show "own ?k y = Some d \<and> d \<notin> G \<longleftrightarrow> y \<in> mlist ?k d" for y d using inv'(4) [of y d] by (auto simp: buf w)
    show "dom (coherent ?k) \<subseteq> ran (buf ?k)"
    proof
      fix va assume "va \<in> dom (coherent ?k)"
      then have "va \<in> ran (buf k)" "va \<noteq> virt_addr x" using inv'(5) by (auto simp: u split: if_splits)
      then obtain y where y: "buf k y = Some va" by (auto simp: ran_def)
      then have "y \<noteq> e" using x \<open>va \<noteq> virt_addr x\<close> by (auto simp: buf_def)
      with y show "va \<in> ran (buf ?k)" by (auto simp: buf intro: ranI [of _ y])
    qed
    show "y = z" if "buf ?k y = Some c" "buf ?k z = Some c" for y z c
      using that inv'(6) by (auto simp: buf split: if_splits)
    show "bound_to ?k d = Some p" if "drvdata (pci ?k p) = Some d" for p d
      using that inv'(7) by (simp add: w u)
  qed
qed

lemma drv_inv_unmap_shared:
  assumes inv: "drv_inv_on G k" and v: "vmas k v = Some e" and x: "entries k e = Some x" and many: "vma_refs x \<noteq> 1"
  shows "drv_inv_on G (unmap_vma v (after_close v e x k))" (is "drv_inv_on G ?k")
proof -
  note inv' = drv_invD [OF inv]
  have xo: "vma_refs x = refs_of k e" "0 < vma_refs x" using inv'(3) [OF x] by (simp_all add: entry_ok_def)
  note refs = refs_after_close [OF inv v, of x]
  let ?u = "upd_entry e (\<lambda>x. x\<lparr>vma_refs := vma_refs x - 1\<rparr>) k"
  have k: "?k = unmap_vma v ?u" using many by (simp add: after_close_def)
  have en: "entries ?k = (entries k)(e := map_option (\<lambda>x. x\<lparr>vma_refs := vma_refs x - 1\<rparr>) (entries k e))"
    "coherent ?k = coherent k" "pci ?k = pci k" "devs ?k = devs k" "vmas ?k = (vmas k)(v := None)"
    "vm_pages ?k = (vm_pages k)(v := None)"
    unfolding k by (simp_all add: entries_upd unmap_vma_def)
  have o: "buf ?k = buf k" "own ?k = own k" "dom (entries ?k) = dom (entries k)"
    by (auto simp: fun_eq_iff buf_def own_def en map_option_upd_id bind_upd_id split: option.splits)
  have w: "mlist ?k = mlist k" "bound_to ?k = bound_to k" by (rule view_cong; simp add: en)+
  show ?thesis
  proof (rule drv_invI)
    show "finite (dom (vmas ?k))" using inv'(1) by (simp add: en)
    show "dom (vm_pages ?k) = dom (vmas ?k)" using inv'(8) by (simp add: en)
    show "devs ?k d = None" if "d \<in> G" for d using inv'(9) [OF that] by (simp add: en)
    show "ran (vmas ?k) \<subseteq> dom (entries ?k)" unfolding o(3) using inv'(2) by (auto simp: ran_def en split: if_splits)
    show "entry_ok ?k y z" if z: "entries ?k y = Some z" for y z
    proof (cases "y = e")
      case True
      then have "z = x\<lparr>vma_refs := vma_refs x - 1\<rparr>" using z x by (simp add: en)
      with inv'(3) [OF x] True many xo show ?thesis by (simp add: entry_ok_def en refs)
    next
      case no: False
      then have "entries k y = Some z" using z by (simp add: en)
      from inv'(3) [OF this] no show ?thesis by (simp add: entry_ok_def en refs)
    qed
    show "own ?k y = Some d \<and> d \<notin> G \<longleftrightarrow> y \<in> mlist ?k d" for y d using inv'(4) by (simp add: o w)
    show "dom (coherent ?k) \<subseteq> ran (buf ?k)" using inv'(5) by (simp add: o en)
    show "y = z" if "buf ?k y = Some c" "buf ?k z = Some c" for y z c using that inv'(6) by (simp add: o)
    show "bound_to ?k d = Some p" if "drvdata (pci ?k p) = Some d" for p d using that inv'(7) by (simp add: w en)
  qed
qed

lemma drv_inv_unmap:
  assumes "drv_inv_on G k" and "vmas k v = Some e" and "entries k e = Some x"
  shows "drv_inv_on G (unmap_vma v (after_close v e x k))"
  using drv_inv_unmap_last [OF assms] drv_inv_unmap_shared [OF assms] by blast

section \<open>Removing a device\<close>

definition detached :: "nat set \<Rightarrow> kernel \<Rightarrow> kernel" where
  "detached S k = k\<lparr>entries := (\<lambda>e. if e \<in> S then map_option (\<lambda>v. v\<lparr>listed := False, pgenpci_dev := None, release_requested := True\<rparr>) (entries k e)
       else entries k e),
     devs := (\<lambda>d. map_option (\<lambda>dv. dv\<lparr>memlist := filter (\<lambda>x. x \<notin> S) (memlist dv)\<rparr>) (devs k d))\<rparr>"

lemma detached_insert: "detached S (detach_entry e k) = detached (insert e S) k"
  by (auto simp: detached_def detach_entry_def upd_entry_def list_del_def fun_eq_iff option.map_comp comp_def conj_commute
      intro!: kernel.equality map_option_cong)

lemma detached_empty: "detached {} k = k"
  by (simp add: detached_def map_option.identity)

lemma detach_loop_eq:
  "set es \<subseteq> dom (entries k) \<Longrightarrow> detach_loop es k = Inr (detached (set es) k)"
proof (induction es arbitrary: k)
  case Nil
  then show ?case by (simp add: detached_empty)
next
  case (Cons e es)
  have "dom (entries (detach_entry e k)) = dom (entries k)"
    by (auto simp: detach_entry_def entries_upd split: if_splits)
  with Cons have "detach_loop es (detach_entry e k) = Inr (detached (set es) (detach_entry e k))" by simp
  with Cons.prems show ?case by (auto simp: deref_def detached_insert)
qed

lemma detached_fields [simp]:
  "vmas (detached S k) = vmas k" "vm_pages (detached S k) = vm_pages k" "coherent (detached S k) = coherent k"
  "files (detached S k) = files k" "pci (detached S k) = pci k"
  by (simp_all add: detached_def)

lemma detach_entries_eq:
  assumes inv: "drv_inv_on G k" and dv: "devs k d = Some dv"
  shows "genpci_detach_dma_entries d k = Inr (detached (mlist k d) k)"
proof -
  note inv' = drv_invD [OF inv]
  have S: "set (memlist dv) = mlist k d" using dv by (simp add: mlist_def)
  have "set (memlist dv) \<subseteq> dom (entries k)"
  proof
    fix e assume "e \<in> set (memlist dv)"
    then have "own k e = Some d" using inv'(4) [of e d] S by simp
    then show "e \<in> dom (entries k)" by (auto simp: own_def bind_eq_Some_conv)
  qed
  then show ?thesis
    using dv by (simp add: genpci_detach_dma_entries_def deref_def detach_loop_eq S)
qed

lemma remove_finish_outcome:
  assumes "devs k d = Some dv"
  obtains k' where "remove_finish p d k = Inr k'" "entries k' = entries k" "vmas k' = vmas k" "vm_pages k' = vm_pages k"
    "coherent k' = coherent k" "files k' = files k" "devs k' = (devs k)(d := None)"
    "\<And>q. drvdata (pci k' q) = (if q = p then None else drvdata (pci k q))"
  using assms that
  by (auto simp: remove_finish_def deref_def Let_def put_device_def pci_disable_device_def pci_set_regions_def
      pci_set_drvdata_def upd_pci_def)

lemma genpci_remove_outcome:
  assumes inv: "drv_inv_on G k" and bnd: "drvdata (pci k p) = Some d"
  obtains k' where "genpci_remove p k = Inr k'" "entries k' = entries (detached (mlist k d) k)" "vmas k' = vmas k"
    "coherent k' = coherent k" "files k' = files k" "devs k' = (devs (detached (mlist k d) k))(d := None)"
    "\<And>q. drvdata (pci k' q) = (if q = p then None else drvdata (pci k q))" "vm_pages k' = vm_pages k"
proof -
  obtain dv where dv: "devs k d = Some dv" using drv_invD(7) [OF inv bnd] by (auto simp: bound_to_def)
  then obtain dv' where "devs (detached (mlist k d) k) d = Some dv'" by (simp add: detached_def)
  then obtain k' where k': "remove_finish p d (detached (mlist k d) k) = Inr k'" "entries k' = entries (detached (mlist k d) k)"
    "vmas k' = vmas k" "vm_pages k' = vm_pages k" "coherent k' = coherent k" "files k' = files k"
    "devs k' = (devs (detached (mlist k d) k))(d := None)"
    "\<And>q. drvdata (pci k' q) = (if q = p then None else drvdata (pci k q))"
    by (rule remove_finish_outcome [where p = p]) auto
  have "genpci_remove p k = Inr k'" by (simp add: genpci_remove_def bnd detach_entries_eq [OF inv dv] k'(1))
  then show thesis using that k' by blast
qed

lemma drv_inv_remove:
  assumes inv: "drv_inv k" and bnd: "drvdata (pci k p) = Some d"
    and en: "entries k' = entries (detached (mlist k d) k)" and vm: "vmas k' = vmas k"
    and co: "coherent k' = coherent k" and dv: "devs k' = (devs (detached (mlist k d) k))(d := None)"
    and pg: "vm_pages k' = vm_pages k"
    and dd: "\<And>q. drvdata (pci k' q) = (if q = p then None else drvdata (pci k q))"
  shows "drv_inv k'"
proof (rule drv_invI)
  note inv' = drv_invD [OF inv]
  have S: "e \<in> mlist k d \<longleftrightarrow> own k e = Some d" for e using inv'(4) by simp
  have o: "buf k' = buf k" "dom (entries k') = dom (entries k)" "own k' e = (if e \<in> mlist k d then None else own k e)" for e
    by (auto simp: fun_eq_iff buf_def own_def en detached_def map_option_upd_id bind_upd_None dom_def)
  have w: "mlist k' d' = (if d' = d then {} else mlist k d' - mlist k d)" for d'
    by (auto simp: mlist_def [of k'] mlist_def [of k d'] dv detached_def split: option.splits)
  have b: "bound_to k' = (bound_to k)(d := None)"
    by (auto simp: fun_eq_iff bound_to_def dv detached_def map_option_upd_id)
  have r: "refs_of k' = refs_of k" by (rule view_cong(1) [OF vm])
  show "finite (dom (vmas k'))" using inv'(1) by (simp add: vm)
  show "ran (vmas k') \<subseteq> dom (entries k')" using inv'(2) by (simp add: vm o)
  show "entry_ok k' e x" if x: "entries k' e = Some x" for e x
  proof -
    from x obtain y where y: "entries k e = Some y"
      "x = y \<or> x = y\<lparr>listed := False, pgenpci_dev := None, release_requested := True\<rparr>"
      by (auto simp: en detached_def split: if_splits)
    show ?thesis using inv'(3) [OF y(1)] y(2) by (auto simp: entry_ok_def r co)
  qed
  show "own k' e = Some d' \<and> d' \<notin> {} \<longleftrightarrow> e \<in> mlist k' d'" for e d'
    using inv'(4) [of e d'] S [of e] by (auto simp: o w)
  show "dom (vm_pages k') = dom (vmas k')" using inv'(8) by (simp add: pg vm)
  show "devs k' d' = None" if "d' \<in> {}" for d' using that by simp
  show "dom (coherent k') \<subseteq> ran (buf k')" using inv'(5) by (simp add: o co)
  show "y = z" if "buf k' y = Some c" "buf k' z = Some c" for y z c using that inv'(6) by (simp add: o)
  show "bound_to k' d' = Some q" if "drvdata (pci k' q) = Some d'" for q d'
    using that inv'(7) [of q d'] inv'(7) [OF bnd] by (auto simp: dd b split: if_splits)
qed

section \<open>Binding a device\<close>

definition bound_state :: "probe_results \<Rightarrow> nat \<Rightarrow> nat \<Rightarrow> kernel \<Rightarrow> kernel" where
  "bound_state R p d k =
     (let i = word_of_int (ida_get R); dt = probe_devt R k in
      k\<lparr>genpci_instance_ida := insert i (genpci_instance_ida k),
        devs := (devs k)(d \<mapsto> \<lparr>pdev = p, devt = dt, dev_instance = i, is_open = False, memlist = []\<rparr>),
        pci := (pci k)(p := (pci k p)\<lparr>enable_cnt := 1, bus_master := True, regions := True,
                  dev_refs := dev_refs (pci k p) + 1, drvdata := Some d\<rparr>),
        cdevs := (cdevs k)(dt \<mapsto> (d, genpci_MINORS)), nodes := insert dt (nodes k)\<rparr>)"

text \<open>
  Every device registers the whole range of minors from its own on, so the range of the first device
  contains the number of the second.
\<close>

definition cdev_covers :: "kernel \<Rightarrow> u32 \<Rightarrow> nat \<Rightarrow> bool" where
  "cdev_covers k dev d \<longleftrightarrow> (\<exists>dt c. cdevs k dt = Some (d, c) \<and> dt \<le> dev \<and> unat dev < unat dt + unat c)"

lemma minor_ranges_overlap:
  assumes "genpci_chr_devt k = 0x0ff00000" and "ida_get R = 0" and "ida_get R' = 1"
  shows "cdev_covers (bound_state R' p' d' (bound_state R p d k)) (probe_devt R' k) d"
  unfolding cdev_covers_def
  by (rule exI [of _ "0x0ff00000"], rule exI [of _ genpci_MINORS])
    (simp add: assms bound_state_def probe_devt_def Let_def MKDEV_def MAJOR_def genpci_MINORS_def)

lemma unbound_update:
  "unbound v \<Longrightarrow> v\<lparr>enable_cnt := 0, bus_master := False\<rparr> = v"
  "unbound v \<Longrightarrow> v\<lparr>enable_cnt := 0, bus_master := False, regions := False, drvdata := None\<rparr> = v"
  by (cases v; simp add: unbound_def)+

lemma genpci_probe_outcome:
  assumes run: "genpci_probe R p k = (ret, k')" and fresh: "probe_fresh R p k"
  obtains (failed) "ret \<noteq> 0" "k' = k"
  | (ok) d where "ret = 0" "kzalloc_dev R = Some d" "devs k d = None" "k' = bound_state R p d k"
proof (cases "kzalloc_dev R")
  case None
  then show thesis using run failed by (simp add: genpci_probe_def)
next
  case (Some d)
  have u: "unbound (pci k p)" "devs k d = None" "word_of_int (ida_get R) \<notin> genpci_instance_ida k"
    "cdevs k (probe_devt R k) = None" "probe_devt R k \<notin> nodes k"
    using fresh Some by (simp_all add: probe_fresh_def)
  note defs = genpci_probe_def Let_def out_free_dev_def out_remove_ida_def out_disable_device_def out_clear_drvdata_def
    out_del_cdev_def upd_dev_def upd_pci_def put_device_def get_device_def pci_disable_device_def pci_enable_device_mem_def
    pci_set_drvdata_def pci_set_regions_def
  have z: "enable_cnt (pci k p) = 0" "\<not> bus_master (pci k p)" "\<not> regions (pci k p)" "drvdata (pci k p) = None"
    using u(1) by (simp_all add: unbound_def)
  have i: "insert (word_of_int (ida_get R)) (genpci_instance_ida k) - {word_of_int (ida_get R)} = genpci_instance_ida k"
    using u(3) by simp
  have c: "(cdevs k)(MKDEV (MAJOR (genpci_chr_devt k)) (word_of_int (ida_get R)) := None) = cdevs k"
    using u(4) by (simp add: probe_devt_def fun_upd_idem)
  consider "ida_get R < 0" | "\<not> ida_get R < 0" "enable_ret R \<noteq> 0" | "\<not> ida_get R < 0" "enable_ret R = 0" "mask_ret R \<noteq> 0"
    | "\<not> ida_get R < 0" "enable_ret R = 0" "mask_ret R = 0" "regions_ret R \<noteq> 0"
    | "\<not> ida_get R < 0" "enable_ret R = 0" "mask_ret R = 0" "regions_ret R = 0" "cdev_ret R \<noteq> 0"
    | "\<not> ida_get R < 0" "enable_ret R = 0" "mask_ret R = 0" "regions_ret R = 0" "cdev_ret R = 0" "create_err R"
    | "\<not> ida_get R < 0" "enable_ret R = 0" "mask_ret R = 0" "regions_ret R = 0" "cdev_ret R = 0" "\<not> create_err R"
    by blast
  then show thesis
  proof cases
    case 7
    then have "ret = 0" "k' = bound_state R p d k"
      using run Some z by (auto simp: defs bound_state_def probe_devt_def dev_zero_def)
    then show ?thesis using ok Some u(2) by blast
  qed (use run Some u z i c in \<open>auto simp: defs fun_upd_idem unbound_update intro!: failed\<close>)
qed

lemma drv_inv_bound:
  assumes inv: "drv_inv_on G k" and d: "devs k d = None" "d \<notin> G" and u: "unbound (pci k p)"
  shows "drv_inv_on G (bound_state R p d k)" (is "drv_inv_on G ?k")
proof (rule drv_invI)
  note inv' = drv_invD [OF inv]
  have f: "entries ?k = entries k" "vmas ?k = vmas k" "coherent ?k = coherent k" "vm_pages ?k = vm_pages k"
    by (simp_all add: bound_state_def Let_def)
  have v: "refs_of ?k = refs_of k" "buf ?k = buf k" "own ?k = own k" by (rule view_cong; simp add: f)+
  have m: "mlist ?k = mlist k" using d by (simp add: fun_eq_iff mlist_def bound_state_def Let_def)
  have b: "bound_to ?k = (bound_to k)(d \<mapsto> p)" by (simp add: fun_eq_iff bound_to_def bound_state_def Let_def)
  show "finite (dom (vmas ?k))" "ran (vmas ?k) \<subseteq> dom (entries ?k)" "dom (coherent ?k) \<subseteq> ran (buf ?k)"
    "dom (vm_pages ?k) = dom (vmas ?k)"
    using inv'(1,2,5,8) by (simp_all add: f v)
  show "devs ?k d' = None" if "d' \<in> G" for d' using inv'(9) [OF that] d that by (auto simp: bound_state_def Let_def)
  show "entry_ok ?k e x" if "entries ?k e = Some x" for e x
    using that inv'(3) [of e x] by (simp add: f v entry_ok_def)
  show "own ?k e = Some d' \<and> d' \<notin> G \<longleftrightarrow> e \<in> mlist ?k d'" for e d' using inv'(4) by (simp add: v m)
  show "y = z" if "buf ?k y = Some c" "buf ?k z = Some c" for y z c using that inv'(6) by (simp add: v)
  show "bound_to ?k d' = Some q" if "drvdata (pci ?k q) = Some d'" for q d'
  proof (cases "q = p")
    case True
    then have "d' = d" using that by (simp add: bound_state_def Let_def)
    then show ?thesis using True by (simp add: b)
  next
    case False
    then have "bound_to k d' = Some q" using that inv'(7) by (simp add: bound_state_def Let_def)
    then show ?thesis using d by (auto simp: b bound_to_def)
  qed
qed

section \<open>Every reachable state\<close>

inductive_cases kstep_cases: "kstep k k'"

lemma ioctl_state:
  assumes "genpci_ioctl copy_ok f cmd k = Inr (ret, out, k')"
  shows "k' = k \<or> (\<exists>e. k' = upd_entry e (\<lambda>x. x\<lparr>release_requested := True\<rparr>) k)"
proof -
  obtain d where d: "files k f = Some d" using assms by (auto simp: genpci_ioctl_def deref_Inr)
  show ?thesis
  proof (cases cmd)
    case IOCTL_GET_MEMFINFO
    obtain dv where "devs k d = Some dv" using assms d IOCTL_GET_MEMFINFO by (auto simp: genpci_ioctl_def deref_Inr)
    with assms d IOCTL_GET_MEMFINFO show ?thesis
      by (cases "scan_memlist (entries k) (\<lambda>x. \<not> release_requested x) (memlist dv)")
        (auto simp: genpci_ioctl_def deref_def split: option.splits if_splits)
  next
    case (IOCTL_RELEASE_MEM m)
    let ?P = "\<lambda>x. virt_addr x = kernel_virtaddr m \<and> entry_dma x = dma_addr m"
    show ?thesis
    proof (cases copy_ok)
      case True
      then obtain dv where "devs k d = Some dv" using assms d IOCTL_RELEASE_MEM by (auto simp: genpci_ioctl_def deref_Inr)
      with assms d IOCTL_RELEASE_MEM True show ?thesis
        by (cases "scan_memlist (entries k) ?P (memlist dv)")
          (auto simp: genpci_ioctl_def deref_def split: option.splits if_splits)
    qed (use assms d IOCTL_RELEASE_MEM in \<open>simp add: genpci_ioctl_def deref_def\<close>)
  qed (use assms d in \<open>auto simp: genpci_ioctl_def deref_Inr split: if_splits\<close>)
qed

lemma drv_inv_step:
  assumes "kstep k k'" and inv: "drv_inv k"
  shows "drv_inv k'"
  using assms(1)
proof cases
  case (step_open d f)
  then show ?thesis using inv by (auto simp: genpci_open_def deref_Inr)
next
  case (step_close f k1)
  then show ?thesis using inv by (auto simp: genpci_close_def deref_Inr)
next
  case (step_mmap R f v a b off ret)
  show ?thesis
    using mmap_dma_outcome [OF step_mmap(1,3)] drv_inv_mapped [OF inv _ _ _ step_mmap(2)] inv by metis
next
  case (step_ioctl copy_ok f cmd ret out)
  then show ?thesis using ioctl_state inv drv_inv_release by metis
next
  case (step_dup v e v')
  then show ?thesis using drv_inv_dup [OF inv] by blast
next
  case (step_unmap v k1)
  obtain e where e: "vmas k v = Some e"
    using step_unmap(2) by (cases "vmas k v") (auto simp: dma_vma_close_def close_read_def deref_def)
  obtain x where x: "entries k e = Some x" by (rule vma_entry [OF inv e])
  have k1: "k1 = after_close v e x k" using step_unmap(2) dma_vma_close_eq [OF inv e x] by simp
  then show ?thesis using drv_inv_unmap [OF inv e x] step_unmap(1) k1 by simp
next
  case (step_probe R p ret)
  then have "unbound (pci k p)" by (simp add: probe_fresh_def)
  with step_probe show ?thesis
    using genpci_probe_outcome [OF step_probe] drv_inv_bound [OF inv _ empty_iff [THEN iffD1, THEN notI]] inv by metis
next
  case (step_remove p)
  obtain d where d: "drvdata (pci k p) = Some d" using step_remove by (auto simp: genpci_remove_def split: option.splits)
  show ?thesis
    by (rule genpci_remove_outcome [OF inv d]) (use step_remove drv_inv_remove [OF inv d] in \<open>metis sum.inject(2)\<close>)
qed

lemma drv_inv_reachable: "reachable k \<Longrightarrow> drv_inv k"
proof (induction rule: reachable.induct)
  case (initial k)
  then show ?case
    by (intro drv_invI) (auto simp: kernel_initial_def unbound_def own_def mlist_def buf_def)
next
  case (step k k')
  then show ?case using drv_inv_step by blast
qed

section \<open>Properties\<close>

lemma count_map_1:
  assumes "m v = Some e" and "finite (dom m)"
  shows "count_map m e = 1 \<longleftrightarrow> (\<forall>v'. v' \<noteq> v \<longrightarrow> m v' \<noteq> Some e)"
proof -
  have pos: "0 < count_map m e" by (rule count_map_pos [OF assms])
  have del: "count_map (m(v := None)) e = count_map m e - 1" using count_map_delete [OF assms, of e] by simp
  have "count_map (m(v := None)) e = 0 \<longleftrightarrow> (\<forall>v'. (m(v := None)) v' \<noteq> Some e)"
    using finite_preimage [of "m(v := None)" e] assms(2) by (auto simp: count_map_def card_eq_0_iff split: if_splits)
  with pos del show ?thesis by (auto split: if_splits)
qed

lemma last_close_frees:
  assumes inv: "drv_inv_on G k" and v: "vmas k v = Some e" and x: "entries k e = Some x"
  shows "coherent (after_close v e x k) (virt_addr x) = None \<longleftrightarrow> (\<forall>v'. v' \<noteq> v \<longrightarrow> vmas k v' \<noteq> Some e)"
proof -
  have ok: "coherent k (virt_addr x) \<noteq> None" "vma_refs x = count_map (vmas k) e"
    using drv_invD(3) [OF inv x] by (simp_all add: entry_ok_def refs_of_def)
  have "coherent (after_close v e x k) (virt_addr x) = None \<longleftrightarrow> vma_refs x = 1"
    using after_close_last(2) [OF inv x] ok(1) by (cases "vma_refs x = 1") (simp_all add: after_close_def)
  then show ?thesis using count_map_1 [of "vmas k", OF v drv_invD(1) [OF inv]] ok(2) by simp
qed

text \<open>
  A close that is not interleaved with other callbacks never faults: its entry is allocated, its count
  positive and the device that it locks is there. \<open>Driver_Race\<close> has what happens otherwise.
\<close>

lemma unmap_alone_is_safe:
  assumes "reachable k" and "vmas k v = Some e"
  shows "\<exists>x k'. entries k e = Some x \<and> dma_vma_close v k = Inr k'
    \<and> (coherent k' (virt_addr x) = None \<longleftrightarrow> (\<forall>v'. v' \<noteq> v \<longrightarrow> vmas k v' \<noteq> Some e))"
proof -
  note inv = drv_inv_reachable [OF assms(1)]
  obtain x where x: "entries k e = Some x" by (rule vma_entry [OF inv assms(2)])
  then show ?thesis
    using dma_vma_close_eq [OF inv assms(2) x] last_close_frees [OF inv assms(2) x] by auto
qed

text \<open>
  C18: In every reachable state the coherent DMA buffers that are allocated are exactly those that some
  mapping still uses: none leaks, and none has been freed while a mapping of it exists.
\<close>

theorem live_buffers_are_mapped:
  assumes "reachable k"
  shows "coherent k va \<noteq> None \<longleftrightarrow> (\<exists>v e x. vmas k v = Some e \<and> entries k e = Some x \<and> virt_addr x = va)"
proof
  note inv = drv_inv_reachable [OF assms]
  assume "coherent k va \<noteq> None"
  then obtain e where "buf k e = Some va" using drv_invD(5) [OF inv] by (auto simp: ran_def dom_def)
  then obtain x where x: "entries k e = Some x" "virt_addr x = va" by (auto simp: buf_def)
  have "0 < count_map (vmas k) e" using drv_invD(3) [OF inv x(1)] by (simp add: entry_ok_def refs_of_def)
  then obtain v where "vmas k v = Some e" by (auto simp: count_map_def card_gt_0_iff)
  with x show "\<exists>v e x. vmas k v = Some e \<and> entries k e = Some x \<and> virt_addr x = va" by blast
next
  assume "\<exists>v e x. vmas k v = Some e \<and> entries k e = Some x \<and> virt_addr x = va"
  then show "coherent k va \<noteq> None"
    using drv_invD(3) [OF drv_inv_reachable [OF assms]] by (auto simp: entry_ok_def)
qed

text \<open>
  C19: \<^verbatim>\<open>IOCTL_GET_MEMFINFO\<close> describes the buffer mapped last on the device, through whichever open file.
  So a thread that maps a buffer and asks for its address gets the address of another thread's buffer
  when that thread's \<^verbatim>\<open>mmap\<close> comes between the two calls. The mapping shows this buffer if its offset is zero;
  with another offset it shows the page frames at that distance from the bus address of the buffer instead.
\<close>

theorem meminfo_describes_last_mapping:
  assumes "files k f = Some d" and "files k g = Some d" and "mmap_fresh R k" and "mmap_dma R f v a b off k = Inr (0, k')"
  shows "\<exists>va da. alloc_coherent R = Some (va, da)
    \<and> vm_pages k' v = Some (if off = 0 then Maps_Buffer va (page_align (b - a))
        else Maps_Frames (PFN_DOWN da + off) (page_align (b - a)))
    \<and> genpci_ioctl True g IOCTL_GET_MEMFINFO k' =
        Inr (0, Out_Mem (mem_zero\<lparr>dma_addr := da, kernel_virtaddr := va, mem_size := page_align (b - a)\<rparr>), k')"
proof (cases rule: mmap_dma_outcome [OF assms(4,3)])
  case (2 d' dv e va da)
  have "d' = d" using 2(2) assms(1) by simp
  then show ?thesis
    using 2 assms(2)
    by (simp add: genpci_ioctl_def deref_def mapped_simps mem_of_entry_def new_entry_def map_pages_def)
qed simp

text \<open>
  C20: \<^verbatim>\<open>genpci_probe\<close> undoes everything when any of its steps fails, so that the kernel state is as
  before, and after a successful probe \<^verbatim>\<open>genpci_remove\<close> gives back everything that it acquired.
\<close>

theorem probe_undone:
  assumes "probe_fresh R p k" and "genpci_probe R p k = (ret, k')"
  shows "if ret = 0 then genpci_remove p k' = Inr k else k' = k"
proof (cases rule: genpci_probe_outcome [OF assms(2,1)])
  case (2 d)
  have u: "unbound (pci k p)" "word_of_int (ida_get R) \<notin> genpci_instance_ida k" "cdevs k (probe_devt R k) = None"
    "probe_devt R k \<notin> nodes k"
    using assms(1) by (simp_all add: probe_fresh_def)
  have p: "(pci k p)\<lparr>drvdata := None, regions := False, enable_cnt := 0, bus_master := False\<rparr> = pci k p"
    using u(1) by (cases "pci k p") (simp add: unbound_def)
  have i: "insert j S - {j} = S" if "j \<notin> S" for j and S :: "u32 set" using that by simp
  have "genpci_remove p k' = Inr k"
    using 2(3) u p
    by (simp add: 2(4) bound_state_def Let_def genpci_remove_def remove_finish_def genpci_detach_dma_entries_def deref_def put_device_def
        pci_disable_device_def pci_set_regions_def pci_set_drvdata_def upd_pci_def fun_upd_idem i)
  with 2(1) show ?thesis by simp
qed simp

text \<open>
  C21: Unbinding a device keeps every mapping and every mapped buffer, but it frees the device structure
  while open files still point to it: any later \<^verbatim>\<open>close\<close> or \<^verbatim>\<open>ioctl\<close> on such a file uses freed memory.
\<close>

theorem remove_with_open_file:
  assumes "reachable k" and "drvdata (pci k p) = Some d" and "files k f = Some d"
  shows "\<exists>k'. genpci_remove p k = Inr k' \<and> coherent k' = coherent k \<and> vmas k' = vmas k
    \<and> genpci_close f k' = Inl Use_After_Free \<and> genpci_ioctl c f IOCTL_GET_BDF k' = Inl Use_After_Free"
proof -
  obtain k' where k': "genpci_remove p k = Inr k'" "vmas k' = vmas k" "coherent k' = coherent k" "files k' = files k"
    "devs k' = (devs (detached (mlist k d) k))(d := None)"
    by (rule genpci_remove_outcome [OF drv_inv_reachable [OF assms(1)] assms(2)])
  then show ?thesis using assms(3) by (simp add: genpci_close_def genpci_ioctl_def deref_def)
qed


section \<open>A session\<close>

text \<open>Bind function 0, open it twice and map a buffer.\<close>

definition load_state :: kernel where
  "load_state =
     \<lparr>entries = Map.empty, devs = Map.empty, files = Map.empty, vmas = Map.empty, vm_pages = Map.empty, coherent = Map.empty,
      pci = (\<lambda>_. \<lparr>domain_nr = 0, bus_number = 1, devfn = 0, enable_cnt = 0, bus_master = False, regions = False,
                 drvdata = None, dev_refs = 1\<rparr>),
      genpci_instance_ida = {}, cdevs = Map.empty, nodes = {}, genpci_chr_devt = 0x0ff00000\<rparr>"

definition probe_ok :: probe_results where
  "probe_ok = \<lparr>kzalloc_dev = Some 100, ida_get = 0, enable_ret = 0, mask_ret = 0, regions_ret = 0, cdev_ret = 0,
     create_err = False\<rparr>"

definition mmap_ok :: "nat \<Rightarrow> u64 \<Rightarrow> u64 \<Rightarrow> mmap_results" where
  "mmap_ok e va da = \<lparr>kzalloc_entry = Some e, alloc_coherent = Some (va, da), remap_ret = 0\<rparr>"

definition bound_session :: kernel where
  "bound_session = bound_state probe_ok 0 100 load_state"

definition open_session :: kernel where
  "open_session = upd_dev 100 (\<lambda>x. x\<lparr>is_open := True\<rparr>) (bound_session\<lparr>files := [3 \<mapsto> 100, 4 \<mapsto> 100]\<rparr>)"

definition map_session :: kernel where
  "map_session = mapped 100 0 200 0x10000 0xffff1000 0x70001000 0x2000 0 open_session"

lemma probe_fresh_session: "probe_fresh probe_ok 0 load_state"
  by (simp add: probe_fresh_def probe_ok_def load_state_def unbound_def)

lemma probe_session: "genpci_probe probe_ok 0 load_state = (0, bound_session)"
  by (simp add: genpci_probe_def probe_ok_def bound_session_def bound_state_def Let_def load_state_def probe_devt_def
      upd_dev_def upd_pci_def get_device_def pci_enable_device_mem_def pci_set_regions_def pci_set_drvdata_def dev_zero_def)

lemma reachable_bound: "reachable bound_session"
proof (rule reachable.step [OF reachable.initial])
  show "kernel_initial load_state" by (simp add: kernel_initial_def load_state_def unbound_def)
  show "kstep load_state bound_session" by (rule step_probe [OF probe_session probe_fresh_session])
qed

lemma bound_session_fields:
  "devs bound_session 100 = Some \<lparr>pdev = 0, devt = 0x0ff00000, dev_instance = 0, is_open = False, memlist = []\<rparr>"
  "files bound_session = Map.empty" "entries bound_session = Map.empty" "vmas bound_session = Map.empty"
  "coherent bound_session = Map.empty" "vm_pages bound_session = Map.empty" "drvdata (pci bound_session 0) = Some 100"
  by (simp_all add: bound_session_def bound_state_def Let_def load_state_def probe_devt_def probe_ok_def MKDEV_def MAJOR_def)

lemma reachable_open: "reachable open_session"
proof -
  define k1 where "k1 = upd_dev 100 (\<lambda>x. x\<lparr>is_open := True\<rparr>) (bound_session\<lparr>files := [3 \<mapsto> 100]\<rparr>)"
  have "genpci_open 100 3 bound_session = Inr (0, k1)"
    by (simp add: genpci_open_def deref_def bound_session_fields k1_def Let_def)
  then have r1: "reachable k1"
    using reachable.step [OF reachable_bound step_open] by (simp add: bound_session_fields)
  have "genpci_open 100 4 k1 = Inr (0, open_session)"
    by (simp add: genpci_open_def deref_def k1_def open_session_def upd_dev_def bound_session_fields Let_def fun_upd_twist)
  then show ?thesis
    using reachable.step [OF r1 step_open] by (simp add: k1_def)
qed

lemma mmap_session: "mmap_dma (mmap_ok 200 0xffff1000 0x70001000) 3 0x10000 0x10000 0x12000 0 open_session = Inr (0, map_session)"
  by (simp add: mmap_dma_def deref_def open_session_def upd_dev_def bound_session_fields mmap_ok_def Let_def map_session_def
      mapped_def page_align_def get_device_def upd_pci_def)

lemma mmap_fresh_session: "mmap_fresh (mmap_ok 200 0xffff1000 0x70001000) open_session"
  by (simp add: mmap_fresh_def mmap_ok_def open_session_def bound_session_fields)

lemma reachable_map: "reachable map_session"
proof (rule reachable.step [OF reachable_open step_mmap [OF mmap_session _ mmap_fresh_session]])
  show "vmas open_session 0x10000 = None" by (simp add: open_session_def bound_session_fields)
qed

lemma map_session_fields: "vmas map_session 0x10000 = Some 200" "files map_session = [3 \<mapsto> 100, 4 \<mapsto> 100]"
  "drvdata (pci map_session 0) = Some 100" "files open_session = [3 \<mapsto> 100, 4 \<mapsto> 100]"
  by (simp_all add: map_session_def mapped_simps open_session_def bound_session_fields)

theorem live_buffers_are_mapped_witness: "coherent map_session 0xffff1000 \<noteq> None \<and> coherent map_session 0 = None"
  using live_buffers_are_mapped [OF reachable_map, of "0xffff1000"] live_buffers_are_mapped [OF reachable_map, of 0]
  by (auto simp: map_session_def mapped_simps open_session_def bound_session_fields new_entry_def)

theorem meminfo_describes_last_mapping_witness:
  "genpci_ioctl True 4 IOCTL_GET_MEMFINFO map_session =
     Inr (0, Out_Mem (mem_zero\<lparr>dma_addr := 0x70001000, kernel_virtaddr := 0xffff1000, mem_size := 0x2000\<rparr>), map_session)"
proof -
  have "files open_session 3 = Some 100" "files open_session 4 = Some 100" by (simp_all add: map_session_fields)
  from meminfo_describes_last_mapping [OF this mmap_fresh_session mmap_session] show ?thesis
    by (simp add: mmap_ok_def page_align_def)
qed

theorem probe_undone_witness: "genpci_remove 0 bound_session = Inr load_state"
  using probe_undone [OF probe_fresh_session probe_session] by simp

theorem remove_with_open_file_witness: "\<exists>k'. genpci_remove 0 map_session = Inr k' \<and> genpci_close 3 k' = Inl Use_After_Free"
  using remove_with_open_file [OF reachable_map map_session_fields(3), of 3] by (auto simp: map_session_fields)


end
