(* ===== verification/C_Format.thy ===== *)
theory C_Format
  imports Prelude
begin

text \<open>
  The two conversions of \<^verbatim>\<open>printf\<close>'s format language that the sources use to build path names,
  \<^verbatim>\<open>%02x\<close> and \<^verbatim>\<open>%u\<close>, and their injectivity. They are the part of the C library behind the sysfs
  paths of \<^verbatim>\<open>ctrl_access.c\<close> and \<^verbatim>\<open>pci_access.c\<close>.
\<close>

definition hex_digit :: "nat \<Rightarrow> char" where
  "hex_digit d = (if d < 10 then char_of (48 + d) else char_of (87 + d))"

fun fmt_base :: "nat \<Rightarrow> nat \<Rightarrow> string" where
  "fmt_base b n = (if n < b \<or> b < 2 then [hex_digit n] else fmt_base b (n div b) @ [hex_digit (n mod b)])"

declare fmt_base.simps [simp del]

definition fmt_u :: "nat \<Rightarrow> string" where
  "fmt_u n = fmt_base 10 n"

definition fmt_02x :: "u8 \<Rightarrow> string" where
  "fmt_02x v = [hex_digit (unat v div 16), hex_digit (unat v mod 16)]"

text \<open>Reading a digit back, for either base.\<close>

definition digit_val :: "char \<Rightarrow> nat option" where
  "digit_val c =
     (let n = of_char c :: nat in
      if 48 \<le> n \<and> n \<le> 57 then Some (n - 48)
      else if 97 \<le> n \<and> n \<le> 122 then Some (n - 87)
      else if 65 \<le> n \<and> n \<le> 90 then Some (n - 55)
      else None)"

lemma of_char_hex_digit: "d < 16 \<Longrightarrow> (of_char (hex_digit d) :: nat) = (if d < 10 then 48 + d else 87 + d)"
  by (simp add: hex_digit_def take_bit_nat_eq_self)

lemma digit_val_hex_digit [simp]: "d < 16 \<Longrightarrow> digit_val (hex_digit d) = Some d"
  by (simp add: digit_val_def of_char_hex_digit)

lemma hex_digit_inject: "d < 16 \<Longrightarrow> e < 16 \<Longrightarrow> hex_digit d = hex_digit e \<longleftrightarrow> d = e"
  using digit_val_hex_digit by (metis option.inject)

lemma length_fmt_02x [simp]: "length (fmt_02x v) = 2"
  by (simp add: fmt_02x_def)

lemma fmt_02x_inject: "fmt_02x v = fmt_02x w \<longleftrightarrow> v = w"
proof
  assume "fmt_02x v = fmt_02x w"
  moreover have "unat v < 256" "unat w < 256"
    using unsigned_less [of v] unsigned_less [of w] by simp_all
  ultimately have "unat v div 16 = unat w div 16" "unat v mod 16 = unat w mod 16"
    by (auto simp: fmt_02x_def hex_digit_inject)
  then have "unat v = unat w" by (metis div_mult_mod_eq)
  then show "v = w" by (simp add: word_unat_eq_iff)
qed simp

lemma fmt_base_small: "n < b \<Longrightarrow> fmt_base b n = [hex_digit n]"
  by (simp add: fmt_base.simps)

lemma fmt_base_nonempty: "fmt_base b n \<noteq> []"
  by (subst fmt_base.simps) simp

lemma fmt_base_digits:
  assumes "2 \<le> b" and "b \<le> 16"
  shows "list_all (\<lambda>c. \<exists>d < b. c = hex_digit d) (fmt_base b n)"
  using assms
proof (induction b n rule: fmt_base.induct)
  case (1 b n)
  have "\<exists>d < b. hex_digit (n mod b) = hex_digit d"
    using "1.prems" by (intro exI [of _ "n mod b"]) simp
  with 1 show ?case by (subst fmt_base.simps) (auto simp: not_less)
qed

end
