(* ===== verification/Ctrl_Access.thy ===== *)
theory Ctrl_Access
  imports World C_Format
begin

text \<open>
  \<^verbatim>\<open>tools/lib/ctrl_access.c\<close>: mapping BAR0 of a PCI function through sysfs and the checked 32-bit
  register accessors. An out-parameter \<^verbatim>\<open>uint32_t *value\<close> is part of the result; callers always pass
  the address of a local variable, so the \<^verbatim>\<open>value == NULL\<close> test of the read never fires and has no
  counterpart. A read that fails leaves the local unassigned, which is the value \<open>None\<close>.
\<close>

unbundle bit_operations_syntax

section \<open>Operations\<close>

definition pci_bdf_is_valid :: "u8 \<Rightarrow> u8 \<Rightarrow> bool" where
  "pci_bdf_is_valid dev func \<longleftrightarrow> dev < 32 \<and> func < 8"

definition pci_sysfs_bar0_path :: "u8 \<Rightarrow> u8 \<Rightarrow> u8 \<Rightarrow> string" where
  "pci_sysfs_bar0_path bus dev func =
     ''/sys/bus/pci/devices/0000:'' @ fmt_02x bus @ '':'' @ fmt_02x dev @ ''.'' @ fmt_u (unat func)
       @ ''/resource0''"

definition open_pci_bar0 :: "'s env \<Rightarrow> u8 \<Rightarrow> u8 \<Rightarrow> u8 \<Rightarrow> 's world \<Rightarrow> int \<times> 's world" where
  "open_pci_bar0 E bus dev func w =
     (if \<not> pci_bdf_is_valid dev func then (-1, w\<lparr>errno := EINVAL\<rparr>)
      else let path = pci_sysfs_bar0_path bus dev func in
        if length path \<ge> 128 then (-1, w\<lparr>errno := ENAMETOOLONG\<rparr>)
        else c_open E path [O_RDWR, O_SYNC] w)"

definition controller_bar0_map ::
  "'s env \<Rightarrow> u8 \<Rightarrow> u8 \<Rightarrow> u8 \<Rightarrow> u64 \<Rightarrow> 's world \<Rightarrow> u64 \<times> 's world" where
  "controller_bar0_map E bus dev func sz w =
     (if sz = 0 then (NULL, w\<lparr>errno := EINVAL\<rparr>)
      else case open_pci_bar0 E bus dev func w of (fd, w) \<Rightarrow>
        if fd < 0 then (NULL, w)
        else case c_mmap E fd sz w of (virt_addr, w) \<Rightarrow>
          if virt_addr = MAP_FAILED then
            (let saved_errno = errno w in
             case c_close E fd w of (_, w) \<Rightarrow> (NULL, w\<lparr>errno := saved_errno\<rparr>))
          else case c_close E fd w of (_, w) \<Rightarrow> (virt_addr, w))"

definition controller_bar0_unmap :: "'s env \<Rightarrow> u64 \<Rightarrow> u64 \<Rightarrow> 's world \<Rightarrow> int \<times> 's world" where
  "controller_bar0_unmap E bar0 sz w =
     (if bar0 = NULL \<or> sz = 0 then (-1, w\<lparr>errno := EINVAL\<rparr>)
      else case c_munmap E bar0 sz w of (r, w) \<Rightarrow> if r < 0 then (-1, w) else (0, w))"

definition controller_reg_read32 ::
  "'s env \<Rightarrow> u64 \<Rightarrow> u32 \<Rightarrow> 's world \<Rightarrow> u32 option \<times> 's world" where
  "controller_reg_read32 E bar0 offset w =
     (if bar0 = NULL \<or> offset AND 3 \<noteq> 0 then (None, w\<lparr>errno := EINVAL\<rparr>)
      else case mmio_read32 E (bar0 + ucast offset) w of (v, w) \<Rightarrow> (Some v, w))"

definition controller_reg_write32 ::
  "'s env \<Rightarrow> u64 \<Rightarrow> u32 \<Rightarrow> u32 \<Rightarrow> 's world \<Rightarrow> int \<times> 's world" where
  "controller_reg_write32 E bar0 offset val w =
     (if bar0 = NULL \<or> offset AND 3 \<noteq> 0 then (-1, w\<lparr>errno := EINVAL\<rparr>)
      else (0, mmio_write32 E (bar0 + ucast offset) val w))"

section \<open>The sysfs path\<close>

lemma fmt_u_func:
  assumes "func < 8"
  shows "fmt_u (unat func) = [hex_digit (unat func)]" and "unat (func :: u8) < 8"
proof -
  show "unat func < 8" using assms by (simp add: word_less_nat_alt)
  then show "fmt_u (unat func) = [hex_digit (unat func)]"
    by (simp add: fmt_u_def fmt_base_small)
qed

lemma length_bar0_path:
  "pci_bdf_is_valid dev func \<Longrightarrow> length (pci_sysfs_bar0_path bus dev func) = 43"
  by (simp add: pci_sysfs_bar0_path_def pci_bdf_is_valid_def fmt_u_func)

lemma open_pci_bar0_valid:
  "pci_bdf_is_valid dev func \<Longrightarrow>
     open_pci_bar0 E bus dev func w = c_open E (pci_sysfs_bar0_path bus dev func) [O_RDWR, O_SYNC] w"
  by (simp add: open_pci_bar0_def length_bar0_path Let_def)

lemma trace_open_pci_bar0 [trace_simps]:
  "open_pci_bar0 E bus dev func w = (fd, w') \<Longrightarrow>
     trace w' = trace w @ (if fd < 0 then [] else [Ev_Open fd])"
  by (auto simp: open_pci_bar0_def Let_def dest: trace_c_open split: if_splits)

lemma bar0_path_inject:
  assumes "pci_bdf_is_valid dev func" and "pci_bdf_is_valid dev' func'"
    and "pci_sysfs_bar0_path bus dev func = pci_sysfs_bar0_path bus' dev' func'"
  shows "bus = bus' \<and> dev = dev' \<and> func = func'"
proof -
  have f: "func < 8" "func' < 8" using assms(1,2) by (simp_all add: pci_bdf_is_valid_def)
  from assms(3) have "fmt_02x bus = fmt_02x bus'" "fmt_02x dev = fmt_02x dev'"
    and "hex_digit (unat func) = hex_digit (unat func')"
    by (simp_all add: pci_sysfs_bar0_path_def fmt_u_func f fmt_02x_def)
  then show ?thesis
    using fmt_u_func(2) [OF f(1)] fmt_u_func(2) [OF f(2)] 
    by (simp add: fmt_02x_inject hex_digit_inject word_unat_eq_iff [of func])
qed

section \<open>Register accesses\<close>

lemma controller_reg_read32_ok:
  "bar0 \<noteq> NULL \<Longrightarrow> offset AND 3 = 0 \<Longrightarrow>
     controller_reg_read32 E bar0 offset w = (case mmio_read32 E (bar0 + ucast offset) w of (v, w) \<Rightarrow> (Some v, w))"
  by (simp add: controller_reg_read32_def)

lemma controller_reg_write32_ok:
  "bar0 \<noteq> NULL \<Longrightarrow> offset AND 3 = 0 \<Longrightarrow>
     controller_reg_write32 E bar0 offset v w = (0, mmio_write32 E (bar0 + ucast offset) v w)"
  by (simp add: controller_reg_write32_def)

lemma trace_controller_reg_read32 [trace_simps]:
  "controller_reg_read32 E bar0 offset w = (v, w') \<Longrightarrow> trace w' = trace w"
  by (auto simp: controller_reg_read32_def dest: trace_mmio_read32 split: if_splits prod.splits)

lemma trace_controller_bar0_unmap [trace_simps]:
  "controller_bar0_unmap E bar0 sz w = (r, w') \<Longrightarrow>
     trace w' = trace w @ (if bar0 = NULL \<or> sz = 0 then [] else [Ev_Munmap bar0 sz])"
  by (auto simp: controller_bar0_unmap_def dest: trace_c_munmap split: if_splits prod.splits)

end
