(* ===== verification/Dma_Api.thy ===== *)
theory Dma_Api
  imports World C_Format
begin

text \<open>
  \<^verbatim>\<open>tools/lib/driver/api/dma.c\<close>: finding the \<^verbatim>\<open>/dev/genpci*\<close> node of a PCI function, allocating a DMA
  buffer by mapping that node and asking the driver for its addresses, and releasing it. The
  directory stream is the list of names that \<open>sys_opendir\<close> returns.
\<close>

unbundle bit_operations_syntax

section \<open>Operations\<close>

definition PATH_MAX :: nat where
  "PATH_MAX = 4096"

definition is_genpci_name :: "string \<Rightarrow> bool" where
  "is_genpci_name name \<longleftrightarrow> take 6 name = ''genpci''"

definition bdf_matches :: "bdf \<Rightarrow> int \<Rightarrow> int \<Rightarrow> int \<Rightarrow> int \<Rightarrow> bool" where
  "bdf_matches b domain bus dev func \<longleftrightarrow>
     bdf_domain b = domain \<and> uint (bdf_bus b) = bus \<and> uint (bdf_dev b) = dev \<and> uint (bdf_func b) = func"

text \<open>The \<^verbatim>\<open>readdir\<close> loop, with the local variable \<^verbatim>\<open>saved_errno\<close> as an argument.\<close>

fun dma_open_scan ::
  "'s env \<Rightarrow> int \<Rightarrow> int \<Rightarrow> int \<Rightarrow> int \<Rightarrow> string list \<Rightarrow> int \<Rightarrow> 's world \<Rightarrow> int \<times> 's world" where
  "dma_open_scan E domain bus dev func [] saved_errno w = (-1, w\<lparr>errno := saved_errno\<rparr>)"
| "dma_open_scan E domain bus dev func (d # ds) saved_errno w =
     (if \<not> is_genpci_name d then dma_open_scan E domain bus dev func ds saved_errno w
      else let path = ''/dev'' @ ''/'' @ d in
        if length path \<ge> PATH_MAX then dma_open_scan E domain bus dev func ds ENAMETOOLONG w
        else case c_open E path [O_RDWR] w of (fd, w) \<Rightarrow>
          if fd < 0 then dma_open_scan E domain bus dev func ds (errno w) w
          else case c_ioctl_get_bdf E fd bdf_zero w of (r, b, w) \<Rightarrow>
            if r = 0 \<and> bdf_matches b domain bus dev func then (fd, w)
            else
              let saved_errno = (if errno w \<noteq> 0 then errno w else saved_errno) in
              case c_close E fd w of (_, w) \<Rightarrow> dma_open_scan E domain bus dev func ds saved_errno w)"

definition dma_open_domain :: "'s env \<Rightarrow> int \<Rightarrow> int \<Rightarrow> int \<Rightarrow> int \<Rightarrow> 's world \<Rightarrow> int \<times> 's world" where
  "dma_open_domain E domain bus dev func w =
     (case hw_act (sys_opendir E ''/dev'') w of
        (Inl e, w) \<Rightarrow> (-1, w\<lparr>errno := e\<rparr>)
      | (Inr names, w) \<Rightarrow> dma_open_scan E domain bus dev func names ENOENT w)"

definition dma_open :: "'s env \<Rightarrow> int \<Rightarrow> int \<Rightarrow> int \<Rightarrow> 's world \<Rightarrow> int \<times> 's world" where
  "dma_open E bus dev func w = dma_open_domain E 0 bus dev func w"

definition alloc_dma :: "'s env \<Rightarrow> int \<Rightarrow> u64 \<Rightarrow> 's world \<Rightarrow> mem \<times> 's world" where
  "alloc_dma E fd len w =
     (if len = 0 then (mem_zero, w\<lparr>errno := EINVAL\<rparr>)
      else case c_mmap E fd len w of (virt, w) \<Rightarrow>
        if virt = MAP_FAILED then (mem_zero, w)
        else case c_ioctl_get_meminfo E fd mem_zero w of (r, m, w) \<Rightarrow>
          if r < 0 then
            (let saved_errno = errno w in
             case c_munmap E virt len w of (_, w) \<Rightarrow> (mem_zero, w\<lparr>errno := saved_errno\<rparr>))
          else (m\<lparr>mem_fd := fd, user_virtaddr := virt\<rparr>, w))"

definition free_dma :: "'s env \<Rightarrow> mem \<Rightarrow> 's world \<Rightarrow> mem \<times> 's world" where
  "free_dma E m w =
     (if user_virtaddr m = NULL \<or> sint (mem_size m) \<le> 0 then (m, w)
      else case c_ioctl_release_mem E (mem_fd m) m w of (_, w) \<Rightarrow>
        case c_munmap E (user_virtaddr m) (mem_size m) w of (_, w) \<Rightarrow> (mem_zero, w))"

section \<open>A buffer that is allocated\<close>

definition mem_valid :: "mem \<Rightarrow> bool" where
  "mem_valid m \<longleftrightarrow> user_virtaddr m \<noteq> NULL \<and> 0 < sint (mem_size m)"

lemma mem_zero_not_valid [simp]: "\<not> mem_valid mem_zero"
  by (simp add: mem_valid_def mem_zero_def)

lemma free_dma_invalid: "\<not> mem_valid m \<Longrightarrow> free_dma E m w = (m, w)"
  by (auto simp: free_dma_def mem_valid_def)

lemma free_dma_result: "fst (free_dma E m w) = (if mem_valid m then mem_zero else m)"
  by (auto simp: free_dma_def mem_valid_def split: prod.splits)

lemma free_dma_not_valid: "\<not> mem_valid (fst (free_dma E m w))"
  by (simp add: free_dma_result)

lemma trace_free_dma:
  "free_dma E m w = (m', w') \<Longrightarrow>
     trace w' = trace w @
       (if mem_valid m then [Ev_Release m, Ev_Munmap (user_virtaddr m) (mem_size m)] else [])"
  by (auto simp: free_dma_def mem_valid_def
      dest!: trace_c_ioctl_release_mem trace_c_munmap split: if_splits prod.splits)

lemma free_dma_twice:
  "free_dma E m w = (m1, w1) \<Longrightarrow> free_dma E m1 w1 = (m1, w1)"
  using free_dma_not_valid [of E m w] by (simp add: free_dma_invalid)

text \<open>An allocation either hands out a mapping of its own or leaves no mapping behind.\<close>

lemma alloc_dma_cases:
  assumes "alloc_dma E fd len w = (m, w')"
  obtains (ok) v where "v \<noteq> MAP_FAILED" "len \<noteq> 0" "mem_fd m = fd" "user_virtaddr m = v"
      "trace w' = trace w @ [Ev_Mmap fd v len]"
  | (none) "m = mem_zero" "trace w' = trace w"
  | (undone) v where "m = mem_zero" "trace w' = trace w @ [Ev_Mmap fd v len, Ev_Munmap v len]"
  using assms
  by (auto simp: alloc_dma_def mem_zero_def
      dest!: trace_c_mmap trace_c_ioctl_get_meminfo trace_c_munmap split: if_splits prod.splits)

end
