(* ===== verification/Resource.thy ===== *)
theory Resource
  imports Ctrl_Access Dma_Api
begin

text \<open>
  Which file descriptors and mappings a trace leaves open: the balance of opens against closes and of
  maps against unmaps. The code paths of \<^verbatim>\<open>tools/\<close> are judged by what they add to these balances. The
  locale \<open>dma_service\<close> is the contract that the user-space code relies on from the kernel side; the
  theory \<open>Driver_Env\<close> interprets it on the model of the \<^verbatim>\<open>genpci\<close> driver.
\<close>

section \<open>Balances\<close>

fun fd_delta :: "int \<Rightarrow> event \<Rightarrow> int" where
  "fd_delta x (Ev_Open fd) = (if fd = x then 1 else 0)"
| "fd_delta x (Ev_Close fd) = (if fd = x then -1 else 0)"
| "fd_delta x _ = 0"

fun map_delta :: "u64 \<times> u64 \<Rightarrow> event \<Rightarrow> int" where
  "map_delta y (Ev_Mmap fd a len) = (if (a, len) = y then 1 else 0)"
| "map_delta y (Ev_Munmap a len) = (if (a, len) = y then -1 else 0)"
| "map_delta y _ = 0"

definition fd_balance :: "'s world \<Rightarrow> int \<Rightarrow> int" where
  "fd_balance w x = (\<Sum>e \<leftarrow> trace w. fd_delta x e)"

definition map_balance :: "'s world \<Rightarrow> u64 \<times> u64 \<Rightarrow> int" where
  "map_balance w y = (\<Sum>e \<leftarrow> trace w. map_delta y e)"

lemmas balance_defs = fd_balance_def map_balance_def

lemma balance_update [simp]:
  "fd_balance (w\<lparr>errno := e\<rparr>) = fd_balance w" "map_balance (w\<lparr>errno := e\<rparr>) = map_balance w"
  "fd_balance (w\<lparr>ram := r\<rparr>) = fd_balance w" "map_balance (w\<lparr>ram := r\<rparr>) = map_balance w"
  by (simp_all add: fun_eq_iff balance_defs)

text \<open>What one DMA buffer, and one descriptor, contribute.\<close>

definition mem_maps :: "mem \<Rightarrow> u64 \<times> u64 \<Rightarrow> int" where
  "mem_maps m y = (if mem_valid m \<and> y = (user_virtaddr m, mem_size m) then 1 else 0)"

definition one_fd :: "int \<Rightarrow> int \<Rightarrow> int" where
  "one_fd fd x = (if x = fd then 1 else 0)"

lemma mem_maps_invalid [simp]: "\<not> mem_valid m \<Longrightarrow> mem_maps m y = 0"
  by (simp add: mem_maps_def)

section \<open>The contract of the kernel side\<close>

text \<open>
  A successful \<^verbatim>\<open>mmap\<close> never returns address zero, and the driver's \<^verbatim>\<open>IOCTL_GET_MEMFINFO\<close> directly
  after a page-multiple \<^verbatim>\<open>mmap\<close> on the same descriptor describes that mapping, with its length.
\<close>

definition page_length :: "u64 \<Rightarrow> bool" where
  "page_length len \<longleftrightarrow> 4096 dvd unat len \<and> 0 < unat len \<and> unat len < 2 ^ 63"

lemma page_length_pos:
  assumes "page_length len"
  shows "len \<noteq> 0" and "0 < sint len"
proof -
  show "len \<noteq> 0" using assms by (auto simp: page_length_def)
  have "0 < uint len" "uint len < 2 ^ 63"
    using assms by (simp_all add: page_length_def unat_eq_nat_uint [of len] nat_less_iff del: nat_uint_eq)
  then show "0 < sint len"
    by (simp add: sint_uint signed_take_bit_eq_if_positive bit_iff_odd take_bit_int_eq_self)
qed

lemma c_mmap_ok:
  "c_mmap E fd len w = (a, w') \<Longrightarrow> a \<noteq> MAP_FAILED \<Longrightarrow>
     sys_mmap E fd len (ram w, sys w) = (Inr a, ram w', sys w')"
  by (auto simp: c_mmap_def hw_act_def emit_def split: prod.splits sum.splits)

lemma c_ioctl_get_meminfo_ok:
  "c_ioctl_get_meminfo E fd b w = (r, m, w') \<Longrightarrow> \<not> r < 0 \<Longrightarrow>
     sys_ioctl_get_meminfo E fd (ram w, sys w) = (Inr m, ram w', sys w')"
  by (auto simp: c_ioctl_get_meminfo_def hw_act_def split: prod.splits sum.splits)

locale dma_service =
  fixes E :: "'s env"
  assumes mmap_not_null: "sys_mmap E fd len (r, s) = (Inr a, r', s') \<Longrightarrow> a \<noteq> NULL"
    and meminfo_after_mmap:
      "sys_mmap E fd len (r, s) = (Inr a, r', s') \<Longrightarrow> page_length len \<Longrightarrow>
       sys_ioctl_get_meminfo E fd (r', s') = (Inr m, r'', s'') \<Longrightarrow> mem_size m = len"
begin

lemma c_mmap_not_null: "c_mmap E fd len w = (a, w') \<Longrightarrow> a \<noteq> MAP_FAILED \<Longrightarrow> a \<noteq> NULL"
  by (drule (1) c_mmap_ok) (rule mmap_not_null)

lemma alloc_dma_valid:
  assumes run: "alloc_dma E fd len w = (m, w')" and len: "page_length len"
  obtains (ok) "mem_valid m" "mem_size m = len" "mem_fd m = fd"
      "trace w' = trace w @ [Ev_Mmap fd (user_virtaddr m) len]"
  | (none) "m = mem_zero" "trace w' = trace w"
  | (undone) v where "m = mem_zero" "trace w' = trace w @ [Ev_Mmap fd v len, Ev_Munmap v len]"
proof -
  obtain v w1 where v: "c_mmap E fd len w = (v, w1)" by (cases "c_mmap E fd len w")
  obtain q mi w2 where q: "c_ioctl_get_meminfo E fd mem_zero w1 = (q, mi, w2)"
    by (cases "c_ioctl_get_meminfo E fd mem_zero w1")
  note t = trace_c_mmap [OF v] trace_c_ioctl_get_meminfo [OF q]
  consider "v = MAP_FAILED" | "v \<noteq> MAP_FAILED" "q < 0" | "v \<noteq> MAP_FAILED" "\<not> q < 0" by blast
  then show thesis
  proof cases
    case 1
    with run v t page_length_pos [OF len] show ?thesis by (intro none) (auto simp: alloc_dma_def)
  next
    case 2
    with run v q t page_length_pos [OF len] show ?thesis
      by (intro undone [of v]) (auto simp: alloc_dma_def dest!: trace_c_munmap split: prod.splits)
  next
    case 3
    have "mem_size mi = len"
      using meminfo_after_mmap [OF c_mmap_ok [OF v 3(1)] len c_ioctl_get_meminfo_ok [OF q 3(2)]] .
    moreover have "v \<noteq> NULL" using c_mmap_not_null [OF v 3(1)] .
    ultimately show ?thesis
      using run v q t 3 page_length_pos [OF len]
      by (intro ok) (auto simp: alloc_dma_def mem_valid_def)
  qed
qed

lemma alloc_dma_balance:
  assumes "alloc_dma E fd len w = (m, w')" and "page_length len"
  shows "fd_balance w' x = fd_balance w x" and "map_balance w' y = map_balance w y + mem_maps m y"
  using assms
  by (auto elim!: alloc_dma_valid simp: balance_defs mem_maps_def)

end

text \<open>The operations whose balance does not depend on the contract.\<close>

lemma free_dma_balance:
  assumes "free_dma E m w = (m', w')"
  shows "fd_balance w' x = fd_balance w x" and "map_balance w' y = map_balance w y - mem_maps m y"
    and "\<not> mem_valid m'"
  using trace_free_dma [OF assms] free_dma_not_valid [of E m w] assms
  by (simp_all add: balance_defs mem_maps_def)

lemma dma_open_scan_balance:
  assumes "dma_open_scan E domain bus dev func names e w = (fd, w')"
  shows "fd_balance w' x = fd_balance w x + (if 0 \<le> fd then one_fd fd x else 0)
     \<and> map_balance w' y = map_balance w y"
  using assms
proof (induction names arbitrary: e w)
  case Nil
  then show ?case by (auto simp: balance_defs)
next
  case (Cons d ds)
  show ?case
    using Cons.prems
    by (auto simp: Let_def balance_defs one_fd_def
        dest!: trace_c_open trace_c_ioctl_get_bdf trace_c_close Cons.IH
        split: if_splits prod.splits)
qed

lemma dma_open_balance:
  assumes "dma_open E bus dev func w = (fd, w')"
  shows "fd_balance w' x = fd_balance w x + (if 0 \<le> fd then one_fd fd x else 0)"
    and "map_balance w' y = map_balance w y"
  using assms
  by (auto simp: dma_open_def dma_open_domain_def balance_defs
      dest!: trace_hw_act dma_open_scan_balance [where x = x and y = y]
      split: prod.splits sum.splits)

end
