(* ===== verification/Nvme_Defs.thy ===== *)
theory Nvme_Defs
  imports World
begin

text \<open>
  The data of \<^verbatim>\<open>tools/nvme.h\<close> and \<^verbatim>\<open>tools/nvme.c\<close>: register offsets and constants, the submission and
  completion entries and the DSM range with their layout in memory, the controller and per-thread
  queue structures, and the pure helpers on \<^verbatim>\<open>CAP\<close>, page addresses and doorbell offsets.

  Structure fields keep the names of the C source (with a prefix where two structures share a field
  name; the misspelt \<^verbatim>\<open>io_cq_pahse\<close> and \<^verbatim>\<open>ic_cq_head\<close> are kept). A pointer into the address space is a
  \<open>u64\<close> with \<open>NULL = 0\<close>; a pointer to a \<^verbatim>\<open>struct io_u\<close> is an optional identifier; the pointer
  \<^verbatim>\<open>n->ctrl\<close> is an optional index into the heap of controllers of \<open>Engine\<close>, and the functions of
  \<^verbatim>\<open>nvme.c\<close> take the structure it points to as an argument of its own.
\<close>

unbundle bit_operations_syntax

section \<open>Constants\<close>

abbreviation (input) NVME_BAR0_MAP_SIZE :: u64 where "NVME_BAR0_MAP_SIZE \<equiv> 0x4000"
abbreviation (input) NVME_REG_CAP :: u32 where "NVME_REG_CAP \<equiv> 0x0000"
abbreviation (input) NVME_REG_CC :: u32 where "NVME_REG_CC \<equiv> 0x0014"
abbreviation (input) NVME_REG_CSTS :: u32 where "NVME_REG_CSTS \<equiv> 0x001c"
abbreviation (input) NVME_REG_AQA :: u32 where "NVME_REG_AQA \<equiv> 0x0024"
abbreviation (input) NVME_REG_ASQ :: u32 where "NVME_REG_ASQ \<equiv> 0x0028"
abbreviation (input) NVME_REG_ACQ :: u32 where "NVME_REG_ACQ \<equiv> 0x0030"
abbreviation (input) NVME_DOORBELL_BASE :: u32 where "NVME_DOORBELL_BASE \<equiv> 0x1000"
abbreviation (input) NVME_CC_EN :: u32 where "NVME_CC_EN \<equiv> 1"
abbreviation (input) NVME_CC_IOSQES :: u32 where "NVME_CC_IOSQES \<equiv> 0x60000"
abbreviation (input) NVME_CC_IOCQES :: u32 where "NVME_CC_IOCQES \<equiv> 0x400000"
abbreviation (input) NVME_CSTS_RDY :: u32 where "NVME_CSTS_RDY \<equiv> 1"
abbreviation (input) NVME_REG_INVALID32 :: u32 where "NVME_REG_INVALID32 \<equiv> 0xffffffff"
abbreviation (input) NVME_REG_INVALID64 :: u64 where "NVME_REG_INVALID64 \<equiv> 0xffffffffffffffff"
abbreviation (input) NVME_ADMIN_Q_DEPTH :: u32 where "NVME_ADMIN_Q_DEPTH \<equiv> 32"
abbreviation (input) NVME_IO_QID :: u16 where "NVME_IO_QID \<equiv> 1"
abbreviation (input) NVME_ADMIN_DELETE_IO_SQ_OPCODE :: u8 where "NVME_ADMIN_DELETE_IO_SQ_OPCODE \<equiv> 0x00"
abbreviation (input) NVME_ADMIN_CREATE_IO_SQ_OPCODE :: u8 where "NVME_ADMIN_CREATE_IO_SQ_OPCODE \<equiv> 0x01"
abbreviation (input) NVME_ADMIN_DELETE_IO_CQ_OPCODE :: u8 where "NVME_ADMIN_DELETE_IO_CQ_OPCODE \<equiv> 0x04"
abbreviation (input) NVME_ADMIN_CREATE_IO_CQ_OPCODE :: u8 where "NVME_ADMIN_CREATE_IO_CQ_OPCODE \<equiv> 0x05"
abbreviation (input) NVME_ADMIN_IDENTIFY_OPCODE :: u32 where "NVME_ADMIN_IDENTIFY_OPCODE \<equiv> 0x06"
abbreviation (input) NVME_IO_WRITE_OPCODE :: u8 where "NVME_IO_WRITE_OPCODE \<equiv> 0x01"
abbreviation (input) NVME_IO_READ_OPCODE :: u8 where "NVME_IO_READ_OPCODE \<equiv> 0x02"
abbreviation (input) NVME_IO_DATASET_MANAGEMENT_OPCODE :: u32 where "NVME_IO_DATASET_MANAGEMENT_OPCODE \<equiv> 0x09"
abbreviation (input) NVME_DSM_ATTR_DEALLOCATE :: u32 where "NVME_DSM_ATTR_DEALLOCATE \<equiv> 0x4"
abbreviation (input) NVME_QUEUE_PHYS_CONTIGUOUS :: u32 where "NVME_QUEUE_PHYS_CONTIGUOUS \<equiv> 0x1"
abbreviation (input) NVME_PAGE_MASK :: u64 where "NVME_PAGE_MASK \<equiv> 4095"
abbreviation (input) NVME_ADMIN_CMD_TIMEOUT_MS :: nat where "NVME_ADMIN_CMD_TIMEOUT_MS \<equiv> 60000"

section \<open>Structures in memory\<close>

record nvme_command =
  cmd_opcode :: u8
  cmd_flags :: u8
  command_id :: u16
  cmd_nsid :: u32
  cmd_reserved2 :: u64
  cmd_metadata :: u64
  cmd_prp1 :: u64
  cmd_prp2 :: u64
  cmd_slba :: u64
  cmd_length :: u32
  cmd_dsmgmt :: u32
  cmd_reftag :: u32
  cmd_apptag :: u16
  cmd_appmask :: u16

definition load_command :: "ram \<Rightarrow> u64 \<Rightarrow> nvme_command" where
  "load_command r a =
     \<lparr>cmd_opcode = load8 r a, cmd_flags = load8 r (a + 1), command_id = load16 r (a + 2),
      cmd_nsid = load32 r (a + 4), cmd_reserved2 = load64 r (a + 8), cmd_metadata = load64 r (a + 16),
      cmd_prp1 = load64 r (a + 24), cmd_prp2 = load64 r (a + 32), cmd_slba = load64 r (a + 40),
      cmd_length = load32 r (a + 48), cmd_dsmgmt = load32 r (a + 52), cmd_reftag = load32 r (a + 56),
      cmd_apptag = load16 r (a + 60), cmd_appmask = load16 r (a + 62)\<rparr>"

record nvme_cq_entry =
  cqe_cs :: u32
  cqe_rsvd :: u32
  cqe_sqhd :: u16
  cqe_sqid :: u16
  cqe_cid :: u16
  cqe_psf :: u16

definition load_cqe :: "ram \<Rightarrow> u64 \<Rightarrow> nvme_cq_entry" where
  "load_cqe r a =
     \<lparr>cqe_cs = load32 r a, cqe_rsvd = load32 r (a + 4), cqe_sqhd = load16 r (a + 8),
      cqe_sqid = load16 r (a + 10), cqe_cid = load16 r (a + 12), cqe_psf = load16 r (a + 14)\<rparr>"

text \<open>The bit fields \<^verbatim>\<open>p\<close>, \<^verbatim>\<open>sc\<close> and \<^verbatim>\<open>sct\<close> of the last half word.\<close>

definition psf_p :: "u16 \<Rightarrow> u16" where
  "psf_p psf = psf AND 1"

definition psf_sc :: "u16 \<Rightarrow> u16" where
  "psf_sc psf = drop_bit 1 psf AND 0xff"

definition psf_sct :: "u16 \<Rightarrow> u16" where
  "psf_sct psf = drop_bit 9 psf AND 7"

record nvme_dsm_range =
  context_attributes :: u32
  range_length :: u32
  range_slba :: u64

definition load_dsm_range :: "ram \<Rightarrow> u64 \<Rightarrow> nvme_dsm_range" where
  "load_dsm_range r a =
     \<lparr>context_attributes = load32 r a, range_length = load32 r (a + 4), range_slba = load64 r (a + 8)\<rparr>"

definition store_dsm_range :: "ram \<Rightarrow> u64 \<Rightarrow> u32 \<Rightarrow> u32 \<Rightarrow> u64 \<Rightarrow> ram" where
  "store_dsm_range r a attrs len slba = store64 (store32 (store32 r a attrs) (a + 4) len) (a + 8) slba"

section \<open>The controller and the per-thread queues\<close>

text \<open>
  \<^verbatim>\<open>lba_shift\<close> is an \<^verbatim>\<open>int\<close> in the source that only ever holds 9 (from \<^verbatim>\<open>controller_init\<close>) or the block size
  exponent of \<^verbatim>\<open>nvme_get_file_size\<close>, which that function has checked to be below 64; so it is a \<open>nat\<close>, and a
  shift by it is one that C defines. \<^verbatim>\<open>events\<close> and \<^verbatim>\<open>nr_events\<close> of a thread are an array of 65536 pointers and an
  \<^verbatim>\<open>int\<close>; here the array is a function on all indices, because \<^verbatim>\<open>poll_cq\<close> does not check the index, and the
  theorem on \<^verbatim>\<open>nvme_getevents\<close> in \<open>Engine_Events\<close> bounds the indices that the engine uses.
\<close>

record controller_data =
  c_bus :: u16
  c_dev :: u16
  c_func :: u16
  c_nsid :: u16
  bar0_phys :: u64
  bar0_virt :: u64
  admin_sq_tail :: u16
  admin_cq_head :: u16
  admin_cq_phase :: u8
  admin_sq_phys_addr :: u64
  admin_sq_virt_addr :: u64
  admin_sq_mem :: mem
  admin_cq_phys_addr :: u64
  admin_cq_virt_addr :: u64
  admin_cq_mem :: mem
  admin_sq_depth :: u16
  admin_cq_depth :: u16
  admin_cmd_id :: u16
  admin_sq_tail_db :: u32
  admin_cq_head_db :: u32
  lba_shift :: nat
  ns_size :: u64
  dma_fd :: int
  dma_fd_opened :: bool

text \<open>What \<^verbatim>\<open>calloc\<close> returns: every field zero.\<close>

definition controller_zero :: controller_data where
  "controller_zero =
     \<lparr>c_bus = 0, c_dev = 0, c_func = 0, c_nsid = 0, bar0_phys = 0, bar0_virt = NULL,
      admin_sq_tail = 0, admin_cq_head = 0, admin_cq_phase = 0,
      admin_sq_phys_addr = 0, admin_sq_virt_addr = NULL, admin_sq_mem = mem_zero,
      admin_cq_phys_addr = 0, admin_cq_virt_addr = NULL, admin_cq_mem = mem_zero,
      admin_sq_depth = 0, admin_cq_depth = 0, admin_cmd_id = 0,
      admin_sq_tail_db = 0, admin_cq_head_db = 0, lba_shift = 0, ns_size = 0,
      dma_fd = 0, dma_fd_opened = False\<rparr>"

record nvme_data =
  ctrl :: "nat option"
  io_sq_head :: u32
  io_sq_tail :: u32
  ic_cq_head :: u32
  io_cq_pahse :: u8
  io_sq_phys_addr :: u64
  io_sq_virt_addr :: u64
  io_sq_mem :: mem
  io_cq_phys_addr :: u64
  io_cq_virt_addr :: u64
  io_cq_mem :: mem
  io_prp_list_phys_addr :: u64
  io_prp_list_virt_addr :: u64
  io_prp_list_mem :: mem
  io_u_data_phys_addr :: u64
  io_u_data_virt_addr :: u64
  io_u_data_mem :: mem
  io_sq_depth :: u32
  io_cq_depth :: u32
  io_qid :: u16
  io_cmd_id :: u16
  io_sq_tail_db :: u32
  io_cq_head_db :: u32
  cmd_io_u :: "u16 \<Rightarrow> nat option"
  events :: "nat \<Rightarrow> nat option"
  nr_events :: nat

definition nvme_data_init :: nvme_data where
  "nvme_data_init =
     \<lparr>ctrl = None, io_sq_head = 0, io_sq_tail = 0, ic_cq_head = 0, io_cq_pahse = 0,
      io_sq_phys_addr = 0, io_sq_virt_addr = NULL, io_sq_mem = mem_zero,
      io_cq_phys_addr = 0, io_cq_virt_addr = NULL, io_cq_mem = mem_zero,
      io_prp_list_phys_addr = 0, io_prp_list_virt_addr = NULL, io_prp_list_mem = mem_zero,
      io_u_data_phys_addr = 0, io_u_data_virt_addr = NULL, io_u_data_mem = mem_zero,
      io_sq_depth = 0, io_cq_depth = 0, io_qid = 0, io_cmd_id = 0,
      io_sq_tail_db = 0, io_cq_head_db = 0,
      cmd_io_u = (\<lambda>_. None), events = (\<lambda>_. None), nr_events = 0\<rparr>"

end
