(* ===== verification/Nvme_Regs.thy ===== *)
theory Nvme_Regs
  imports Nvme_Defs
begin

text \<open>
  The pure helpers of \<^verbatim>\<open>tools/nvme.c\<close>: fields of the \<^verbatim>\<open>CAP\<close> register, page arithmetic, doorbell
  offsets and the little-endian load. Arithmetic is at the width the C expression has after the
  usual conversions; in particular the mask of \<^verbatim>\<open>round_up_page\<close> is a 32-bit \<^verbatim>\<open>unsigned int\<close> that is
  zero-extended before the 64-bit conjunction.
\<close>

unbundle bit_operations_syntax

section \<open>Definitions\<close>

definition nvme_page_offset :: "u64 \<Rightarrow> u64" where
  "nvme_page_offset addr = addr AND NVME_PAGE_MASK"

definition nvme_page_align_up :: "u64 \<Rightarrow> u64" where
  "nvme_page_align_up addr = (addr + NVME_PAGE_MASK) AND NOT NVME_PAGE_MASK"

definition ready_timeout_ms :: "u64 \<Rightarrow> u32" where
  "ready_timeout_ms cap = ucast (drop_bit 24 cap AND 0xff) * 500"

definition cap_mqes_entries :: "u64 \<Rightarrow> u32" where
  "cap_mqes_entries cap = ucast (cap AND 0xffff) + 1"

definition cap_mpsmin :: "u64 \<Rightarrow> u32" where
  "cap_mpsmin cap = ucast (drop_bit 48 cap AND 0xf)"

definition cap_dstrd :: "u64 \<Rightarrow> u32" where
  "cap_dstrd cap = ucast (drop_bit 32 cap AND 0xf)"

definition round_up_page :: "u64 \<Rightarrow> u64" where
  "round_up_page sz = (sz + 4096 - 1) AND ucast (NOT (4096 - 1) :: u32)"

definition admin_sq_tail_doorbell :: "u64 \<Rightarrow> u32" where
  "admin_sq_tail_doorbell cap = NVME_DOORBELL_BASE"

definition admin_cq_head_doorbell :: "u64 \<Rightarrow> u32" where
  "admin_cq_head_doorbell cap =
     (let stride = push_bit (unat (cap_dstrd cap)) 4 in NVME_DOORBELL_BASE + stride)"

definition nvme_io_qid :: "nvme_data \<Rightarrow> u16" where
  "nvme_io_qid n = (if io_qid n \<noteq> 0 then io_qid n else NVME_IO_QID)"

definition io_sq_tail_doorbell :: "u64 \<Rightarrow> u16 \<Rightarrow> u32" where
  "io_sq_tail_doorbell cap qid =
     (let stride = push_bit (unat (cap_dstrd cap)) 4 in NVME_DOORBELL_BASE + 2 * ucast qid * stride)"

definition io_cq_head_doorbell :: "u64 \<Rightarrow> u16 \<Rightarrow> u32" where
  "io_cq_head_doorbell cap qid =
     (let stride = push_bit (unat (cap_dstrd cap)) 4 in NVME_DOORBELL_BASE + (2 * ucast qid + 1) * stride)"

definition load_le64 :: "ram \<Rightarrow> u64 \<Rightarrow> u64" where
  "load_le64 r p =
     ucast (load8 r p) OR push_bit 8 (ucast (load8 r (p + 1))) OR push_bit 16 (ucast (load8 r (p + 2)))
       OR push_bit 24 (ucast (load8 r (p + 3))) OR push_bit 32 (ucast (load8 r (p + 4)))
       OR push_bit 40 (ucast (load8 r (p + 5))) OR push_bit 48 (ucast (load8 r (p + 6)))
       OR push_bit 56 (ucast (load8 r (p + 7)))"

section \<open>Page arithmetic\<close>

lemma unat_page_offset: "unat (nvme_page_offset a) = unat a mod 4096"
proof -
  have "(4095 :: u64) = mask 12" by (simp add: mask_eq_exp_minus_1)
  then have "nvme_page_offset a = take_bit 12 a"
    by (simp add: nvme_page_offset_def take_bit_eq_mask)
  then have "unat (nvme_page_offset a) = take_bit 12 (unat a)" by (simp only: unsigned_take_bit_eq)
  then show ?thesis by (simp add: take_bit_eq_mod)
qed

lemma page_offset_eq_0: "nvme_page_offset a = 0 \<longleftrightarrow> unat a mod 4096 = 0"
  by (metis unat_page_offset unat_eq_zero)

lemma and_not_eq_minus: "x AND NOT m = x - (x AND m)" for x m :: "'a::len word"
proof -
  have "(x AND NOT m) + (x AND m) = (x AND NOT m) OR (x AND m)"
    by (rule disjunctive_add_eq_or) (rule bit_eqI, auto simp: bit_simps)
  also have "\<dots> = x" by (rule bit_eqI) (auto simp: bit_simps)
  finally show ?thesis by (simp add: eq_diff_eq)
qed

lemma unat_and_not_page_mask: "unat (x AND NOT NVME_PAGE_MASK) = unat x div 4096 * 4096"
proof -
  have "unat (x AND NOT NVME_PAGE_MASK) = unat x - unat (nvme_page_offset x)"
    unfolding and_not_eq_minus nvme_page_offset_def by (rule unat_sub) (rule word_and_le2)
  then show ?thesis by (simp add: unat_page_offset minus_mod_eq_div_mult)
qed

lemma unat_add_small: "unat x + k < 2 ^ 64 \<Longrightarrow> unat (x + of_nat k :: u64) = unat x + k"
  by (simp add: unat_word_ariths unat_of_nat take_bit_nat_eq_self)

lemma unat_page_align_up:
  assumes "unat a + 4095 < 2 ^ 64"
  shows "unat (nvme_page_align_up a) = (unat a + 4095) div 4096 * 4096"
  unfolding nvme_page_align_up_def unat_and_not_page_mask using unat_add_small [of a 4095] assms by simp

text \<open>
  Aligning up a page-aligned address gives the address itself, not the next page; an address inside
  a page moves to the start of the next one.
\<close>

lemma page_align_up_aligned:
  assumes "nvme_page_offset a = 0"
  shows "nvme_page_align_up a = a"
proof -
  have "a AND NVME_PAGE_MASK = 0" using assms by (simp add: nvme_page_offset_def)
  then have "a + NVME_PAGE_MASK = a OR NVME_PAGE_MASK" by (rule disjunctive_add_eq_or)
  then have "nvme_page_align_up a = (a OR NVME_PAGE_MASK) AND NOT NVME_PAGE_MASK"
    by (simp add: nvme_page_align_up_def)
  also have "\<dots> = a AND NOT NVME_PAGE_MASK" by (rule bit_eqI) (auto simp: bit_simps)
  also have "\<dots> = a" unfolding and_not_eq_minus using \<open>a AND NVME_PAGE_MASK = 0\<close> by simp
  finally show ?thesis .
qed

lemma mod_pred_4096:
  assumes "0 < (x::nat) mod 4096"
  shows "(x + 4095) mod 4096 = x mod 4096 - 1"
proof -
  obtain k where k: "x mod 4096 = Suc k" using assms by (cases "x mod 4096") auto
  have "x + 4095 = k + 4096 * (x div 4096 + 1)"
    using k mult_div_mod_eq [of 4096 x] by simp
  then have "(x + 4095) mod 4096 = k mod 4096" by (metis mod_mult_self2)
  moreover have "Suc k < 4096" using k by (metis mod_less_divisor zero_less_numeral)
  ultimately show ?thesis using k by simp
qed

lemma page_align_up_unaligned:
  assumes "nvme_page_offset a \<noteq> 0"
  shows "nvme_page_align_up a = a + (4096 - nvme_page_offset a)"
proof -
  let ?o = "nvme_page_offset a"
  have o: "0 < unat ?o" "unat ?o < 4096"
    using assms by (simp_all add: unat_page_offset page_offset_eq_0)
  have low: "unat (nvme_page_offset (a + NVME_PAGE_MASK)) = unat ?o - 1"
  proof -
    have "unat (a + NVME_PAGE_MASK) mod 4096 = (unat a + 4095) mod 2 ^ 64 mod 4096"
      by (simp add: unat_word_ariths)
    also have "\<dots> = (unat a + 4095) mod 4096" by (rule mod_mod_cancel) simp
    finally have "unat (a + NVME_PAGE_MASK) mod 4096 = (unat a + 4095) mod 4096" .
    also have "\<dots> = unat a mod 4096 - 1"
      using o by (intro mod_pred_4096) (simp add: unat_page_offset)
    finally show ?thesis by (simp only: unat_page_offset)
  qed
  then have "nvme_page_offset (a + NVME_PAGE_MASK) = ?o - 1"
    using assms by (simp only: word_unat_eq_iff unat_minus_one [OF assms])
  then show ?thesis
    unfolding nvme_page_align_up_def and_not_eq_minus
    by (simp add: nvme_page_offset_def [symmetric])
qed

lemma unat_ucast_u16_u32 [simp]: "unat (ucast (x :: u16) :: u32) = unat x"
proof -
  have "unat x < 2 ^ 16" by (rule unat_less_2p16)
  then show ?thesis by (simp add: unsigned_ucast_eq take_bit_nat_eq_self)
qed

lemma unat_round_up_page:
  assumes "unat sz \<le> 2 ^ 32 - 4096"
  shows "unat (round_up_page sz) = (unat sz + 4095) div 4096 * 4096"
proof -
  have "ucast (NOT (4096 - 1) :: u32) = (mask 32 :: u64) AND NOT NVME_PAGE_MASK"
    by (simp add: mask_eq_exp_minus_1)
  then have "round_up_page sz = (take_bit 32 (sz + 4095)) AND NOT NVME_PAGE_MASK"
    by (simp add: round_up_page_def take_bit_eq_mask and.assoc add_diff_eq [symmetric])
  moreover have "unat (take_bit 32 (sz + 4095)) = unat sz + 4095"
    using unat_add_small [of sz 4095] assms
    by (simp add: unsigned_take_bit_eq take_bit_nat_eq_self)
  ultimately show ?thesis by (simp only: unat_and_not_page_mask)
qed

lemma round_up_page_4g: "round_up_page 0x100000000 = 0"
  by (simp add: round_up_page_def)

section \<open>Doorbells\<close>

definition db_stride :: "u64 \<Rightarrow> nat" where
  "db_stride cap = 4 * 2 ^ unat (cap_dstrd cap)"

lemma cap_dstrd_less: "unat (cap_dstrd cap) < 16"
proof -
  have "unat (drop_bit 32 cap AND 0xf) \<le> unat (0xf :: u64)"
    by (rule word_and_le1 [THEN word_le_nat_alt [THEN iffD1]])
  then have "unat (drop_bit 32 cap AND 0xf) < 16" by simp
  moreover from this have "unat (cap_dstrd cap) = unat (drop_bit 32 cap AND 0xf)"
    by (simp add: cap_dstrd_def unsigned_ucast_eq take_bit_nat_eq_self)
  ultimately show ?thesis by simp
qed

lemma unat_db_stride: "unat (push_bit (unat (cap_dstrd cap)) 4 :: u32) = db_stride cap"
proof -
  have "(2::nat) ^ unat (cap_dstrd cap) \<le> 2 ^ 15"
    using cap_dstrd_less [of cap] by (intro power_increasing) auto
  then have "4 * (2::nat) ^ unat (cap_dstrd cap) < 2 ^ 32" by simp
  then show ?thesis
    by (simp only: unsigned_push_bit_eq db_stride_def)
      (simp add: push_bit_eq_mult take_bit_nat_eq_self mult.commute)
qed

lemma unat_io_doorbells:
  assumes "(2 * unat qid + 1) * db_stride cap < 2 ^ 32 - 4096"
  shows "unat (io_sq_tail_doorbell cap qid) = 4096 + 2 * unat qid * db_stride cap"
    and "unat (io_cq_head_doorbell cap qid) = 4096 + (2 * unat qid + 1) * db_stride cap"
proof -
  have q: "unat qid < 2 ^ 16" by (rule unat_less_2p16)
  let ?m = "2 ^ 32 :: nat"
  have a: "2 * unat qid * db_stride cap < 2 ^ 32 - 4096"
    using assms by (simp only: add_mult_distrib)
  have e: "unat (2 * ucast qid :: u32) = 2 * unat qid" using q by (simp add: unat_word_ariths)
  then have f: "unat (2 * ucast qid + 1 :: u32) = 2 * unat qid + 1" using q by (simp add: unat_word_ariths)
  show "unat (io_sq_tail_doorbell cap qid) = 4096 + 2 * unat qid * db_stride cap"
    using a by (simp add: io_sq_tail_doorbell_def Let_def unat_word_ariths(1) unat_word_ariths(2)
        [of "2 * ucast qid"] e unat_db_stride)
  show "unat (io_cq_head_doorbell cap qid) = 4096 + (2 * unat qid + 1) * db_stride cap"
    using assms by (simp add: io_cq_head_doorbell_def Let_def unat_word_ariths(1) [of NVME_DOORBELL_BASE]
        unat_word_ariths(2) [of "2 * ucast qid + 1"] f unat_db_stride)
qed

lemma load_le64_eq_load64: "load_le64 r p = load64 r p"
proof -
  have "load_bytes r p 8 = [r p, r (p + 1), r (p + 2), r (p + 3), r (p + 4), r (p + 5), r (p + 6), r (p + 7)]"
    by (simp add: load_bytes_def upt_rec)
  then show ?thesis
    by (simp add: load_le64_def load64_def load8_def push_bit_or or.assoc)
qed

section \<open>Properties\<close>

text \<open>
  C37: The bit manipulations of the page and byte helpers agree with the arithmetic they stand for:
  the page offset is the remainder by the page size, both round-ups give the next multiple of the
  page size (for addresses below the last page, and for sizes up to 4 GiB less a page), and
  \<^verbatim>\<open>load_le64\<close> reads the eight bytes at its address as a little-endian number.
\<close>

theorem page_helpers_exact:
  assumes "unat a + 4095 < 2 ^ 64" and "unat sz \<le> 2 ^ 32 - 4096"
  shows "unat (nvme_page_offset a) = unat a mod 4096
    \<and> unat (nvme_page_align_up a) = (unat a + 4095) div 4096 * 4096
    \<and> unat (round_up_page sz) = (unat sz + 4095) div 4096 * 4096
    \<and> load_le64 r a = load64 r a"
  using assms by (simp add: unat_page_offset unat_page_align_up unat_round_up_page load_le64_eq_load64)

text \<open>
  C38: As long as the doorbells of a queue fit into the 16 KiB of BAR0 that are mapped, they are at the
  offsets of the NVMe specification, inside the mapping, and the doorbells of different queues are
  different registers.
\<close>

theorem io_doorbells_apart:
  assumes fit: "(2 * unat q + 1) * db_stride cap + 4 \<le> 0x3000" "(2 * unat q' + 1) * db_stride cap + 4 \<le> 0x3000"
  shows "unat (io_sq_tail_doorbell cap q) = 0x1000 + 2 * unat q * db_stride cap
    \<and> unat (io_cq_head_doorbell cap q) = 0x1000 + (2 * unat q + 1) * db_stride cap
    \<and> unat (io_sq_tail_doorbell cap q) + 4 \<le> unat NVME_BAR0_MAP_SIZE
    \<and> unat (io_cq_head_doorbell cap q) + 4 \<le> unat NVME_BAR0_MAP_SIZE
    \<and> (q \<noteq> q' \<longrightarrow> io_sq_tail_doorbell cap q \<noteq> io_sq_tail_doorbell cap q' \<and> io_cq_head_doorbell cap q \<noteq> io_cq_head_doorbell cap q')
    \<and> io_sq_tail_doorbell cap q \<noteq> io_cq_head_doorbell cap q'"
proof -
  have pos: "0 < db_stride cap" by (simp add: db_stride_def)
  have "(2 * unat q + 1) * db_stride cap < 2 ^ 32 - 4096" "(2 * unat q' + 1) * db_stride cap < 2 ^ 32 - 4096"
    using fit by simp_all
  note db = unat_io_doorbells [OF this(1)] unat_io_doorbells [OF this(2)]
  have neq: "io_sq_tail_doorbell cap q \<noteq> io_sq_tail_doorbell cap q' \<and> io_cq_head_doorbell cap q \<noteq> io_cq_head_doorbell cap q'"
    if "q \<noteq> q'"
  proof -
    have "unat q \<noteq> unat q'" using that by (simp add: word_unat_eq_iff)
    then show ?thesis using pos db by (auto simp: word_unat_eq_iff)
  qed
  have "2 * unat q * db_stride cap \<noteq> (2 * unat q' + 1) * db_stride cap"
    using pos mult_cancel2 [of "2 * unat q" "db_stride cap" "2 * unat q' + 1"] by presburger
  then have "io_sq_tail_doorbell cap q \<noteq> io_cq_head_doorbell cap q'"
    using db by (auto simp: word_unat_eq_iff)
  moreover have "2 * unat q * db_stride cap \<le> (2 * unat q + 1) * db_stride cap" by (intro mult_right_mono) simp_all
  then have "2 * unat q * db_stride cap + 4 \<le> 0x3000" using fit(1) by linarith
  ultimately show ?thesis using db neq fit by simp
qed

text \<open>With the largest stride that the register allows, even the doorbells of the first queue are outside.\<close>

lemma doorbell_outside_map: "unat (io_sq_tail_doorbell 0xf00000000 1) > unat NVME_BAR0_MAP_SIZE"
  by (simp add: io_sq_tail_doorbell_def cap_dstrd_def Let_def)

theorem page_helpers_exact_witness:
  "unat (nvme_page_align_up 0x1001) = 0x2000 \<and> unat (round_up_page 1) = 0x1000"
  using page_helpers_exact [of "0x1001" 1 "\<lambda>_. 0"] by simp

theorem io_doorbells_apart_witness:
  "unat (io_cq_head_doorbell 0 1535) + 4 = unat NVME_BAR0_MAP_SIZE \<and> io_sq_tail_doorbell 0 1535 \<noteq> io_sq_tail_doorbell 0 1"
  using io_doorbells_apart [of 1535 0 1] by (simp add: db_stride_def cap_dstrd_def)

end
