(* ===== verification/Driver_Env.thy ===== *)
theory Driver_Env
  imports Driver_Inv Resource Nvme_Regs
begin

text \<open>
  The user-space DMA interface (\<^verbatim>\<open>dma.c\<close>) running on the model of the kernel driver: the system calls of
  the environment that concern \<^verbatim>\<open>genpci\<close> files are the driver's operations. The parameters \<open>alloc\<close> and
  \<open>uaddr\<close> are the kernel's allocators and its choice of a mapping address, \<open>B\<close> is the rest of the
  environment; mapping a file of another driver does not change the state of this one. A mapping is known to the kernel by its start address, and the kernel maps whole pages.
  A fault of the driver ends the call with \<^verbatim>\<open>EFAULT\<close>.
\<close>

unbundle bit_operations_syntax

definition drv_mmap :: "(kernel \<Rightarrow> mmap_results) \<Rightarrow> (kernel \<Rightarrow> u64 option) \<Rightarrow> kernel env \<Rightarrow> int \<Rightarrow> u64 \<Rightarrow> (kernel, int + u64) act" where
  "drv_mmap alloc uaddr B fd len = (\<lambda>(r, k).
     case files k (nat fd) of
       None \<Rightarrow> (case fst (sys_mmap B fd len (r, k)) of
           Inr a \<Rightarrow> (if a = NULL then Inl ENOMEM else Inr a, r, k)
         | Inl e \<Rightarrow> (Inl e, r, k))
     | Some d \<Rightarrow> (case uaddr k of
           None \<Rightarrow> (Inl ENOMEM, r, k)
         | Some a \<Rightarrow>
             if a = NULL then (Inl ENOMEM, r, k)
             else case mmap_dma (alloc k) (nat fd) (unat a) a (a + page_align len) 0 k of
               Inl _ \<Rightarrow> (Inl EFAULT, r, k)
             | Inr (ret, k) \<Rightarrow> (if ret \<noteq> 0 then Inl (- ret) else Inr a, r, k)))"

definition drv_munmap :: "u64 \<Rightarrow> u64 \<Rightarrow> (kernel, int option) act" where
  "drv_munmap a len = (\<lambda>(r, k).
     case vmas k (unat a) of
       None \<Rightarrow> (None, r, k)
     | Some _ \<Rightarrow> (case dma_vma_close (unat a) k of
           Inl _ \<Rightarrow> (Some EFAULT, r, k)
         | Inr k \<Rightarrow> (None, r, unmap_vma (unat a) k)))"

definition drv_meminfo :: "int \<Rightarrow> (kernel, int + mem) act" where
  "drv_meminfo fd = (\<lambda>(r, k).
     if files k (nat fd) = None then (Inl ENOTTY, r, k)
     else case genpci_ioctl True (nat fd) IOCTL_GET_MEMFINFO k of
       Inr (ret, Out_Mem m, k) \<Rightarrow> (Inr m, r, k)
     | Inr (ret, _, k) \<Rightarrow> (Inl (- ret), r, k)
     | Inl _ \<Rightarrow> (Inl EFAULT, r, k))"

definition drv_get_bdf :: "int \<Rightarrow> (kernel, int + bdf) act" where
  "drv_get_bdf fd = (\<lambda>(r, k).
     if files k (nat fd) = None then (Inl ENOTTY, r, k)
     else case genpci_ioctl True (nat fd) IOCTL_GET_BDF k of
       Inr (ret, Out_Bdf b, k) \<Rightarrow> (Inr b, r, k)
     | Inr (ret, _, k) \<Rightarrow> (Inl (- ret), r, k)
     | Inl _ \<Rightarrow> (Inl EFAULT, r, k))"

definition drv_release :: "int \<Rightarrow> mem \<Rightarrow> (kernel, int option) act" where
  "drv_release fd m = (\<lambda>(r, k).
     if files k (nat fd) = None then (Some ENOTTY, r, k)
     else case genpci_ioctl True (nat fd) (IOCTL_RELEASE_MEM m) k of
       Inr (ret, _, k) \<Rightarrow> (if ret = 0 then None else Some (- ret), r, k)
     | Inl _ \<Rightarrow> (Some EFAULT, r, k))"

definition drv_env :: "(kernel \<Rightarrow> mmap_results) \<Rightarrow> (kernel \<Rightarrow> u64 option) \<Rightarrow> kernel env \<Rightarrow> kernel env" where
  "drv_env alloc uaddr B =
     B\<lparr>sys_mmap := drv_mmap alloc uaddr B, sys_munmap := drv_munmap, sys_ioctl_get_bdf := drv_get_bdf,
       sys_ioctl_get_meminfo := drv_meminfo, sys_ioctl_release_mem := drv_release\<rparr>"

section \<open>The driver provides the DMA service\<close>

lemma page_align_page_length:
  assumes "page_length len"
  shows "page_align len = len"
proof -
  have "nvme_page_offset len = 0" using assms by (simp add: page_offset_eq_0 page_length_def dvd_eq_mod_eq_0)
  then show ?thesis using page_align_up_aligned [of len] by (simp add: page_align_def nvme_page_align_up_def)
qed

lemma drv_env_calls:
  "sys_mmap (drv_env alloc uaddr B) = drv_mmap alloc uaddr B" "sys_munmap (drv_env alloc uaddr B) = drv_munmap"
  "sys_ioctl_get_meminfo (drv_env alloc uaddr B) = drv_meminfo" "sys_ioctl_release_mem (drv_env alloc uaddr B) = drv_release"
  by (simp_all add: drv_env_def)

text \<open>A successful \<^verbatim>\<open>mmap\<close> of a \<^verbatim>\<open>genpci\<close> file has put a new entry at the head of the device's list.\<close>

lemma drv_mmap_ok:
  assumes "drv_mmap alloc uaddr B fd len (r, k) = (Inr a, r', k')" and "files k (nat fd) = Some d" and "page_length len"
  obtains dv e va da where "a \<noteq> NULL" "uaddr k = Some a" "r' = r" "devs k d = Some dv" "kzalloc_entry (alloc k) = Some e"
    "alloc_coherent (alloc k) = Some (va, da)" "k' = mapped d (pdev dv) e (unat a) va da len 0 k"
proof -
  have a: "a \<noteq> NULL" "uaddr k = Some a" "r' = r" "mmap_dma (alloc k) (nat fd) (unat a) a (a + page_align len) 0 k = Inr (0, k')"
    using assms(1,2) by (auto simp: drv_mmap_def split: option.splits if_splits sum.splits)
  have "page_align (a + page_align len - a) = len" using page_align_page_length [OF assms(3)] by simp
  with a assms(2) show thesis
    by (elim mmap_dma_ok) (rule that, auto)
qed

lemma drv_meminfo_mapped:
  assumes "files k (nat fd) = Some d" and "devs k d = Some dv"
  shows "drv_meminfo fd (r, mapped d p e v va da sz off k) =
    (Inr (mem_zero\<lparr>dma_addr := da, kernel_virtaddr := va, mem_size := sz\<rparr>), r, mapped d p e v va da sz off k)"
  using assms by (simp add: drv_meminfo_def genpci_ioctl_def deref_def mapped_simps mem_of_entry_def new_entry_def)

interpretation drv: dma_service "drv_env alloc uaddr B" for alloc uaddr B
proof unfold_locales
  fix fd :: int and len :: u64 and r :: ram and k a r' k'
  assume m: "sys_mmap (drv_env alloc uaddr B) fd len (r, k) = (Inr a, r', k')"
  then show "a \<noteq> NULL"
    by (auto simp: drv_env_calls drv_mmap_def split: option.splits prod.splits sum.splits if_splits)
  fix m r'' k''
  assume "page_length len" and i: "sys_ioctl_get_meminfo (drv_env alloc uaddr B) fd (r', k') = (Inr m, r'', k'')"
  show "mem_size m = len"
  proof (cases "files k (nat fd)")
    case (Some d)
    obtain dv e va da where "devs k d = Some dv" "k' = mapped d (pdev dv) e (unat a) va da len 0 k"
      by (rule drv_mmap_ok [OF m [unfolded drv_env_calls] Some \<open>page_length len\<close>])
    with i drv_meminfo_mapped [OF Some] show ?thesis by (auto simp: drv_env_calls)
  next
    case None
    have "k' = k" using m None by (auto simp: drv_env_calls drv_mmap_def split: sum.splits if_splits)
    then show ?thesis using i None by (simp add: drv_env_calls drv_meminfo_def)
  qed
qed

section \<open>A buffer from allocation to release\<close>

lemma alloc_dma_drv:
  assumes "alloc_dma (drv_env alloc uaddr B) fd len w = (m, w1)" and "mem_valid m" and "files (sys w) (nat fd) = Some d"
    and "page_length len"
  obtains dv e va da where "devs (sys w) d = Some dv" "kzalloc_entry (alloc (sys w)) = Some e"
    "alloc_coherent (alloc (sys w)) = Some (va, da)" "uaddr (sys w) = Some (user_virtaddr m)"
    "m = \<lparr>mem_fd = fd, kernel_virtaddr = va, user_virtaddr = user_virtaddr m, dma_addr = da, mem_size = len\<rparr>"
    "sys w1 = mapped d (pdev dv) e (unat (user_virtaddr m)) va da len 0 (sys w)"
proof -
  let ?E = "drv_env alloc uaddr B"
  obtain a w2 where mm: "c_mmap ?E fd len w = (a, w2)" by (rule prod.exhaust)
  obtain q mi w3 where q: "c_ioctl_get_meminfo ?E fd mem_zero w2 = (q, mi, w3)" by (rule prod_cases3)
  have len: "len \<noteq> 0" using page_length_pos [OF assms(4)] by simp
  have nf: "a \<noteq> MAP_FAILED"
    using assms(1,2) mm len by (auto simp: alloc_dma_def)
  have "drv_mmap alloc uaddr B fd len (ram w, sys w) = (Inr a, ram w2, sys w2)"
    using c_mmap_ok [OF mm nf] by (simp add: drv_env_calls)
  then obtain dv e va da where k: "uaddr (sys w) = Some a" "devs (sys w) d = Some dv" "kzalloc_entry (alloc (sys w)) = Some e"
    "alloc_coherent (alloc (sys w)) = Some (va, da)" "sys w2 = mapped d (pdev dv) e (unat a) va da len 0 (sys w)"
    by (rule drv_mmap_ok [OF _ assms(3,4)])
  have "drv_meminfo fd (ram w2, sys w2) = (Inr (mem_zero\<lparr>dma_addr := da, kernel_virtaddr := va, mem_size := len\<rparr>), ram w2, sys w2)"
    unfolding k(5) by (rule drv_meminfo_mapped [OF assms(3) k(2)])
  then have "q = 0" "mi = mem_zero\<lparr>dma_addr := da, kernel_virtaddr := va, mem_size := len\<rparr>" "sys w3 = sys w2"
    using q by (auto simp: c_ioctl_get_meminfo_def hw_act_def drv_env_calls)
  then have "m = \<lparr>mem_fd = fd, kernel_virtaddr = va, user_virtaddr = a, dma_addr = da, mem_size = len\<rparr>" "sys w1 = sys w2"
    using assms(1) mm q nf len by (auto simp: alloc_dma_def mem_zero_def)
  with k show thesis by (intro that [of dv e va da]) simp_all
qed

lemma free_dma_sys:
  assumes "mem_valid m" and "free_dma (drv_env alloc uaddr B) m w = (m', w')"
  shows "sys w' = snd (snd (drv_munmap (user_virtaddr m) (mem_size m) (snd (drv_release (mem_fd m) m (ram w, sys w)))))"
  using assms
  by (auto simp: free_dma_def mem_valid_def c_ioctl_release_mem_def c_munmap_def hw_act_def emit_def drv_env_calls
      split: prod.splits option.splits)

lemma release_mapped:
  assumes "files k (nat fd) = Some d" and "devs k d = Some dv" and "kernel_virtaddr m = va" and "dma_addr m = da"
  shows "drv_release fd m (r, mapped d p e v va da sz off k) =
    (None, r, upd_entry e (\<lambda>x. x\<lparr>release_requested := True\<rparr>) (mapped d p e v va da sz off k))"
  using assms by (simp add: drv_release_def genpci_ioctl_def deref_def mapped_simps new_entry_def)

text \<open>
  Removing the only mapping of a freshly mapped buffer takes the driver back to where it was, in every
  field: the entry is off the device's list again, and the reference to the device is given back.
\<close>

lemma mapped_free:
  assumes new: "\<And>d'. e \<notin> mlist k d'" and fresh: "entries k e = None" "coherent k va = None" "vmas k v = None" "vm_pages k v = None"
    and k1: "k1 = upd_entry e (\<lambda>x. x\<lparr>release_requested := True\<rparr>) (mapped d p e v va da sz off k)"
  shows "unmap_vma v (after_close v e ((new_entry d p sz da va)\<lparr>release_requested := True\<rparr>) k1) = k"
proof (rule kernel.equality)
  let ?k = "unmap_vma v (after_close v e ((new_entry d p sz da va)\<lparr>release_requested := True\<rparr>) k1)"
  note defs = k1 unmap_vma_def after_close_def free_entry_def new_entry_def mapped_def upd_entry_def upd_dev_def upd_pci_def
    get_device_def put_device_def list_del_def
  have "filter (\<lambda>x. x \<noteq> e) (memlist dv) = memlist dv" if "devs k d' = Some dv" for d' dv
    using new [of d'] that by (auto simp: mlist_def filter_id_conv)
  then show "devs ?k = devs k"
    by (auto simp: defs fun_eq_iff map_option_case split: option.split)
  show "entries ?k = entries k" "coherent ?k = coherent k" "vmas ?k = vmas k" "vm_pages ?k = vm_pages k"
    using fresh by (simp_all add: defs fun_upd_idem)
  show "pci ?k = pci k" by (simp add: defs fun_upd_idem)
qed (simp_all add: k1 unmap_vma_def after_close_def free_entry_def new_entry_def mapped_def upd_entry_def upd_dev_def upd_pci_def
    get_device_def put_device_def list_del_def)

lemma munmap_mapped:
  assumes inv: "drv_inv k" and dv: "devs k d = Some dv" and fresh: "entries k e = None" "coherent k va = None" "vmas k (unat a) = None"
    and k1: "k1 = upd_entry e (\<lambda>x. x\<lparr>release_requested := True\<rparr>) (mapped d p e (unat a) va da sz off k)"
    and run: "drv_munmap a sz (r, k1) = (res, r', k')"
  shows "k' = k"
proof -
  let ?x = "(new_entry d p sz da va)\<lparr>release_requested := True\<rparr>"
  have inv1: "drv_inv k1" unfolding k1 by (intro drv_inv_release drv_inv_mapped [OF inv dv fresh])
  have v: "vmas k1 (unat a) = Some e" and x: "entries k1 e = Some ?x"
    by (simp_all add: k1 mapped_simps entries_upd)
  have "k' = unmap_vma (unat a) (after_close (unat a) e ?x k1)"
    using run dma_vma_close_eq [OF inv1 v x] v by (simp add: drv_munmap_def)
  moreover have "e \<notin> mlist k d'" for d' using drv_invD(4) [OF inv, of e d'] fresh(1) by (simp add: own_def)
  moreover have "vm_pages k (unat a) = None" using drv_invD(8) [OF inv] fresh(3) by (metis domIff)
  ultimately show ?thesis using mapped_free [OF _ fresh _ k1] by simp
qed

text \<open>
  C23: The DMA interface on the driver, from allocation to release: a valid result of \<^verbatim>\<open>alloc_dma\<close> names
  the kernel and bus address of exactly the buffer that the driver mapped at the returned user
  address, with the requested length, that the mapping shows that buffer, and that the device has one
  more reference; and \<^verbatim>\<open>free_dma\<close> then takes the whole state of the driver back to the state before, with
  the entry, the buffer, the mapping, the place on the device's list and the reference gone.
\<close>

theorem alloc_free_on_driver:
  assumes "reachable (sys w)" and "mmap_fresh (alloc (sys w)) (sys w)" and "page_length len"
    and "files (sys w) (nat fd) = Some d" and "\<And>a. uaddr (sys w) = Some a \<Longrightarrow> vmas (sys w) (unat a) = None"
    and "alloc_dma (drv_env alloc uaddr B) fd len w = (m, w1)" and "mem_valid m"
    and "free_dma (drv_env alloc uaddr B) m w1 = (m', w2)"
  shows "(\<exists>e x. vmas (sys w1) (unat (user_virtaddr m)) = Some e \<and> entries (sys w1) e = Some x
      \<and> virt_addr x = kernel_virtaddr m \<and> entry_dma x = dma_addr m \<and> entry_size x = len \<and> mem_size m = len
      \<and> vm_pages (sys w1) (unat (user_virtaddr m)) = Some (Maps_Buffer (kernel_virtaddr m) len)
      \<and> dev_refs (pci (sys w1) (entry_dev x)) = dev_refs (pci (sys w) (entry_dev x)) + 1)
    \<and> sys w2 = sys w"
proof -
  let ?k = "sys w"
  obtain dv e va da where dv: "devs ?k d = Some dv" and e: "kzalloc_entry (alloc ?k) = Some e"
    and va: "alloc_coherent (alloc ?k) = Some (va, da)" and ua: "uaddr ?k = Some (user_virtaddr m)"
    and m: "m = \<lparr>mem_fd = fd, kernel_virtaddr = va, user_virtaddr = user_virtaddr m, dma_addr = da, mem_size = len\<rparr>"
    and k1: "sys w1 = mapped d (pdev dv) e (unat (user_virtaddr m)) va da len 0 ?k"
    by (rule alloc_dma_drv [OF assms(6,7,4,3)])
  have mf: "mem_fd m = fd" "kernel_virtaddr m = va" "dma_addr m = da" "mem_size m = len" by (subst m, simp)+
  have fresh: "entries ?k e = None" "coherent ?k va = None" "vmas ?k (unat (user_virtaddr m)) = None"
    using assms(2) e va assms(5) [OF ua] by (simp_all add: mmap_fresh_def)
  define k2 where "k2 = upd_entry e (\<lambda>x. x\<lparr>release_requested := True\<rparr>) (sys w1)"
  have "drv_release (mem_fd m) m (ram w1, sys w1) = (None, ram w1, k2)"
    unfolding k2_def k1 mf(1) by (rule release_mapped [OF assms(4) dv mf(2,3)])
  moreover obtain res r' k' where un: "drv_munmap (user_virtaddr m) len (ram w1, k2) = (res, r', k')" by (rule prod_cases3)
  ultimately have "sys w2 = k'" using free_dma_sys [OF assms(7,8)] by (simp add: mf)
  with munmap_mapped [OF drv_inv_reachable [OF assms(1)] dv fresh k2_def [unfolded k1] un]
  have "sys w2 = ?k" by simp
  moreover have "vm_pages (sys w1) (unat (user_virtaddr m)) = Some (Maps_Buffer va len)"
    "dev_refs (pci (sys w1) (pdev dv)) = dev_refs (pci ?k (pdev dv)) + 1"
    by (simp_all add: k1 mapped_def map_pages_def upd_dev_def upd_pci_def get_device_def)
  moreover have "vmas (sys w1) (unat (user_virtaddr m)) = Some e" "entries (sys w1) e = Some (new_entry d (pdev dv) len da va)"
    by (simp_all add: k1 mapped_simps)
  ultimately show ?thesis by (simp add: mf new_entry_def)
qed

definition session_env :: "kernel env" where
  "session_env = drv_env (\<lambda>_. mmap_ok 200 0xffff1000 0x70001000) (\<lambda>_. Some 0x10000) idle_env"

definition session_world :: "kernel world" where
  "session_world = \<lparr>errno = 0, trace = [], ram = (\<lambda>_. 0), sys = open_session\<rparr>"

lemma session_alloc:
  "alloc_dma session_env 3 0x2000 session_world =
     (\<lparr>mem_fd = 3, kernel_virtaddr = 0xffff1000, user_virtaddr = 0x10000, dma_addr = 0x70001000, mem_size = 0x2000\<rparr>,
      session_world\<lparr>trace := [Ev_Mmap 3 0x10000 0x2000], sys := map_session\<rparr>)"
proof -
  have "files open_session (nat 3) = Some 100" "devs open_session 100 \<noteq> None"
    by (simp_all add: map_session_fields open_session_def upd_dev_def bound_session_fields)
  then obtain dv where dv: "files open_session (nat 3) = Some 100" "devs open_session 100 = Some dv" by blast
  have "drv_meminfo 3 (\<lambda>_. 0, map_session) =
      (Inr (mem_zero\<lparr>dma_addr := 0x70001000, kernel_virtaddr := 0xffff1000, mem_size := 0x2000\<rparr>), \<lambda>_. 0, map_session)"
    unfolding map_session_def by (rule drv_meminfo_mapped [OF dv])
  moreover have "drv_mmap (\<lambda>_. mmap_ok 200 0xffff1000 0x70001000) (\<lambda>_. Some 0x10000) idle_env 3 0x2000 (\<lambda>_. 0, open_session)
      = (Inr 0x10000, \<lambda>_. 0, map_session)"
    using dv mmap_session by (simp add: drv_mmap_def page_align_def)
  ultimately show ?thesis
    by (simp add: alloc_dma_def c_mmap_def c_ioctl_get_meminfo_def hw_act_def emit_def session_env_def drv_env_calls
        session_world_def MAP_FAILED_def mem_zero_def)
qed

theorem alloc_free_on_driver_witness:
  "\<exists>m w1 m' w2. alloc_dma session_env 3 0x2000 session_world = (m, w1) \<and> free_dma session_env m w1 = (m', w2)
     \<and> coherent (sys w1) \<noteq> Map.empty \<and> sys w2 = open_session"
proof -
  obtain m w1 where al: "alloc_dma session_env 3 0x2000 session_world = (m, w1)" by (rule prod.exhaust)
  obtain m' w2 where fr: "free_dma session_env m w1 = (m', w2)" by (rule prod.exhaust)
  have mv: "mem_valid m" using al unfolding session_alloc by (auto simp: mem_valid_def)
  have pl: "page_length 0x2000" by (simp add: page_length_def)
  have s: "sys session_world = open_session" by (simp add: session_world_def)
  have "vmas open_session v = None" for v
    by (simp_all add: open_session_def bound_session_fields)
  then have "sys w2 = open_session"
    using alloc_free_on_driver [of session_world "\<lambda>_. mmap_ok 200 0xffff1000 0x70001000" "0x2000" 3 100 "\<lambda>_. Some 0x10000" idle_env m w1 m' w2]
      reachable_open mmap_fresh_session pl mv al fr
    by (simp add: s session_env_def map_session_fields)
  moreover have "coherent (sys w1) \<noteq> Map.empty"
    using al unfolding session_alloc by (auto simp: map_session_def mapped_simps)
  ultimately show ?thesis using al fr by blast
qed

end
