(* ===== verification/Driver_Race.thy ===== *)
theory Driver_Race
  imports Driver_Inv
begin

text \<open>
  The driver with the parts of its callbacks interleaved. \<^verbatim>\<open>dma_vma_close\<close> reads the device pointer of the
  entry, then takes the lock of that device, then works under it; \<^verbatim>\<open>genpci_remove\<close> detaches the entries
  under the lock and frees the device later. Between any two of these steps other callbacks run, and other
  threads may be anywhere in theirs. Proved: which closes are safe, and two runs in which a close touches
  a device that \<^verbatim>\<open>genpci_remove\<close> has freed.

  The other callbacks are single steps: \<^verbatim>\<open>dma_vma_open\<close> is one atomic increment, \<^verbatim>\<open>genpci_ioctl\<close> one critical
  section, and what \<^verbatim>\<open>mmap_dma\<close> does before it takes the lock concerns an entry and a buffer that nobody else
  knows yet. That file operations meet a freed device after \<^verbatim>\<open>genpci_remove\<close> is shown in \<open>Driver_Inv\<close>.
\<close>

section \<open>States\<close>

text \<open>
  A close in progress is where it has still to take the lock or where it holds it. \<open>removing\<close> has the
  removals between the detaching of the entries and the end, \<open>gone\<close> the devices that were freed. Addresses
  stand for allocations: the address of a freed device is not given out again, so that every use of a stale
  pointer is seen as a fault.
\<close>

datatype close_pc = At_Lock (pc_entry: nat) (pc_dev: "nat option") | In_Lock (pc_entry: nat) (pc_dev: "nat option")

record fine =
  kern :: kernel
  closing :: "nat \<rightharpoonup> close_pc"
  removing :: "nat \<rightharpoonup> nat"
  gone :: "nat set"

definition lock_held :: "fine \<Rightarrow> nat \<Rightarrow> bool" where
  "lock_held s d \<longleftrightarrow> (\<exists>v e. closing s v = Some (In_Lock e (Some d)))"

section \<open>Steps\<close>

text \<open>
  The callbacks that are one step. A mapping that is being removed is not duplicated, because the kernel
  does both under the lock of the address space.
\<close>

inductive call_step :: "fine \<Rightarrow> kernel \<Rightarrow> bool" where
  call_open: "genpci_open d f (kern s) = Inr (0, k') \<Longrightarrow> files (kern s) f = None \<Longrightarrow> call_step s k'"
| call_release: "genpci_close f (kern s) = Inr (0, k') \<Longrightarrow> call_step s (k'\<lparr>files := (files k')(f := None)\<rparr>)"
| call_mmap: "mmap_dma R f v a b off (kern s) = Inr (ret, k') \<Longrightarrow> vmas (kern s) v = None \<Longrightarrow> mmap_fresh R (kern s) \<Longrightarrow>
    files (kern s) f = Some d \<Longrightarrow> \<not> lock_held s d \<or> ret \<noteq> 0 \<Longrightarrow> call_step s k'"
| call_ioctl: "genpci_ioctl copy_ok f cmd (kern s) = Inr (ret, out, k') \<Longrightarrow> files (kern s) f = Some d \<Longrightarrow>
    \<not> lock_held s d \<or> cmd = IOCTL_GET_BDF \<or> cmd = IOCTL_OTHER \<Longrightarrow> call_step s k'"
| call_dup: "vmas (kern s) v = Some e \<Longrightarrow> closing s v = None \<Longrightarrow> vmas (kern s) v' = None \<Longrightarrow>
    dma_vma_open v' (dup_vma v v' (kern s)) = Inr k' \<Longrightarrow> call_step s k'"
| call_probe: "genpci_probe R p (kern s) = (ret, k') \<Longrightarrow> probe_fresh R p (kern s) \<Longrightarrow>
    (\<And>d. kzalloc_dev R = Some d \<Longrightarrow> d \<notin> gone s) \<Longrightarrow> call_step s k'"

inductive fstep :: "fine \<Rightarrow> fine \<Rightarrow> bool" where
  f_call: "call_step s k' \<Longrightarrow> fstep s (s\<lparr>kern := k'\<rparr>)"
| f_close_read: "closing s v = None \<Longrightarrow> close_read v (kern s) = Inr (e, dev) \<Longrightarrow>
    fstep s (s\<lparr>closing := (closing s)(v \<mapsto> At_Lock e dev)\<rparr>)"
| f_close_lock: "closing s v = Some (At_Lock e dev) \<Longrightarrow> close_lock dev (kern s) = Inr u \<Longrightarrow>
    (\<And>d. dev = Some d \<Longrightarrow> \<not> lock_held s d) \<Longrightarrow> fstep s (s\<lparr>closing := (closing s)(v \<mapsto> In_Lock e dev)\<rparr>)"
| f_close_rest: "closing s v = Some (In_Lock e dev) \<Longrightarrow> close_rest e dev (kern s) = Inr k' \<Longrightarrow>
    fstep s (s\<lparr>kern := unmap_vma v k', closing := (closing s)(v := None)\<rparr>)"
| f_remove_detach: "drvdata (pci (kern s) p) = Some d \<Longrightarrow> removing s p = None \<Longrightarrow> \<not> lock_held s d \<Longrightarrow>
    genpci_detach_dma_entries d (kern s) = Inr k' \<Longrightarrow> fstep s (s\<lparr>kern := k', removing := (removing s)(p \<mapsto> d)\<rparr>)"
| f_remove_finish: "removing s p = Some d \<Longrightarrow> remove_finish p d (kern s) = Inr k' \<Longrightarrow>
    fstep s (s\<lparr>kern := k', removing := (removing s)(p := None), gone := insert d (gone s)\<rparr>)"

definition fine_of :: "kernel \<Rightarrow> fine" where
  "fine_of k = \<lparr>kern = k, closing = Map.empty, removing = Map.empty, gone = {}\<rparr>"

inductive freachable :: "fine \<Rightarrow> bool" where
  f_initial: "kernel_initial k \<Longrightarrow> freachable (fine_of k)"
| f_step: "freachable s \<Longrightarrow> fstep s s' \<Longrightarrow> freachable s'"

section \<open>The invariant\<close>

text \<open>
  A device pointer that a close has read names a device that is there or that has been freed by
  \<^verbatim>\<open>genpci_remove\<close>, and the close keeps its mapping, so that the count of the entry includes it.
\<close>

definition dev_known :: "fine \<Rightarrow> nat option \<Rightarrow> bool" where
  "dev_known s dev \<longleftrightarrow> (\<forall>d. dev = Some d \<longrightarrow> d \<in> gone s \<or> devs (kern s) d \<noteq> None)"

definition finv :: "fine \<Rightarrow> bool" where
  "finv s \<longleftrightarrow> drv_inv_on (gone s) (kern s)
     \<and> (\<forall>v pc. closing s v = Some pc \<longrightarrow> vmas (kern s) v = Some (pc_entry pc) \<and> dev_known s (pc_dev pc))
     \<and> (\<forall>p d. removing s p = Some d \<longrightarrow> drvdata (pci (kern s) p) = Some d)"

lemma finvD:
  assumes "finv s"
  shows "drv_inv_on (gone s) (kern s)" "closing s v = Some pc \<Longrightarrow> vmas (kern s) v = Some (pc_entry pc)"
    "closing s v = Some pc \<Longrightarrow> dev_known s (pc_dev pc)" "removing s p = Some d \<Longrightarrow> drvdata (pci (kern s) p) = Some d"
  using assms by (simp_all add: finv_def)

text \<open>What a single-step callback leaves alone: the mappings, devices and bindings that are there.\<close>

definition keeps :: "kernel \<Rightarrow> kernel \<Rightarrow> bool" where
  "keeps k k' \<longleftrightarrow> (\<forall>v e. vmas k v = Some e \<longrightarrow> vmas k' v = Some e) \<and> (\<forall>d. devs k d \<noteq> None \<longrightarrow> devs k' d \<noteq> None)
     \<and> (\<forall>p d. drvdata (pci k p) = Some d \<longrightarrow> drvdata (pci k' p) = Some d)"

lemma finv_keeps:
  assumes "finv s" and "drv_inv_on (gone s) k'" and "keeps (kern s) k'"
  shows "finv (s\<lparr>kern := k'\<rparr>)"
  using assms unfolding finv_def keeps_def dev_known_def by simp (metis option.exhaust)

lemma keeps_upd [simp]:
  "keeps k k" "keeps k (k\<lparr>files := fs\<rparr>)" "keeps k (upd_entry e g k)" "keeps k (upd_dev d h k)"
  "keeps k ((upd_dev d h k)\<lparr>files := fs\<rparr>)" "keeps k (upd_dev d h (k\<lparr>files := fs\<rparr>))"
  by (auto simp: keeps_def upd_entry_def upd_dev_def)

lemma keeps_mapped: "vmas k v = None \<Longrightarrow> keeps k (mapped d p e v va da sz off k)"
  by (auto simp: keeps_def mapped_simps)

lemma keeps_dup:
  assumes "dma_vma_open v' (dup_vma v v' k) = Inr k'" and "vmas k v' = None"
  shows "keeps k k'"
  using assms by (auto simp: dma_vma_open_def deref_Inr dup_vma_def keeps_def split: if_splits)

lemma keeps_bound: "devs k d = None \<Longrightarrow> unbound (pci k p) \<Longrightarrow> keeps k (bound_state R p d k)"
  by (auto simp: keeps_def bound_state_def Let_def unbound_def)

lemma call_step_keeps:
  assumes "call_step s k'" and inv: "drv_inv_on (gone s) (kern s)"
  shows "drv_inv_on (gone s) k' \<and> keeps (kern s) k'"
  using assms(1)
proof cases
  case (call_open d f)
  then show ?thesis using inv by (auto simp: genpci_open_def deref_Inr)
next
  case (call_release f k1)
  then show ?thesis using inv by (auto simp: genpci_close_def deref_Inr)
next
  case (call_mmap R f v a b off ret d)
  show ?thesis
    by (rule mmap_dma_outcome [OF call_mmap(1,3)])
      (use inv drv_inv_mapped [OF inv _ _ _ call_mmap(2)] keeps_mapped [OF call_mmap(2)] in auto)
next
  case (call_ioctl copy_ok f cmd ret out d)
  then show ?thesis using ioctl_state inv drv_inv_release by (metis keeps_upd(1,3))
next
  case (call_dup v e v')
  then show ?thesis using drv_inv_dup [OF inv] keeps_dup by blast
next
  case (call_probe R p ret)
  then have "unbound (pci (kern s) p)" by (simp add: probe_fresh_def)
  with call_probe show ?thesis
    using genpci_probe_outcome [OF call_probe(1,2)] drv_inv_bound [OF inv] keeps_bound inv by (metis keeps_upd(1))
qed

text \<open>The two halves of a removal.\<close>

lemma drv_inv_detached:
  assumes inv: "drv_inv_on G k" and d: "devs k d = Some dv"
  shows "drv_inv_on G (detached (mlist k d) k)" (is "drv_inv_on G ?k")
proof (rule drv_invI)
  note inv' = drv_invD [OF inv]
  have "d \<notin> G" using inv'(9) d by fastforce
  then have S: "e \<in> mlist k d \<longleftrightarrow> own k e = Some d" for e using inv'(4) [of e d] by simp
  have o: "buf ?k = buf k" "dom (entries ?k) = dom (entries k)" "own ?k e = (if e \<in> mlist k d then None else own k e)" for e
    by (auto simp: fun_eq_iff buf_def own_def detached_def map_option_upd_id bind_upd_None dom_def)
  have "devs ?k d' = map_option (\<lambda>dv. dv\<lparr>memlist := filter (\<lambda>x. x \<notin> mlist k d) (memlist dv)\<rparr>) (devs k d')" for d'
    by (simp add: detached_def)
  then have w: "mlist ?k d' = mlist k d' - mlist k d" for d'
    by (auto simp: mlist_def [of ?k] mlist_def [of k d'] split: option.splits)
  have b: "bound_to ?k = bound_to k" by (simp add: fun_eq_iff bound_to_def detached_def map_option_upd_id)
  have r: "refs_of ?k = refs_of k" by (rule view_cong(1)) simp
  show "finite (dom (vmas ?k))" "ran (vmas ?k) \<subseteq> dom (entries ?k)" "dom (coherent ?k) \<subseteq> ran (buf ?k)"
    "dom (vm_pages ?k) = dom (vmas ?k)"
    using inv'(1,2,5,8) by (simp_all add: o)
  show "entry_ok ?k e x" if x: "entries ?k e = Some x" for e x
  proof -
    from x obtain y where y: "entries k e = Some y"
      "x = y \<or> x = y\<lparr>listed := False, pgenpci_dev := None, release_requested := True\<rparr>"
      by (auto simp: detached_def split: if_splits)
    show ?thesis using inv'(3) [OF y(1)] y(2) by (auto simp: entry_ok_def r)
  qed
  show "own ?k e = Some d' \<and> d' \<notin> G \<longleftrightarrow> e \<in> mlist ?k d'" for e d'
    using inv'(4) [of e d'] S [of e] by (auto simp: o w)
  show "y = z" if "buf ?k y = Some c" "buf ?k z = Some c" for y z c using that inv'(6) by (simp add: o)
  show "bound_to ?k d' = Some q" if "drvdata (pci ?k q) = Some d'" for q d' using that inv'(7) by (simp add: b)
  show "devs ?k d' = None" if "d' \<in> G" for d' using inv'(9) [OF that] by (simp add: detached_def)
qed

lemma drv_inv_finish:
  assumes inv: "drv_inv_on G k" and bnd: "drvdata (pci k p) = Some d"
    and en: "entries k' = entries k" and vm: "vmas k' = vmas k" "vm_pages k' = vm_pages k"
    and co: "coherent k' = coherent k" and dv: "devs k' = (devs k)(d := None)"
    and dd: "\<And>q. drvdata (pci k' q) = (if q = p then None else drvdata (pci k q))"
  shows "drv_inv_on (insert d G) k'"
proof (rule drv_invI)
  note inv' = drv_invD [OF inv]
  have o: "buf k' = buf k" "own k' = own k" by (rule view_cong(2,3) [OF en])+
  have r: "refs_of k' = refs_of k" by (rule view_cong(1) [OF vm(1)])
  have w: "mlist k' d' = (if d' = d then {} else mlist k d')" for d' by (simp add: mlist_def dv)
  have b: "bound_to k' = (bound_to k)(d := None)" by (simp add: fun_eq_iff bound_to_def dv)
  show "finite (dom (vmas k'))" "ran (vmas k') \<subseteq> dom (entries k')" "dom (coherent k') \<subseteq> ran (buf k')"
    "dom (vm_pages k') = dom (vmas k')"
    using inv'(1,2,5,8) by (simp_all add: o en vm co)
  show "entry_ok k' e x" if "entries k' e = Some x" for e x
    using that inv'(3) [of e x] by (simp add: en entry_ok_def r co)
  show "own k' e = Some d' \<and> d' \<notin> insert d G \<longleftrightarrow> e \<in> mlist k' d'" for e d'
    using inv'(4) [of e d'] by (auto simp: o w)
  show "y = z" if "buf k' y = Some c" "buf k' z = Some c" for y z c using that inv'(6) by (simp add: o)
  show "bound_to k' d' = Some q" if "drvdata (pci k' q) = Some d'" for q d'
    using that inv'(7) [of q d'] inv'(7) [OF bnd] by (auto simp: dd b split: if_splits)
  show "devs k' d' = None" if "d' \<in> insert d G" for d' using that inv'(9) [of d'] by (auto simp: dv)
qed

lemma finv_step:
  assumes "fstep s s'" and inv: "finv s"
  shows "finv s'"
  using assms(1)
proof cases
  case (f_call k')
  then show ?thesis using call_step_keeps [OF f_call(2) finvD(1) [OF inv]] finv_keeps [OF inv] by simp
next
  case (f_close_read v e dev)
  have e: "vmas (kern s) v = Some e" and x: "\<exists>x. entries (kern s) e = Some x \<and> dev = pgenpci_dev x"
    using f_close_read(3) by (auto simp: close_read_def deref_Inr)
  have "dev_known s dev"
    using vma_entry [OF finvD(1) [OF inv] e] x unfolding dev_known_def by (metis option.inject)
  with e inv show ?thesis by (auto simp: f_close_read(1) finv_def dev_known_def)
next
  case (f_close_lock v e dev u)
  then show ?thesis
    using finvD(2,3) [OF inv f_close_lock(2)] inv by (auto simp: finv_def dev_known_def)
next
  case (f_close_rest v e dev k')
  note i = finvD(1) [OF inv]
  have e: "vmas (kern s) v = Some e" using finvD(2) [OF inv f_close_rest(2)] by simp
  obtain x where x: "entries (kern s) e = Some x" by (rule vma_entry [OF i e])
  have k': "k' = after_close v e x (kern s)"
    using f_close_rest(3) close_rest_eq [OF i e x, of dev] by (simp split: if_splits)
  have a: "vmas (unmap_vma v k') = (vmas (kern s))(v := None)"
    "drvdata (pci (unmap_vma v k') p) = drvdata (pci (kern s) p)"
    "devs (unmap_vma v k') d = None \<longleftrightarrow> devs (kern s) d = None" for p d
    by (auto simp: k' unmap_vma_def after_close_def free_entry_fields list_del_def)
  show ?thesis
    using drv_inv_unmap [OF i e x] inv by (auto simp: f_close_rest(1) k' [symmetric] finv_def dev_known_def a)
next
  case (f_remove_detach p d k')
  note i = finvD(1) [OF inv]
  obtain dv where dv: "devs (kern s) d = Some dv" using drv_invD(7) [OF i f_remove_detach(2)] by (auto simp: bound_to_def)
  have k': "k' = detached (mlist (kern s) d) (kern s)" using f_remove_detach(5) detach_entries_eq [OF i dv] by simp
  have "devs k' d' = None \<longleftrightarrow> devs (kern s) d' = None" for d' by (simp add: k' detached_def)
  then show ?thesis
    using drv_inv_detached [OF i dv] inv f_remove_detach(2)
    by (auto simp: f_remove_detach(1) finv_def dev_known_def k')
next
  case (f_remove_finish p d k')
  note i = finvD(1) [OF inv] and b = finvD(4) [OF inv f_remove_finish(2)]
  obtain dv where dv: "devs (kern s) d = Some dv" using drv_invD(7) [OF i b] by (auto simp: bound_to_def)
  have "entries k' = entries (kern s) \<and> vmas k' = vmas (kern s) \<and> vm_pages k' = vm_pages (kern s)
      \<and> coherent k' = coherent (kern s) \<and> devs k' = (devs (kern s))(d := None)
      \<and> (\<forall>q. drvdata (pci k' q) = (if q = p then None else drvdata (pci (kern s) q)))"
    by (rule remove_finish_outcome [OF dv, of p]) (use f_remove_finish(3) in auto)
  then show ?thesis
    using drv_inv_finish [OF i b, of k'] inv by (auto simp: f_remove_finish(1) finv_def dev_known_def)
qed

lemma finv_freachable: "freachable s \<Longrightarrow> finv s"
proof (induction rule: freachable.induct)
  case (f_initial k)
  then have "drv_inv k" by (intro drv_inv_reachable reachable.initial)
  then show ?case by (simp add: finv_def fine_of_def)
next
  case (f_step s s')
  then show ?case using finv_step by blast
qed

section \<open>Properties\<close>

text \<open>The device pointer that a close of the mapping has read, or would read now.\<close>

definition dev_seen :: "fine \<Rightarrow> nat \<Rightarrow> nat option" where
  "dev_seen s v =
     (case closing s v of Some pc \<Rightarrow> pc_dev pc
      | None \<Rightarrow> (case close_read v (kern s) of Inr (e, dev) \<Rightarrow> dev | Inl _ \<Rightarrow> None))"

lemma dev_freed_iff:
  assumes "finv s" and "dev_known s dev"
  shows "dev_freed dev (kern s) \<longleftrightarrow> (\<exists>d\<in>gone s. dev = Some d)"
  using assms drv_invD(9) [OF finvD(1) [OF assms(1)]] by (auto simp: dev_freed_def dev_known_def)

lemma dev_seen_known:
  assumes inv: "finv s" and v: "vmas (kern s) v = Some e"
  shows "dev_known s (dev_seen s v)"
proof (cases "closing s v")
  case None
  obtain x where x: "entries (kern s) e = Some x" "\<And>d. pgenpci_dev x = Some d \<Longrightarrow> d \<notin> gone s \<Longrightarrow> devs (kern s) d \<noteq> None"
    by (rule vma_entry [OF finvD(1) [OF inv] v]) blast
  have "dev_seen s v = pgenpci_dev x" using None v x(1) by (simp add: dev_seen_def close_read_def deref_def)
  with x(2) show ?thesis unfolding dev_known_def by metis
next
  case (Some pc)
  with finvD(3) [OF inv Some] show ?thesis by (simp add: dev_seen_def)
qed

text \<open>
  C17: In every state that the interleaved parts of the callbacks can reach, the removal of a mapping finds
  its entry allocated and its count equal to the number of mappings, this one included, wherever the
  callback is. If the device whose pointer it has read (or would read now) has been freed by
  \<^verbatim>\<open>genpci_remove\<close>, both the lock and the unlock use freed memory. In every other case, so in particular
  as long as no device has been removed, taking the lock and the rest succeed, and the DMA buffer is freed
  exactly if this was its last mapping.
\<close>

theorem close_safe_unless_removed:
  assumes "freachable s" and "vmas (kern s) v = Some e"
  shows "\<exists>x. entries (kern s) e = Some x \<and> vma_refs x = refs_of (kern s) e \<and> 0 < vma_refs x
    \<and> close_read v (kern s) = Inr (e, pgenpci_dev x)
    \<and> (case closing s v of None \<Rightarrow> True | Some pc \<Rightarrow> pc_entry pc = e)
    \<and> (if \<exists>d\<in>gone s. dev_seen s v = Some d
       then close_lock (dev_seen s v) (kern s) = Inl Use_After_Free
          \<and> close_rest e (dev_seen s v) (kern s) = Inl Use_After_Free
       else close_lock (dev_seen s v) (kern s) = Inr ()
          \<and> (\<exists>k'. close_rest e (dev_seen s v) (kern s) = Inr k'
              \<and> (coherent k' (virt_addr x) = None \<longleftrightarrow> (\<forall>v'. v' \<noteq> v \<longrightarrow> vmas (kern s) v' \<noteq> Some e))))"
proof -
  note inv = finv_freachable [OF assms(1)]
  note i = finvD(1) [OF inv]
  obtain x where x: "entries (kern s) e = Some x" "vma_refs x = refs_of (kern s) e" "0 < vma_refs x"
    by (rule vma_entry [OF i assms(2)])
  have "close_read v (kern s) = Inr (e, pgenpci_dev x)" using assms(2) x(1) by (simp add: close_read_def deref_def)
  moreover have "case closing s v of None \<Rightarrow> True | Some pc \<Rightarrow> pc_entry pc = e"
    using finvD(2) [OF inv] assms(2) by (auto split: option.splits)
  ultimately show ?thesis
    using x close_rest_eq [OF i assms(2) x(1)] last_close_frees [OF i assms(2) x(1)]
      dev_freed_iff [OF inv dev_seen_known [OF inv assms(2)]]
    by (simp add: close_lock_def)
qed

section \<open>Two races with \<^verbatim>\<open>genpci_remove\<close>\<close>

text \<open>A removal can run to its end whenever the lock is free, whatever other callbacks are in progress.\<close>

lemma fine_detach:
  assumes "freachable s" and "drvdata (pci (kern s) p) = Some d" and "removing s p = None" and "\<not> lock_held s d"
  shows "freachable (s\<lparr>kern := detached (mlist (kern s) d) (kern s), removing := (removing s)(p \<mapsto> d)\<rparr>)"
proof -
  note i = finvD(1) [OF finv_freachable [OF assms(1)]]
  obtain dv where "devs (kern s) d = Some dv" using drv_invD(7) [OF i assms(2)] by (auto simp: bound_to_def)
  then show ?thesis by (intro f_step [OF assms(1) f_remove_detach [OF assms(2-4)]] detach_entries_eq [OF i])
qed

lemma fine_finish:
  assumes "freachable s" and "removing s p = Some d"
  obtains s' where "freachable s'" "closing s' = closing s" "gone s' = insert d (gone s)"
    "vmas (kern s') = vmas (kern s)" "entries (kern s') = entries (kern s)"
proof -
  note inv = finv_freachable [OF assms(1)]
  obtain dv where dv: "devs (kern s) d = Some dv"
    using drv_invD(7) [OF finvD(1) [OF inv] finvD(4) [OF inv assms(2)]] by (auto simp: bound_to_def)
  then obtain k' where k': "remove_finish p d (kern s) = Inr k'" "vmas k' = vmas (kern s)" "entries k' = entries (kern s)"
    by (rule remove_finish_outcome [where p = p])
  show thesis by (rule that [OF f_step [OF assms(1) f_remove_finish [OF assms(2) k'(1)]]]) (simp_all add: k')
qed

text \<open>
  From any state with a mapping of a bound device: a close reads the device pointer, the device is
  removed, and the close takes a lock in freed memory.
\<close>

lemma close_races_with_remove:
  assumes "freachable s" and "vmas (kern s) v = Some e" and "own (kern s) e = Some d" and "closing s v = None"
    and "drvdata (pci (kern s) p) = Some d" and "removing s p = None" and "\<not> lock_held s d"
  shows "\<exists>s'. freachable s' \<and> closing s' v = Some (At_Lock e (Some d)) \<and> close_lock (Some d) (kern s') = Inl Use_After_Free"
proof -
  obtain x where x: "entries (kern s) e = Some x" "pgenpci_dev x = Some d"
    using assms(3) by (auto simp: own_def bind_eq_Some_conv)
  then have rd: "close_read v (kern s) = Inr (e, Some d)" using assms(2) by (simp add: close_read_def deref_def)
  let ?s1 = "s\<lparr>closing := (closing s)(v \<mapsto> At_Lock e (Some d))\<rparr>"
  have "freachable ?s1" by (rule f_step [OF assms(1) f_close_read [OF assms(4) rd]])
  moreover have "\<not> lock_held ?s1 d" using assms(7) by (auto simp: lock_held_def)
  ultimately obtain s2 where s2: "freachable s2" "closing s2 = closing ?s1" "removing s2 p = Some d"
    using fine_detach [of ?s1 p d] assms(5,6) by fastforce
  obtain s' where s': "freachable s'" "closing s' = closing s2" "gone s' = insert d (gone s2)"
    by (rule fine_finish [OF s2(1,3)])
  have "devs (kern s') d = None" using drv_invD(9) [OF finvD(1) [OF finv_freachable [OF s'(1)]]] s'(3) by simp
  then show ?thesis using s' s2 by (intro exI [of _ s']) (simp add: close_lock_def dev_freed_def)
qed

text \<open>
  An entry that is mapped between the detaching and the end of the removal keeps a pointer to the freed
  device: its close faults however late it comes.
\<close>

lemma mmap_races_with_remove:
  assumes "freachable s" and "removing s p = Some d" and "files (kern s) f = Some d" and "\<not> lock_held s d"
    and "vmas (kern s) v = None" and "mmap_fresh R (kern s)" and "mmap_dma R f v a b off (kern s) = Inr (0, k1)"
  shows "\<exists>s' e. freachable s' \<and> removing s' p = None \<and> close_read v (kern s') = Inr (e, Some d)
    \<and> close_lock (Some d) (kern s') = Inl Use_After_Free"
proof -
  let ?s1 = "s\<lparr>kern := k1\<rparr>"
  have r1: "freachable ?s1"
    by (rule f_step [OF assms(1) f_call [OF call_mmap [OF assms(7,5,6,3)]]]) (simp add: assms(4))
  obtain d' q e va da where e: "files (kern s) f = Some d'" "k1 = mapped d' q e v va da (page_align (b - a)) off (kern s)"
    by (rule mmap_dma_ok [OF assms(7)]) blast
  then have k1: "vmas k1 v = Some e" "own k1 e = Some d" using assms(3) by (simp_all add: mapped_simps own_def new_entry_def)
  note inv = finv_freachable [OF r1]
  have b: "drvdata (pci k1 p) = Some d" using finvD(4) [OF inv, of p d] assms(2) by simp
  then obtain dv' where "devs k1 d = Some dv'" using drv_invD(7) [OF finvD(1) [OF inv], of p d] by (auto simp: bound_to_def)
  then obtain k' where k': "remove_finish p d k1 = Inr k'" "vmas k' = vmas k1" "entries k' = entries k1" "devs k' = (devs k1)(d := None)"
    by (rule remove_finish_outcome [where p = p])
  let ?s2 = "?s1\<lparr>kern := k', removing := (removing s)(p := None), gone := insert d (gone s)\<rparr>"
  have "freachable ?s2" using f_step [OF r1 f_remove_finish [of ?s1 p d k']] assms(2) k'(1) by simp
  moreover have "close_read v k' = Inr (e, Some d)"
    using k1 k' by (auto simp: close_read_def deref_def own_def bind_eq_Some_conv)
  ultimately show ?thesis using k'(4) by (intro exI [of _ ?s2] exI [of _ e]) (simp add: close_lock_def dev_freed_def)
qed

section \<open>A session\<close>

lemma freachable_call: "freachable s \<Longrightarrow> call_step s k' \<Longrightarrow> freachable (s\<lparr>kern := k'\<rparr>)"
  by (rule f_step [OF _ f_call])

lemma fine_of_call: "freachable (fine_of k) \<Longrightarrow> call_step (fine_of k) k' \<Longrightarrow> freachable (fine_of k')"
  using freachable_call [of "fine_of k" k'] by (simp add: fine_of_def)

lemma fine_of_simps [simp]:
  "kern (fine_of k) = k" "closing (fine_of k) = Map.empty" "removing (fine_of k) = Map.empty" "gone (fine_of k) = {}"
  "\<not> lock_held (fine_of k) d"
  by (simp_all add: fine_of_def lock_held_def)

lemma freachable_map: "freachable (fine_of map_session)"
proof -
  have "freachable (fine_of load_state)"
    by (rule f_initial) (simp add: kernel_initial_def load_state_def unbound_def)
  then have "freachable (fine_of bound_session)"
    by (rule fine_of_call) (rule call_probe [of probe_ok 0 _ 0], simp_all add: probe_session probe_fresh_session)
  moreover define k1 where "k1 = upd_dev 100 (\<lambda>x. x\<lparr>is_open := True\<rparr>) (bound_session\<lparr>files := [3 \<mapsto> 100]\<rparr>)"
  moreover have "genpci_open 100 3 bound_session = Inr (0, k1)"
    by (simp add: genpci_open_def deref_def bound_session_fields k1_def Let_def)
  ultimately have "freachable (fine_of k1)"
    using fine_of_call [OF _ call_open [of 100 3 "fine_of bound_session"]] by (simp add: bound_session_fields)
  moreover have "genpci_open 100 4 k1 = Inr (0, open_session)"
    by (simp add: genpci_open_def deref_def k1_def open_session_def upd_dev_def bound_session_fields Let_def fun_upd_twist)
  ultimately have "freachable (fine_of open_session)"
    using fine_of_call [OF _ call_open [of 100 4 "fine_of k1"]] by (simp add: k1_def)
  moreover have "call_step (fine_of open_session) map_session"
    using call_mmap [of "mmap_ok 200 0xffff1000 0x70001000" 3 "0x10000" "0x10000" "0x12000" 0 "fine_of open_session" 0 map_session 100]
      mmap_session mmap_fresh_session
    by (simp add: map_session_fields) (simp add: open_session_def bound_session_fields)
  ultimately show ?thesis by (rule fine_of_call)
qed

text \<open>The close of the session's mapping succeeds when it runs now and faults when the removal comes in between.\<close>

theorem close_safe_unless_removed_witness:
  "(\<exists>k'. close_rest 200 (dev_seen (fine_of map_session) 0x10000) map_session = Inr k')
    \<and> (\<exists>s. freachable s \<and> vmas (kern s) 0x10000 = Some 200 \<and> gone s \<noteq> {} \<and> close_lock (dev_seen s 0x10000) (kern s) = Inl Use_After_Free)"
proof
  have v: "vmas (kern (fine_of map_session)) 0x10000 = Some 200" by (simp add: map_session_fields)
  show "\<exists>k'. close_rest 200 (dev_seen (fine_of map_session) 0x10000) map_session = Inr k'"
    using close_safe_unless_removed [OF freachable_map v] by auto
  have "own map_session 200 = Some 100" by (simp add: own_def map_session_def mapped_simps new_entry_def)
  then obtain s where s: "freachable s" "closing s 0x10000 = Some (At_Lock 200 (Some 100))" "close_lock (Some 100) (kern s) = Inl Use_After_Free"
    using close_races_with_remove [OF freachable_map v, of 100 0] by (auto simp: map_session_fields)
  have vs: "vmas (kern s) 0x10000 = Some 200" using finvD(2) [OF finv_freachable [OF s(1)] s(2)] by simp
  have d: "dev_seen s 0x10000 = Some 100" using s(2) by (simp add: dev_seen_def)
  have "gone s \<noteq> {}"
  proof
    assume "gone s = {}"
    then have "close_lock (dev_seen s 0x10000) (kern s) = Inr ()" using close_safe_unless_removed [OF s(1) vs] by auto
    with s(3) d show False by simp
  qed
  with s vs d show "\<exists>s. freachable s \<and> vmas (kern s) 0x10000 = Some 200 \<and> gone s \<noteq> {}
      \<and> close_lock (dev_seen s 0x10000) (kern s) = Inl Use_After_Free" by auto
qed

end
