(* ===== verification/Pci_Access.thy ===== *)
theory Pci_Access
  imports Resource
begin

text \<open>
  \<^verbatim>\<open>tools/lib/pci_access.c\<close>: reading and writing PCI configuration space through sysfs. The transfer
  loops restart after an interrupt and continue after a short transfer, so they need not end; they
  are partial functions into \<open>option\<close>, where not returning is \<open>None\<close>. The buffer of a read is the list of the
  bytes stored so far, and \<open>None\<close> for the buffer is the null pointer.
\<close>

section \<open>Operations\<close>

definition pci_config_bdf_is_valid :: "u8 \<Rightarrow> u8 \<Rightarrow> bool" where
  "pci_config_bdf_is_valid dev func \<longleftrightarrow> dev < 32 \<and> func < 8"

definition PCIE_CONFIG_SPACE_SIZE :: u32 where
  "PCIE_CONFIG_SPACE_SIZE = 4096"

definition pci_config_range_is_valid :: "u16 \<Rightarrow> u64 \<Rightarrow> bool" where
  "pci_config_range_is_valid offset sz \<longleftrightarrow>
     ucast offset < PCIE_CONFIG_SPACE_SIZE \<and> sz \<le> ucast (PCIE_CONFIG_SPACE_SIZE - ucast offset)"

definition pci_sysfs_config_path :: "u8 \<Rightarrow> u8 \<Rightarrow> u8 \<Rightarrow> string" where
  "pci_sysfs_config_path bus dev func =
     ''/sys/bus/pci/devices/0000:'' @ fmt_02x bus @ '':'' @ fmt_02x dev @ ''.'' @ fmt_u (unat func) @ ''/config''"

definition open_pci_config :: "'s env \<Rightarrow> u8 \<Rightarrow> u8 \<Rightarrow> u8 \<Rightarrow> 's world \<Rightarrow> int \<times> 's world" where
  "open_pci_config E bus dev func w =
     (if \<not> pci_config_bdf_is_valid dev func then (-1, w\<lparr>errno := EINVAL\<rparr>)
      else let path = pci_sysfs_config_path bus dev func in
        if length path \<ge> 128 then (-1, w\<lparr>errno := ENAMETOOLONG\<rparr>)
        else case c_open E path [O_RDWR, O_CLOEXEC] w of (fd, w) \<Rightarrow>
          if fd < 0 \<and> errno w = EACCES then c_open E path [O_RDONLY, O_CLOEXEC] w
          else (fd, w))"

text \<open>The end of both functions.\<close>

definition finish_config :: "'s env \<Rightarrow> int \<Rightarrow> 's world \<Rightarrow> int \<times> 's world" where
  "finish_config E fd w = (case c_close E fd w of (r, w) \<Rightarrow> if r < 0 then (-1, w) else (0, w))"

partial_function (option) read_loop ::
  "'s env \<Rightarrow> int \<Rightarrow> nat \<Rightarrow> nat \<Rightarrow> u8 list \<Rightarrow> 's world \<Rightarrow> (int \<times> u8 list \<times> 's world) option" where
  "read_loop E fd offset sz pos w =
     (if length pos < sz then
        (case hw_act (sys_pread E fd (sz - length pos) (offset + length pos)) w of (res, w) \<Rightarrow>
         (case res of
            Inl e \<Rightarrow>
              (if e = EINTR then read_loop E fd offset sz pos (w\<lparr>errno := e\<rparr>)
               else Some (-1, pos, snd (c_close E fd (w\<lparr>errno := e\<rparr>))))
          | Inr bs \<Rightarrow>
              (if bs = [] then Some (-1, pos, (snd (c_close E fd w))\<lparr>errno := EIO\<rparr>)
               else read_loop E fd offset sz (pos @ bs) w)))
      else (case finish_config E fd w of (r, w) \<Rightarrow> Some (r, pos, w)))"

definition pci_config_read ::
  "'s env \<Rightarrow> u8 \<Rightarrow> u8 \<Rightarrow> u8 \<Rightarrow> u16 \<Rightarrow> bool \<Rightarrow> u64 \<Rightarrow> 's world \<Rightarrow> (int \<times> u8 list \<times> 's world) option" where
  "pci_config_read E bus dev func offset buf_null sz w =
     (if (buf_null \<and> sz > 0) \<or> \<not> pci_config_range_is_valid offset sz then Some (-1, [], w\<lparr>errno := EINVAL\<rparr>)
      else case open_pci_config E bus dev func w of (fd, w) \<Rightarrow>
        if fd < 0 then Some (-1, [], w)
        else read_loop E fd (unat offset) (unat sz) [] w)"

partial_function (option) write_loop ::
  "'s env \<Rightarrow> int \<Rightarrow> nat \<Rightarrow> u8 list \<Rightarrow> nat \<Rightarrow> 's world \<Rightarrow> (int \<times> 's world) option" where
  "write_loop E fd offset pos don w =
     (if don < length pos then
        (case hw_act (sys_pwrite E fd (drop don pos) (offset + don)) w of (res, w) \<Rightarrow>
         (case res of
            Inl e \<Rightarrow>
              (if e = EINTR then write_loop E fd offset pos don (w\<lparr>errno := e\<rparr>)
               else Some (-1, snd (c_close E fd (w\<lparr>errno := e\<rparr>))))
          | Inr n \<Rightarrow>
              (if n = 0 then Some (-1, (snd (c_close E fd w))\<lparr>errno := EIO\<rparr>)
               else write_loop E fd offset pos (don + n) w)))
      else Some (finish_config E fd w))"

text \<open>The bytes to write are the \<^verbatim>\<open>sz\<close> bytes at \<^verbatim>\<open>buf\<close>.\<close>

definition pci_config_write ::
  "'s env \<Rightarrow> u8 \<Rightarrow> u8 \<Rightarrow> u8 \<Rightarrow> u16 \<Rightarrow> u8 list option \<Rightarrow> u64 \<Rightarrow> 's world \<Rightarrow> (int \<times> 's world) option" where
  "pci_config_write E bus dev func offset buf sz w =
     (if (buf = None \<and> sz > 0) \<or> \<not> pci_config_range_is_valid offset sz then Some (-1, w\<lparr>errno := EINVAL\<rparr>)
      else case open_pci_config E bus dev func w of (fd, w) \<Rightarrow>
        if fd < 0 then Some (-1, w)
        else write_loop E fd (unat offset) (case buf of None \<Rightarrow> [] | Some bs \<Rightarrow> take (unat sz) bs) 0 w)"

section \<open>The range check\<close>

lemma range_valid_iff:
  "pci_config_range_is_valid offset sz \<longleftrightarrow> unat offset < 4096 \<and> unat offset + unat sz \<le> 4096"
proof -
  have u: "unat (ucast offset :: u32) = unat offset"
    using unat_less_2p16 [of offset] by (simp add: unsigned_ucast_eq take_bit_nat_eq_self)
  have "(ucast offset :: u32) < PCIE_CONFIG_SPACE_SIZE \<longleftrightarrow> unat offset < 4096"
    by (simp add: word_less_nat_alt u PCIE_CONFIG_SPACE_SIZE_def)
  moreover have "unat (ucast (PCIE_CONFIG_SPACE_SIZE - ucast offset) :: u64) = 4096 - unat offset" if "unat offset < 4096"
  proof -
    have "unat (PCIE_CONFIG_SPACE_SIZE - ucast offset) = 4096 - unat offset"
      using that by (subst unat_sub) (simp_all add: word_le_nat_alt u PCIE_CONFIG_SPACE_SIZE_def)
    then show ?thesis by (simp add: unsigned_ucast_eq take_bit_nat_eq_self)
  qed
  ultimately show ?thesis by (auto simp: pci_config_range_is_valid_def word_le_nat_alt)
qed

section \<open>Descriptors\<close>

lemma finish_config_trace: "finish_config E fd w = (r, w') \<Longrightarrow> trace w' = trace w @ [Ev_Close fd] \<and> (r = 0 \<or> r = -1)"
  by (auto simp: finish_config_def dest: trace_c_close split: prod.splits if_splits)

lemma trace_snd_close: "trace (snd (c_close E fd w)) = trace w @ [Ev_Close fd]"
  using trace_c_close [of E fd w] by (metis prod.collapse)

lemma open_pci_config_trace:
  "open_pci_config E bus dev func w = (fd, w') \<Longrightarrow> trace w' = trace w @ (if fd < 0 then [] else [Ev_Open fd])"
  by (auto simp: open_pci_config_def Let_def dest!: trace_c_open split: prod.splits if_splits)

lemma read_loop_trace:
  assumes "read_loop E fd offset sz pos w = Some y"
  shows "trace (snd (snd y)) = trace w @ [Ev_Close fd]"
proof (rule read_loop.raw_induct [OF _ assms, where P = "\<lambda>E fd offset sz pos w y. trace (snd (snd y)) = trace w @ [Ev_Close fd]"])
  fix rec and E :: "'s env" and fd :: int and offset sz :: nat and pos :: "u8 list" and w :: "'s world" and y
  let ?call = "hw_act (sys_pread E fd (sz - length pos) (offset + length pos)) w"
  assume IH: "\<And>E fd offset sz pos w y. rec E fd offset sz pos w = Some y \<Longrightarrow> trace (snd (snd y)) = trace w @ [Ev_Close fd]"
    and body: "(if length pos < sz
        then case ?call of (res, w) \<Rightarrow> case res of
          Inl e \<Rightarrow> if e = EINTR then rec E fd offset sz pos (w\<lparr>errno := e\<rparr>) else Some (- 1, pos, snd (c_close E fd (w\<lparr>errno := e\<rparr>)))
        | Inr bs \<Rightarrow> if bs = [] then Some (- 1, pos, (snd (c_close E fd w))\<lparr>errno := EIO\<rparr>) else rec E fd offset sz (pos @ bs) w
        else case finish_config E fd w of (r, w) \<Rightarrow> Some (r, pos, w)) = Some y"
  obtain res w1 where c: "?call = (res, w1)" by (rule prod.exhaust)
  obtain r w2 where f: "finish_config E fd w = (r, w2)" by (rule prod.exhaust)
  show "trace (snd (snd y)) = trace w @ [Ev_Close fd]"
    using body c f IH finish_config_trace [OF f] trace_hw_act [OF c]
    by (cases res) (auto simp: trace_snd_close split: if_splits)
qed

lemma write_loop_trace:
  assumes "write_loop E fd offset pos don w = Some y"
  shows "trace (snd y) = trace w @ [Ev_Close fd]"
proof (rule write_loop.raw_induct [OF _ assms, where P = "\<lambda>E fd offset pos don w y. trace (snd y) = trace w @ [Ev_Close fd]"])
  fix rec and E :: "'s env" and fd :: int and offset don :: nat and pos :: "u8 list" and w :: "'s world" and y
  let ?call = "hw_act (sys_pwrite E fd (drop don pos) (offset + don)) w"
  assume IH: "\<And>E fd offset pos don w y. rec E fd offset pos don w = Some y \<Longrightarrow> trace (snd y) = trace w @ [Ev_Close fd]"
    and body: "(if don < length pos
        then case ?call of (res, w) \<Rightarrow> case res of
          Inl e \<Rightarrow> if e = EINTR then rec E fd offset pos don (w\<lparr>errno := e\<rparr>) else Some (- 1, snd (c_close E fd (w\<lparr>errno := e\<rparr>)))
        | Inr n \<Rightarrow> if n = 0 then Some (- 1, (snd (c_close E fd w))\<lparr>errno := EIO\<rparr>) else rec E fd offset pos (don + n) w
        else Some (finish_config E fd w)) = Some y"
  obtain res w1 where c: "?call = (res, w1)" by (rule prod.exhaust)
  have f: "trace (snd (finish_config E fd w)) = trace w @ [Ev_Close fd]"
    using finish_config_trace [of E fd w] by (metis prod.collapse)
  show "trace (snd y) = trace w @ [Ev_Close fd]"
    using body c f IH trace_hw_act [OF c]
    by (cases res) (auto simp: trace_snd_close split: if_splits)
qed

lemma open_close_balance:
  assumes "trace w' = trace w @ [Ev_Open fd, Ev_Close fd]"
  shows "fd_balance w' = fd_balance w" and "map_balance w' = map_balance w"
  using assms by (simp_all add: fun_eq_iff balance_defs)

section \<open>Transfers\<close>

text \<open>
  The contract of the open configuration file, for accesses inside its 4096 bytes: a read returns at least
  one and at most the requested number of bytes of its content, or it was interrupted; interrupts do not
  go on for ever, which is a bound that every interrupt lowers. A write stores a non-empty prefix of the
  bytes in the same way. Nothing is required of accesses that go beyond the end of the file.
\<close>

definition config_readable :: "'s env \<Rightarrow> int \<Rightarrow> (nat \<Rightarrow> u8) \<Rightarrow> (ram \<times> 's \<Rightarrow> nat) \<Rightarrow> bool" where
  "config_readable E fd conf bound \<longleftrightarrow> (\<forall>n off st res st'. 0 < n \<longrightarrow> off + n \<le> 4096 \<longrightarrow> sys_pread E fd n off st = (res, st') \<longrightarrow>
     (case res of
        Inl e \<Rightarrow> e = EINTR \<and> bound st' < bound st
      | Inr bs \<Rightarrow> bs \<noteq> [] \<and> length bs \<le> n \<and> bs = map conf [off..<off + length bs] \<and> bound st' \<le> bound st))"

definition poke :: "(nat \<Rightarrow> u8) \<Rightarrow> nat \<Rightarrow> u8 list \<Rightarrow> nat \<Rightarrow> u8" where
  "poke c off bs = (\<lambda>i. if off \<le> i \<and> i < off + length bs then bs ! (i - off) else c i)"

definition config_writable :: "'s env \<Rightarrow> int \<Rightarrow> (ram \<times> 's \<Rightarrow> nat \<Rightarrow> u8) \<Rightarrow> (ram \<times> 's \<Rightarrow> nat) \<Rightarrow> bool" where
  "config_writable E fd content bound \<longleftrightarrow> (\<forall>bs off st res st'. bs \<noteq> [] \<longrightarrow> off + length bs \<le> 4096 \<longrightarrow> sys_pwrite E fd bs off st = (res, st') \<longrightarrow>
     (case res of
        Inl e \<Rightarrow> e = EINTR \<and> bound st' < bound st \<and> content st' = content st
      | Inr n \<Rightarrow> 0 < n \<and> n \<le> length bs \<and> content st' = poke (content st) off (take n bs) \<and> bound st' \<le> bound st))"

lemma hw_act_state: "hw_act f w = (res, w') \<Longrightarrow> f (ram w, sys w) = (res, ram w', sys w')"
  by (auto simp: hw_act_def split: prod.splits)

lemma map_upt_append:
  assumes "xs = map c [k..<k + length xs]" and "ys = map c [k + length xs..<k + length xs + length ys]"
  shows "xs @ ys = map c [k..<k + length (xs @ ys)]"
proof -
  have "[k..<k + length (xs @ ys)] = [k..<k + length xs] @ [k + length xs..<k + length xs + length ys]"
    using upt_add_eq_append [of k "k + length xs" "length ys"] by (simp add: add.assoc)
  then have "map c [k..<k + length (xs @ ys)] = map c [k..<k + length xs] @ map c [k + length xs..<k + length xs + length ys]"
    by (simp only: map_append)
  then show ?thesis by (simp only: assms [symmetric])
qed

lemma read_loop_total:
  assumes ok: "config_readable E fd conf bound" and fit: "offset + sz \<le> 4096"
    and "pos = map conf [offset..<offset + length pos]" and "length pos \<le> sz"
  shows "\<exists>v. trace v = trace w \<and> read_loop E fd offset sz pos w =
    (case finish_config E fd v of (r, w') \<Rightarrow> Some (r, map conf [offset..<offset + sz], w'))"
  using assms(3-)
proof (induction "(sz - length pos) + bound (ram w, sys w)" arbitrary: pos w rule: less_induct)
  case less
  show ?case
  proof (cases "length pos < sz")
    case False
    then have "length pos = sz" using less.prems(2) by simp
    then have "map conf [offset..<offset + sz] = pos" using less.prems(1) by metis
    then show ?thesis using False by (intro exI [of _ w]) (simp add: read_loop.simps)
  next
    case True
    obtain res w1 where c: "hw_act (sys_pread E fd (sz - length pos) (offset + length pos)) w = (res, w1)" by (rule prod.exhaust)
    note t = trace_hw_act [OF c]
    have k: "case res of Inl e \<Rightarrow> e = EINTR \<and> bound (ram w1, sys w1) < bound (ram w, sys w)
      | Inr bs \<Rightarrow> bs \<noteq> [] \<and> length bs \<le> sz - length pos
          \<and> bs = map conf [offset + length pos..<offset + length pos + length bs] \<and> bound (ram w1, sys w1) \<le> bound (ram w, sys w)"
      using ok [unfolded config_readable_def] hw_act_state [OF c] True fit by fastforce
    show ?thesis
    proof (cases res)
      case (Inl e)
      then have lt: "bound (ram w1, sys w1) < bound (ram w, sys w)" and e: "e = EINTR" using k by simp_all
      have "sz - length pos + bound (ram (w1\<lparr>errno := e\<rparr>), sys (w1\<lparr>errno := e\<rparr>)) < sz - length pos + bound (ram w, sys w)"
        using lt by simp
      from less.hyps [OF this less.prems] obtain v where
        "trace v = trace w1" "read_loop E fd offset sz pos (w1\<lparr>errno := e\<rparr>) =
          (case finish_config E fd v of (r, w') \<Rightarrow> Some (r, map conf [offset..<offset + sz], w'))" by auto
      then show ?thesis using c Inl e True t by (intro exI [of _ v]) (simp add: read_loop.simps [of E fd offset sz pos w])
    next
      case (Inr bs)
      then have bs: "bs \<noteq> []" "length bs \<le> sz - length pos" "bs = map conf [offset + length pos..<offset + length pos + length bs]"
        "bound (ram w1, sys w1) \<le> bound (ram w, sys w)" using k by simp_all
      have up: "pos @ bs = map conf [offset..<offset + length (pos @ bs)]" by (rule map_upt_append [OF less.prems(1) bs(3)])
      have len: "0 < length bs" using bs(1) by simp
      have "sz - length (pos @ bs) + bound (ram w1, sys w1) < sz - length pos + bound (ram w, sys w)" "length (pos @ bs) \<le> sz"
        using bs(2,4) len True unfolding length_append by linarith+
      from less.hyps [OF this(1) up this(2)] obtain v where
        "trace v = trace w1" "read_loop E fd offset sz (pos @ bs) w1 =
          (case finish_config E fd v of (r, w') \<Rightarrow> Some (r, map conf [offset..<offset + sz], w'))" by blast
      then show ?thesis using c Inr bs(1) True t by (intro exI [of _ v]) (simp add: read_loop.simps [of E fd offset sz pos w])
    qed
  qed
qed

lemma poke_append:
  "poke (poke c off (take don bs)) (off + don) (take n (drop don bs)) = poke c off (take (don + n) bs)"
  if "don + n \<le> length bs"
proof
  fix i
  show "poke (poke c off (take don bs)) (off + don) (take n (drop don bs)) i = poke c off (take (don + n) bs) i"
    using that by (auto simp: poke_def min_def diff_diff_left)
qed

lemma write_loop_total:
  assumes ok: "config_writable E fd content bound" and fit: "offset + length bs \<le> 4096"
    and "don \<le> length bs" and "content (ram w, sys w) = poke c offset (take don bs)"
  shows "\<exists>v. trace v = trace w \<and> content (ram v, sys v) = poke c offset bs
    \<and> write_loop E fd offset bs don w = Some (finish_config E fd v)"
  using assms(3-)
proof (induction "(length bs - don) + bound (ram w, sys w)" arbitrary: don w rule: less_induct)
  case less
  show ?case
  proof (cases "don < length bs")
    case False
    then show ?thesis using less.prems by (intro exI [of _ w]) (simp add: write_loop.simps)
  next
    case True
    obtain res w1 where c: "hw_act (sys_pwrite E fd (drop don bs) (offset + don)) w = (res, w1)" by (rule prod.exhaust)
    note t = trace_hw_act [OF c]
    have "drop don bs \<noteq> []" "offset + don + length (drop don bs) \<le> 4096" using True fit by simp_all
    then have k: "case res of
        Inl e \<Rightarrow> e = EINTR \<and> bound (ram w1, sys w1) < bound (ram w, sys w) \<and> content (ram w1, sys w1) = content (ram w, sys w)
      | Inr n \<Rightarrow> 0 < n \<and> n \<le> length (drop don bs)
          \<and> content (ram w1, sys w1) = poke (content (ram w, sys w)) (offset + don) (take n (drop don bs))
          \<and> bound (ram w1, sys w1) \<le> bound (ram w, sys w)"
      using ok [unfolded config_writable_def] hw_act_state [OF c] by blast
    show ?thesis
    proof (cases res)
      case (Inl e)
      then have e: "e = EINTR" "content (ram w1, sys w1) = poke c offset (take don bs)"
        and lt: "length bs - don + bound (ram (w1\<lparr>errno := e\<rparr>), sys (w1\<lparr>errno := e\<rparr>)) < length bs - don + bound (ram w, sys w)"
        using k less.prems(2) by simp_all
      have "content (ram (w1\<lparr>errno := e\<rparr>), sys (w1\<lparr>errno := e\<rparr>)) = poke c offset (take don bs)" using e(2) by simp
      from less.hyps [OF lt less.prems(1) this] obtain v where "trace v = trace w1" "content (ram v, sys v) = poke c offset bs"
        "write_loop E fd offset bs don (w1\<lparr>errno := e\<rparr>) = Some (finish_config E fd v)" by auto
      then show ?thesis using c Inl e(1) True t by (intro exI [of _ v]) (simp add: write_loop.simps [of E fd offset bs don w])
    next
      case (Inr n)
      then have n: "0 < n" "don + n \<le> length bs" "bound (ram w1, sys w1) \<le> bound (ram w, sys w)"
        "content (ram w1, sys w1) = poke c offset (take (don + n) bs)"
        using k True less.prems(2) poke_append [of don n bs c offset] by auto
      have "length bs - (don + n) + bound (ram w1, sys w1) < length bs - don + bound (ram w, sys w)"
        using n(1-3) by linarith
      from less.hyps [OF this n(2,4)] obtain v where "trace v = trace w1" "content (ram v, sys v) = poke c offset bs"
        "write_loop E fd offset bs (don + n) w1 = Some (finish_config E fd v)" by blast
      then show ?thesis using c Inr n(1) True t by (intro exI [of _ v]) (simp add: write_loop.simps [of E fd offset bs don w])
    qed
  qed
qed

section \<open>Properties\<close>

text \<open>
  C26: \<^verbatim>\<open>pci_config_read\<close> on a configuration file that is readable terminates, in spite of interrupts and
  short reads, and stores exactly the \<^verbatim>\<open>sz\<close> bytes of configuration space from \<^verbatim>\<open>offset\<close> on, in order, all of them
  inside the 4096 bytes; the descriptor that it opened is closed again.
\<close>

theorem pci_config_read_correct:
  assumes "open_pci_config E bus dev func w = (fd, w1)" and "0 \<le> fd" and "pci_config_range_is_valid offset sz"
    and "config_readable E fd conf bound" and "\<And>st. fst (sys_close E fd st) = None"
  shows "\<exists>w'. pci_config_read E bus dev func offset False sz w =
      Some (0, map conf [unat offset..<unat offset + unat sz], w')
    \<and> unat offset + unat sz \<le> 4096 \<and> fd_balance w' = fd_balance w"
proof -
  obtain v where v: "trace v = trace w1" "read_loop E fd (unat offset) (unat sz) [] w1 =
      (case finish_config E fd v of (r, w') \<Rightarrow> Some (r, map conf [unat offset..<unat offset + unat sz], w'))"
    using read_loop_total [OF assms(4), of "unat offset" "unat sz" "[]" w1] assms(3) by (auto simp: range_valid_iff)
  obtain r w' where f: "finish_config E fd v = (r, w')" by (rule prod.exhaust)
  have "r = 0"
    using f assms(5) [of "(ram v, sys v)"]
    by (auto simp: finish_config_def c_close_def hw_act_def split: prod.splits option.splits if_splits)
  moreover have "trace w' = trace w @ [Ev_Open fd, Ev_Close fd]"
    using finish_config_trace [OF f] v(1) open_pci_config_trace [OF assms(1)] assms(2) by simp
  ultimately show ?thesis
    using assms(1-3) v(2) f open_close_balance(1) by (auto simp: pci_config_read_def range_valid_iff)
qed

text \<open>
  C27: \<^verbatim>\<open>pci_config_write\<close> on a writable configuration file terminates and leaves the file with exactly the
  given bytes at \<^verbatim>\<open>offset\<close> and every other byte as it was, however often it was interrupted and in
  however small pieces the kernel took the data.
\<close>

theorem pci_config_write_correct:
  assumes "open_pci_config E bus dev func w = (fd, w1)" and "0 \<le> fd" and "pci_config_range_is_valid offset sz"
    and "unat sz = length bs" and "config_writable E fd content bound"
    and "\<And>st. fst (sys_close E fd st) = None \<and> content (snd (sys_close E fd st)) = content st"
  shows "\<exists>w'. pci_config_write E bus dev func offset (Some bs) sz w = Some (0, w')
    \<and> content (ram w', sys w') = poke (content (ram w1, sys w1)) (unat offset) bs \<and> fd_balance w' = fd_balance w"
proof -
  have "content (ram w1, sys w1) = poke (content (ram w1, sys w1)) (unat offset) (take 0 bs)" by (auto simp: poke_def fun_eq_iff)
  moreover have "unat offset + length bs \<le> 4096" using assms(3,4) by (simp add: range_valid_iff)
  ultimately obtain v where v: "trace v = trace w1"
    "content (ram v, sys v) = poke (content (ram w1, sys w1)) (unat offset) bs"
    "write_loop E fd (unat offset) bs 0 w1 = Some (finish_config E fd v)"
    using write_loop_total [OF assms(5)] by blast
  obtain r w' where f: "finish_config E fd v = (r, w')" by (rule prod.exhaust)
  have "r = 0 \<and> content (ram w', sys w') = content (ram v, sys v)"
    using f assms(6) [of "(ram v, sys v)"]
    by (auto simp: finish_config_def c_close_def hw_act_def emit_def split: prod.splits option.splits if_splits)
  moreover have "trace w' = trace w @ [Ev_Open fd, Ev_Close fd]"
    using finish_config_trace [OF f] v(1) open_pci_config_trace [OF assms(1)] assms(2) by simp
  ultimately show ?thesis
    using assms(1-4) v(2,3) f open_close_balance(1) by (auto simp: pci_config_write_def)
qed

text \<open>
  C28: However the kernel answers, neither function leaves a descriptor open: whenever a read or a write
  returns, with success or an error, the descriptors and mappings are as before the call.
\<close>

theorem pci_config_closes:
  assumes "(\<exists>bs. pci_config_read E bus dev func offset buf_null sz w = Some (r, bs, w'))
    \<or> pci_config_write E bus dev func offset buf sz w = Some (r, w')"
  shows "fd_balance w' = fd_balance w \<and> map_balance w' = map_balance w"
proof -
  obtain fd w1 where o: "open_pci_config E bus dev func w = (fd, w1)" by (rule prod.exhaust)
  note t = open_pci_config_trace [OF o]
  have "trace w' = trace w \<or> trace w' = trace w1 @ [Ev_Close fd] \<and> \<not> fd < 0"
    using assms o t
    by (auto simp: pci_config_read_def pci_config_write_def dest: read_loop_trace write_loop_trace split: if_splits)
  then show ?thesis
    using t open_close_balance [of w' w fd] by (auto simp: fun_eq_iff balance_defs)
qed

section \<open>A configuration file\<close>

text \<open>Two files that interrupt the first calls and then transfer at most two bytes at a time: one with fixed
  content, which ends after 4096 bytes, and one whose content is its state.\<close>

definition config_rom :: "nat env" where
  "config_rom = idle_env\<lparr>sys_open := (\<lambda>_ _ (m, s). (Inr 5, m, s)),
     sys_pread := (\<lambda>_ n off (m, k). if k = 0 then (Inr (map of_nat [off..<min 4096 (off + min n 2)]), m, 0) else (Inl EINTR, m, k - 1))\<rparr>"

definition config_ram :: "(nat \<times> (nat \<Rightarrow> u8)) env" where
  "config_ram = idle_env\<lparr>sys_open := (\<lambda>_ _ (m, s). (Inr 5, m, s)),
     sys_pwrite := (\<lambda>_ bs off (m, (k, c)). if k = 0 then (Inr (min 2 (length bs)), m, (0, poke c off (take 2 bs)))
       else (Inl EINTR, m, (k - 1, c)))\<rparr>"

lemma open_config_valid:
  assumes "sys_open E path [O_RDWR, O_CLOEXEC] (ram w, sys w) = (Inr 5, ram w, sys w)" and "path = pci_sysfs_config_path 1 2 3"
  shows "open_pci_config E 1 2 3 w = (5, w\<lparr>trace := trace w @ [Ev_Open 5]\<rparr>)"
  using assms
  by (auto simp: open_pci_config_def pci_config_bdf_is_valid_def pci_sysfs_config_path_def Let_def c_open_def hw_act_def
      emit_def fmt_u_def fmt_base_small)

lemma config_rom_readable: "config_readable config_rom 5 of_nat snd"
  by (auto simp: config_readable_def config_rom_def split: if_splits)

lemma config_ram_writable: "config_writable config_ram 5 (\<lambda>(m, (k, c)). c) (\<lambda>(m, (k, c)). k)"
  by (auto simp: config_writable_def config_ram_def min_def split: if_splits)

theorem pci_config_read_correct_witness:
  "\<exists>w'. pci_config_read config_rom 1 2 3 8 False 3 \<lparr>errno = 0, trace = [], ram = (\<lambda>_. 0), sys = 2\<rparr> = Some (0, [8, 9, 10], w')"
proof -
  let ?w = "\<lparr>errno = 0, trace = [], ram = (\<lambda>_. 0), sys = 2\<rparr> :: nat world"
  have "open_pci_config config_rom 1 2 3 ?w = (5, ?w\<lparr>trace := trace ?w @ [Ev_Open 5]\<rparr>)"
    by (rule open_config_valid [OF _ refl]) (simp add: config_rom_def)
  moreover have "pci_config_range_is_valid 8 3" by (simp add: range_valid_iff)
  moreover have "fst (sys_close config_rom 5 st) = None" for st by (cases st) (simp add: config_rom_def idle_env_def)
  ultimately show ?thesis
    using pci_config_read_correct [OF _ _ _ config_rom_readable, of 1 2 3 ?w _ 8 3] by (auto simp: upt_rec)
qed

theorem pci_config_write_correct_witness:
  "\<exists>w'. pci_config_write config_ram 1 2 3 4 (Some [7, 8, 9]) 3 \<lparr>errno = 0, trace = [], ram = (\<lambda>_. 0), sys = (2, \<lambda>_. 0)\<rparr>
      = Some (0, w') \<and> snd (sys w') 6 = 9 \<and> snd (sys w') 7 = 0"
proof -
  let ?w = "\<lparr>errno = 0, trace = [], ram = (\<lambda>_. 0), sys = (2, \<lambda>_. 0)\<rparr> :: (nat \<times> (nat \<Rightarrow> u8)) world"
  let ?c = "\<lambda>(m :: ram, (k :: nat, c :: nat \<Rightarrow> u8)). c"
  have "open_pci_config config_ram 1 2 3 ?w = (5, ?w\<lparr>trace := trace ?w @ [Ev_Open 5]\<rparr>)"
    by (rule open_config_valid [OF _ refl]) (simp add: config_ram_def)
  moreover have "pci_config_range_is_valid 4 3" by (simp add: range_valid_iff)
  moreover have "fst (sys_close config_ram 5 st) = None \<and> ?c (snd (sys_close config_ram 5 st)) = ?c st" for st
    by (cases st) (simp add: config_ram_def idle_env_def)
  ultimately obtain w' where "pci_config_write config_ram 1 2 3 4 (Some [7, 8, 9]) 3 ?w = Some (0, w')"
    "?c (ram w', sys w') = poke (?c (ram (?w\<lparr>trace := trace ?w @ [Ev_Open 5]\<rparr>), sys (?w\<lparr>trace := trace ?w @ [Ev_Open 5]\<rparr>))) (unat (4 :: u16)) [7, 8, 9]"
    using pci_config_write_correct [OF _ _ _ _ config_ram_writable, of 1 2 3 ?w _ 4 3 "[7, 8, 9]"] by fastforce
  then show ?thesis by (intro exI [of _ w']) (simp add: poke_def split: prod.splits)
qed

theorem pci_config_closes_witness:
  "\<exists>w'. pci_config_write config_rom 1 2 3 4 (Some [7]) 1 \<lparr>errno = 0, trace = [], ram = (\<lambda>_. 0), sys = 2\<rparr> = Some (-1, w')
     \<and> fd_balance w' 5 = 0"
proof -
  let ?w = "\<lparr>errno = 0, trace = [], ram = (\<lambda>_. 0), sys = 2\<rparr> :: nat world"
  have o: "open_pci_config config_rom 1 2 3 ?w = (5, ?w\<lparr>trace := trace ?w @ [Ev_Open 5]\<rparr>)"
    by (rule open_config_valid [OF _ refl]) (simp add: config_rom_def)
  obtain w' where run: "pci_config_write config_rom 1 2 3 4 (Some [7]) 1 ?w = Some (-1, w')"
    using o by (auto simp: pci_config_write_def range_valid_iff write_loop.simps hw_act_def config_rom_def idle_env_def)
  have "fd_balance ?w 5 = 0" by (simp add: fd_balance_def)
  with run pci_config_closes [OF disjI2 [OF run]] show ?thesis by auto
qed

end
