(* ===== verification/Nvme_Prp.thy ===== *)
theory Nvme_Prp
  imports Nvme_Regs
begin

text \<open>
  \<^verbatim>\<open>setup_prps\<close> of \<^verbatim>\<open>tools/nvme.c\<close>: how a data buffer is described to the controller. The reference
  \<open>prp_walk\<close> is the reading of PRP1, PRP2 and the PRP list that the NVMe base specification gives
  the controller (for a list of one page): the byte addresses a transfer touches, in order. The main
  lemmas compare the two and bound the memory the list occupies.
\<close>

unbundle bit_operations_syntax

section \<open>The code\<close>

text \<open>The \<^verbatim>\<open>while (remaining_pages != 0u)\<close> loop.\<close>

function prp_fill :: "ram \<Rightarrow> u64 \<Rightarrow> u64 \<Rightarrow> u64 \<Rightarrow> ram" where
  "prp_fill r list next_page remaining_pages =
     (if remaining_pages = 0 then r
      else prp_fill (store64 r list next_page) (list + 8) (next_page + 4096) (remaining_pages - 1))"
  by pat_completeness auto
termination
  by (relation "measure (\<lambda>(r, list, next_page, remaining_pages). unat remaining_pages)")
    (auto simp: unat_minus_one unat_gt_0)

declare prp_fill.simps [simp del]

definition setup_prps :: "nvme_data \<Rightarrow> ram \<Rightarrow> u32 \<Rightarrow> u64 \<Rightarrow> u64 \<Rightarrow> u64 \<times> u64 \<times> ram" where
  "setup_prps n r sq_slot dma transfer_size =
     (let prp1 = dma;
          offset = nvme_page_offset dma;
          total_size = offset + transfer_size;
          page_count = drop_bit 12 (total_size + NVME_PAGE_MASK)
      in if page_count = 1 then (prp1, 0, r)
      else let next_page = nvme_page_align_up dma
      in if page_count = 2 then (prp1, next_page, r)
      else let remaining_pages = page_count - 1;
               list_offset = push_bit 12 (ucast sq_slot);
               list = io_prp_list_virt_addr n + list_offset;
               r = prp_fill r list next_page remaining_pages;
               list_phys_offset = push_bit 12 (ucast sq_slot)
      in (prp1, io_prp_list_phys_addr n + list_phys_offset, r))"

section \<open>The controller's reading of PRPs\<close>

fun prp_list_walk :: "(u64 \<Rightarrow> u64) \<Rightarrow> u64 \<Rightarrow> nat \<Rightarrow> (u64 \<times> nat) list" where
  "prp_list_walk rd p rest =
     (if rest = 0 then [] else (rd p, min rest 4096) # prp_list_walk rd (p + 8) (rest - 4096))"

declare prp_list_walk.simps [simp del]

definition prp_walk :: "(u64 \<Rightarrow> u64) \<Rightarrow> u64 \<Rightarrow> u64 \<Rightarrow> nat \<Rightarrow> (u64 \<times> nat) list" where
  "prp_walk rd prp1 prp2 len =
     (let first = min len (4096 - unat prp1 mod 4096); rest = len - first in
      if rest = 0 then [(prp1, first)]
      else if rest \<le> 4096 then [(prp1, first), (prp2, rest)]
      else (prp1, first) # prp_list_walk rd prp2 rest)"

definition byte_run :: "u64 \<Rightarrow> nat \<Rightarrow> u64 list" where
  "byte_run a n = map (\<lambda>i. a + of_nat i) [0..<n]"

definition prp_bytes :: "(u64 \<Rightarrow> u64) \<Rightarrow> u64 \<Rightarrow> u64 \<Rightarrow> nat \<Rightarrow> u64 list" where
  "prp_bytes rd prp1 prp2 len = concat (map (\<lambda>(a, n). byte_run a n) (prp_walk rd prp1 prp2 len))"

text \<open>An 8-byte read by the controller inside the thread's PRP list buffer, which is one coherent DMA
  allocation: physical and virtual addresses differ by a constant.\<close>

definition prp_device_read :: "nvme_data \<Rightarrow> ram \<Rightarrow> u64 \<Rightarrow> u64" where
  "prp_device_read n r p = load64 r (io_prp_list_virt_addr n + (p - io_prp_list_phys_addr n))"

text \<open>Each submission slot owns one page of the PRP list buffer.\<close>

definition prp_slot :: "nvme_data \<Rightarrow> u32 \<Rightarrow> u64" where
  "prp_slot n slot = io_prp_list_virt_addr n + push_bit 12 (ucast slot)"

section \<open>The list that the loop writes\<close>

lemma prp_fill_of_nat:
  assumes "Suc k < 2 ^ 64"
  shows "prp_fill r l np (of_nat (Suc k)) = prp_fill (store64 r l np) (l + 8) (np + 4096) (of_nat k)"
proof -
  have "(of_nat (Suc k) :: u64) \<noteq> 0"
    using assms of_nat_u64_eq_iff [of "Suc k" 0] by simp
  then show ?thesis by (subst prp_fill.simps) simp
qed

lemma prp_fill_0 [simp]: "prp_fill r l np 0 = r"
  by (subst prp_fill.simps) simp

text \<open>Bytes outside the written range keep their value.\<close>

lemma prp_fill_frame:
  assumes "8 * k < 2 ^ 64" and "8 * k \<le> unat (x - l)"
  shows "prp_fill r l np (of_nat k) x = r x"
  using assms
proof (induction k arbitrary: r l np)
  case 0
  then show ?case by simp
next
  case (Suc k)
  have ge: "8 \<le> unat (x - l)" using Suc.prems by simp
  have eq: "x - (l + 8) = (x - l) - 8" by simp
  have "unat (x - (l + 8)) = unat (x - l) - 8"
    unfolding eq using ge by (subst unat_sub) (simp_all add: word_le_nat_alt)
  then have "prp_fill (store64 r l np) (l + 8) (np + 4096) (of_nat k) x = store64 r l np x"
    using Suc.prems by (intro Suc.IH) auto
  moreover have "store64 r l np x = r x"
    unfolding store64_def
  proof (rule store_bytes_outside)
    fix i assume "i < length (le_bytes 8 np)"
    then have i: "i < 8" by simp
    show "x \<noteq> l + of_nat i"
    proof
      assume "x = l + of_nat i"
      then have "x - l = of_nat i" by simp
      with i have "unat (x - l) = i" by (simp add: unat_of_nat_u64)
      with ge i show False by simp
    qed
  qed
  ultimately show ?case using Suc.prems by (simp add: prp_fill_of_nat del: of_nat_Suc)
qed

lemma load64_cong:
  "(\<And>i. i < 8 \<Longrightarrow> r (a + of_nat i) = r' (a + of_nat i)) \<Longrightarrow> load64 r a = load64 r' a"
  by (simp add: load64_def load_bytes_cong [of 8 r a r'])

lemma prp_fill_entry:
  assumes "8 * k < 2 ^ 64" and "i < k"
  shows "load64 (prp_fill r l np (of_nat k)) (l + 8 * of_nat i) = np + 4096 * of_nat i"
  using assms
proof (induction k arbitrary: r l np i)
  case 0
  then show ?case by simp
next
  case (Suc k)
  have step: "prp_fill r l np (of_nat (Suc k)) = prp_fill (store64 r l np) (l + 8) (np + 4096) (of_nat k)"
    using Suc.prems by (intro prp_fill_of_nat) simp
  show ?case
  proof (cases i)
    case 0
    have "load64 (prp_fill (store64 r l np) (l + 8) (np + 4096) (of_nat k)) l = load64 (store64 r l np) l"
    proof (rule load64_cong)
      fix j :: nat assume j: "j < 8"
      have "2 ^ 64 - 8 \<le> unat (l + of_nat j - (l + 8))" using j unat_behind [of j 8 l] by simp
      then show "prp_fill (store64 r l np) (l + 8) (np + 4096) (of_nat k) (l + of_nat j) = store64 r l np (l + of_nat j)"
        using Suc.prems j by (intro prp_fill_frame) auto
    qed
    with 0 step show ?thesis by (simp add: ram_simps del: of_nat_Suc)
  next
    case (Suc m)
    have "load64 (prp_fill (store64 r l np) (l + 8) (np + 4096) (of_nat k)) (l + 8 + 8 * of_nat m)
        = np + 4096 + 4096 * of_nat m"
      using Suc.prems \<open>i = Suc m\<close> by (intro Suc.IH) auto
    with \<open>i = Suc m\<close> step show ?thesis by (simp add: algebra_simps)
  qed
qed

section \<open>What the controller sees\<close>

lemma length_byte_run [simp]: "length (byte_run a n) = n"
  by (simp add: byte_run_def)

lemma byte_run_0 [simp]: "byte_run a 0 = []"
  by (simp add: byte_run_def)

lemma byte_run_append: "byte_run a (m + n) = byte_run a m @ byte_run (a + of_nat m) n"
  by (rule nth_equalityI) (auto simp: byte_run_def nth_append algebra_simps)

lemma byte_run_inject: "0 < n \<Longrightarrow> byte_run a n = byte_run b n \<longleftrightarrow> a = b"
  by (auto simp: byte_run_def upt_conv_Cons)

lemma prp_list_walk_bytes:
  assumes "\<And>i. i < (rest + 4095) div 4096 \<Longrightarrow> rd (p + 8 * of_nat i) = q + 4096 * of_nat i"
  shows "concat (map (\<lambda>(a, n). byte_run a n) (prp_list_walk rd p rest)) = byte_run q rest"
  using assms
proof (induction rd p rest arbitrary: q rule: prp_list_walk.induct)
  case (1 rd p rest)
  show ?case
  proof (cases "rest = 0")
    case True
    then show ?thesis by (simp add: prp_list_walk.simps)
  next
    case False
    have first: "rd p = q" using "1.prems" [of 0] False by simp
    have "concat (map (\<lambda>(a, n). byte_run a n) (prp_list_walk rd (p + 8) (rest - 4096)))
        = byte_run (q + 4096) (rest - 4096)"
    proof (rule "1.IH" [OF False])
      fix i assume "i < (rest - 4096 + 4095) div 4096"
      then have "Suc i < (rest + 4095) div 4096" by (cases "4096 \<le> rest") auto
      from "1.prems" [OF this] show "rd (p + 8 + 8 * of_nat i) = q + 4096 + 4096 * of_nat i"
        by (simp add: algebra_simps)
    qed
    moreover have "byte_run q rest = byte_run q (min rest 4096) @ byte_run (q + 4096) (rest - 4096)"
      using byte_run_append [of q "min rest 4096" "rest - 4096"] by (auto simp: min_def)
    ultimately show ?thesis using False first by (subst prp_list_walk.simps) simp
  qed
qed

definition prp_pages :: "u64 \<Rightarrow> nat \<Rightarrow> nat" where
  "prp_pages dma len = (unat dma mod 4096 + len + 4095) div 4096"

lemma setup_prps_nat:
  assumes "unat dma mod 4096 + unat sz + 4095 < 2 ^ 64"
  shows "setup_prps n r slot dma sz =
     (if prp_pages dma (unat sz) = 1 then (dma, 0, r)
      else if prp_pages dma (unat sz) = 2 then (dma, nvme_page_align_up dma, r)
      else (dma, io_prp_list_phys_addr n + push_bit 12 (ucast slot),
            prp_fill r (io_prp_list_virt_addr n + push_bit 12 (ucast slot)) (nvme_page_align_up dma)
              (of_nat (prp_pages dma (unat sz)) - 1)))"
proof -
  define pc where "pc = drop_bit 12 (nvme_page_offset dma + sz + NVME_PAGE_MASK)"
  have "unat (nvme_page_offset dma + sz) = unat dma mod 4096 + unat sz"
    using assms by (subst unat_add_lem [THEN iffD1]) (simp_all add: unat_page_offset)
  then have "unat (nvme_page_offset dma + sz + NVME_PAGE_MASK) = unat dma mod 4096 + unat sz + 4095"
    using assms by (subst unat_add_lem [THEN iffD1]) simp_all
  then have u: "unat pc = prp_pages dma (unat sz)"
    unfolding pc_def unat_drop_bit_eq prp_pages_def by (simp add: drop_bit_eq_div)
  have "pc = 1 \<longleftrightarrow> prp_pages dma (unat sz) = 1" "pc = 2 \<longleftrightarrow> prp_pages dma (unat sz) = 2"
    using u by (simp_all add: word_unat_eq_iff)
  moreover have "pc = of_nat (prp_pages dma (unat sz))" unfolding u [symmetric] by simp
  ultimately show ?thesis
    unfolding setup_prps_def Let_def pc_def [symmetric] by simp
qed

lemma setup_prps_bytes:
  assumes "0 < unat sz" and small: "unat dma mod 4096 + unat sz \<le> 513 * 4096"
    and "setup_prps n r slot dma sz = (prp1, prp2, r')"
    and "first = min (unat sz) (4096 - unat dma mod 4096)"
    and agree: "\<And>k. k < 4096 \<Longrightarrow> r'' (prp_slot n slot + of_nat k) = r' (prp_slot n slot + of_nat k)"
  shows "prp_bytes (prp_device_read n r'') prp1 prp2 (unat sz)
       = byte_run dma first @ byte_run (nvme_page_align_up dma) (unat sz - first)"
proof -
  let ?o = "unat dma mod 4096" and ?s = "unat sz" and ?pc = "prp_pages dma (unat sz)"
  let ?rest = "?s - first"
  have sp: "setup_prps n r slot dma sz = (if ?pc = 1 then (dma, 0, r)
      else if ?pc = 2 then (dma, nvme_page_align_up dma, r)
      else (dma, io_prp_list_phys_addr n + push_bit 12 (ucast slot),
            prp_fill r (io_prp_list_virt_addr n + push_bit 12 (ucast slot)) (nvme_page_align_up dma)
              (of_nat ?pc - 1)))"
    using small by (intro setup_prps_nat) simp
  have o: "?o < 4096" by simp
  consider "?o + ?s \<le> 4096" | "4096 < ?o + ?s" "?o + ?s \<le> 8192" | "8192 < ?o + ?s" by linarith
  then show ?thesis
  proof cases
    case 1
    then have "?pc = 1" "?rest = 0" using assms(1,4) by (auto simp: prp_pages_def)
    with sp assms(3,4) show ?thesis by (simp add: prp_bytes_def prp_walk_def Let_def)
  next
    case 2
    then have "?pc = 2" "0 < ?rest" "?rest \<le> 4096" using assms(1,4) o by (auto simp: prp_pages_def)
    with sp assms(3,4) show ?thesis by (auto simp: prp_bytes_def prp_walk_def Let_def)
  next
    case 3
    then have pc: "2 < ?pc" by (simp add: prp_pages_def)
    have rest: "4096 < ?rest" "first = 4096 - ?o" using 3 assms(4) o by auto
    have "?o + ?s + 4095 = (?rest + 4095) + 4096" using rest 3 o by linarith
    then have n: "(?rest + 4095) div 4096 = ?pc - 1" unfolding prp_pages_def by simp
    have r': "r' = prp_fill r (io_prp_list_virt_addr n + push_bit 12 (ucast slot)) (nvme_page_align_up dma)
        (of_nat (?pc - 1))"
      and p2: "prp2 = io_prp_list_phys_addr n + push_bit 12 (ucast slot)" and p1: "prp1 = dma"
      using sp assms(3) pc by (auto simp: of_nat_diff)
    have "?pc \<le> 513" using small by (simp add: prp_pages_def)
    have "prp_device_read n r'' (prp2 + 8 * of_nat i) = nvme_page_align_up dma + 4096 * of_nat i"
      if "i < ?pc - 1" for i
    proof -
      have "io_prp_list_virt_addr n + (prp2 + 8 * of_nat i - io_prp_list_phys_addr n)
          = prp_slot n slot + 8 * of_nat i"
        by (simp add: p2 prp_slot_def)
      moreover have "load64 r'' (prp_slot n slot + 8 * of_nat i) = load64 r' (prp_slot n slot + 8 * of_nat i)"
      proof (rule load64_cong)
        fix j :: nat assume "j < 8"
        then show "r'' (prp_slot n slot + 8 * of_nat i + of_nat j) = r' (prp_slot n slot + 8 * of_nat i + of_nat j)"
          using agree [of "8 * i + j"] that \<open>?pc \<le> 513\<close> by (simp add: add.assoc)
      qed
      moreover have "8 * (?pc - 1) < 2 ^ 64" using \<open>?pc \<le> 513\<close> by simp
      ultimately show ?thesis
        using that unfolding prp_device_read_def r' prp_slot_def by (simp only: prp_fill_entry)
    qed
    then have "concat (map (\<lambda>(a, n). byte_run a n) (prp_list_walk (prp_device_read n r'') prp2 ?rest))
        = byte_run (nvme_page_align_up dma) ?rest"
      by (intro prp_list_walk_bytes) (simp add: n)
    with rest p1 assms(4) show ?thesis by (simp add: prp_bytes_def prp_walk_def Let_def)
  qed
qed

text \<open>The two runs of bytes make up the buffer exactly when the second starts where the first ends.\<close>

definition prp_first :: "u64 \<Rightarrow> nat \<Rightarrow> nat" where
  "prp_first dma len = min len (4096 - unat dma mod 4096)"

lemma prp_run_iff:
  "byte_run dma (prp_first dma len) @ byte_run (nvme_page_align_up dma) (len - prp_first dma len)
     = byte_run dma len \<longleftrightarrow> nvme_page_offset dma \<noteq> 0 \<or> len \<le> 4096"
proof -
  let ?f = "prp_first dma len"
  let ?rest = "len - ?f"
  have "byte_run dma len = byte_run dma ?f @ byte_run (dma + of_nat ?f) ?rest"
    using byte_run_append [of dma ?f ?rest] by (simp add: prp_first_def)
  then have eq: "byte_run dma ?f @ byte_run (nvme_page_align_up dma) ?rest = byte_run dma len
      \<longleftrightarrow> byte_run (nvme_page_align_up dma) ?rest = byte_run (dma + of_nat ?f) ?rest"
    by simp
  have o: "unat (nvme_page_offset dma) < 4096" by (simp add: unat_page_offset)
  show ?thesis
  proof (cases "?rest = 0")
    case True
    then show ?thesis using o eq by (auto simp: prp_first_def page_offset_eq_0)
  next
    case False
    then have f: "?f = 4096 - unat (nvme_page_offset dma)" "4096 < len + unat (nvme_page_offset dma)"
      by (auto simp: prp_first_def unat_page_offset)
    then have "(of_nat ?f :: u64) = 4096 - nvme_page_offset dma" using o by (simp add: of_nat_diff)
    then show ?thesis
      using False f eq page_align_up_aligned [of dma] page_align_up_unaligned [of dma]
      by (cases "nvme_page_offset dma = 0") (simp_all add: byte_run_inject)
  qed
qed

section \<open>The list stays in its slot\<close>

lemma setup_prps_ram:
  assumes "unat dma mod 4096 + unat sz + 4095 < 2 ^ 64"
  shows "snd (snd (setup_prps n r slot dma sz)) =
     (if prp_pages dma (unat sz) \<in> {1, 2} then r
      else prp_fill r (prp_slot n slot) (nvme_page_align_up dma) (of_nat (prp_pages dma (unat sz)) - 1))"
  by (simp add: setup_prps_nat [OF assms] prp_slot_def)

lemma setup_prps_frame:
  assumes "0 < unat sz" and "unat dma mod 4096 + unat sz \<le> 513 * 4096"
    and "4096 \<le> unat (x - prp_slot n slot)"
  shows "snd (snd (setup_prps n r slot dma sz)) x = r x"
proof -
  let ?pc = "prp_pages dma (unat sz)"
  have "?pc \<le> 513" "1 \<le> ?pc" using assms(1,2) by (simp_all add: prp_pages_def)
  then have "prp_fill r (prp_slot n slot) (nvme_page_align_up dma) (of_nat (?pc - 1)) x = r x"
    using assms(3) by (intro prp_fill_frame) simp_all
  with \<open>1 \<le> ?pc\<close> assms(2) show ?thesis
    by (subst setup_prps_ram) (auto simp: of_nat_diff)
qed

lemma load64_const: "load64 (\<lambda>_. b) a = le_word (replicate 8 b)"
  by (simp add: load64_def load_bytes_def map_replicate_const)

lemma setup_prps_overflow:
  assumes "unat dma mod 4096 + unat sz + 4095 < 2 ^ 60" and "513 < prp_pages dma (unat sz)"
  shows "load64 (snd (snd (setup_prps n r slot dma sz))) (prp_slot n slot + 4096)
       = nvme_page_align_up dma + 4096 * 512"
proof -
  let ?k = "prp_pages dma (unat sz) - 1"
  have "?k < 2 ^ 60" using assms(1) by (simp add: prp_pages_def less_mult_imp_div_less less_imp_diff_less)
  then have "load64 (prp_fill r (prp_slot n slot) (nvme_page_align_up dma) (of_nat ?k))
      (prp_slot n slot + 8 * of_nat 512) = nvme_page_align_up dma + 4096 * of_nat 512"
    using assms(2) by (intro prp_fill_entry) auto
  then show ?thesis using assms by (subst setup_prps_ram) (auto simp: of_nat_diff)
qed

section \<open>Properties\<close>

text \<open>
  C1: The PRPs that \<^verbatim>\<open>setup_prps\<close> builds describe exactly the bytes of the data buffer, in order,
  if and only if the buffer does not start on a page boundary or the transfer fits in one page. For
  a page-aligned buffer of more than one page \<^verbatim>\<open>nvme_page_align_up\<close> returns the first page again, so
  the controller transfers the first page twice.
\<close>

theorem setup_prps_correct_iff:
  assumes "0 < unat sz" and "unat dma mod 4096 + unat sz \<le> 513 * 4096"
  shows "(case setup_prps n r slot dma sz of (prp1, prp2, r') \<Rightarrow>
            prp_bytes (prp_device_read n r') prp1 prp2 (unat sz) = byte_run dma (unat sz))
     \<longleftrightarrow> nvme_page_offset dma \<noteq> 0 \<or> unat sz \<le> 4096"
proof -
  obtain prp1 prp2 r' where sp: "setup_prps n r slot dma sz = (prp1, prp2, r')"
    by (cases "setup_prps n r slot dma sz")
  have "prp_bytes (prp_device_read n r') prp1 prp2 (unat sz)
      = byte_run dma (prp_first dma (unat sz))
        @ byte_run (nvme_page_align_up dma) (unat sz - prp_first dma (unat sz))"
    by (rule setup_prps_bytes [OF assms sp prp_first_def refl])
  with sp show ?thesis by (simp add: prp_run_iff)
qed

theorem setup_prps_correct_iff_witness:
  "(case setup_prps nvme_data_init (\<lambda>_. 0) 3 0x12345200 0x3000 of (prp1, prp2, r') \<Rightarrow>
      prp_bytes (prp_device_read nvme_data_init r') prp1 prp2 (unat (0x3000 :: u64))
        = byte_run 0x12345200 (unat (0x3000 :: u64)))
   \<and> \<not> (case setup_prps nvme_data_init (\<lambda>_. 0) 3 0x12345000 0x2000 of (prp1, prp2, r') \<Rightarrow>
      prp_bytes (prp_device_read nvme_data_init r') prp1 prp2 (unat (0x2000 :: u64))
        = byte_run 0x12345000 (unat (0x2000 :: u64)))"
proof -
  have a: "0 < unat (0x3000 :: u64)" "unat (0x12345200 :: u64) mod 4096 + unat (0x3000 :: u64) \<le> 513 * 4096"
    and b: "0 < unat (0x2000 :: u64)" "unat (0x12345000 :: u64) mod 4096 + unat (0x2000 :: u64) \<le> 513 * 4096"
    by simp_all
  show ?thesis
    unfolding setup_prps_correct_iff [OF a] setup_prps_correct_iff [OF b]
    by (simp add: nvme_page_offset_def)
qed

text \<open>
  C2: Building the PRPs of one command leaves the PRP lists of every other submission slot alone,
  whatever memory held before, if and only if the transfer touches at most 513 pages; \<^verbatim>\<open>setup_prps\<close>
  itself has no such bound, and a longer list runs on into the page of the next slot.
\<close>

theorem prp_list_in_slot_iff:
  assumes "0 < unat sz" and "unat dma mod 4096 + unat sz + 4095 < 2 ^ 60"
  shows "(\<forall>r x. 4096 \<le> unat (x - prp_slot n slot) \<longrightarrow> snd (snd (setup_prps n r slot dma sz)) x = r x)
     \<longleftrightarrow> prp_pages dma (unat sz) \<le> 513"
proof
  assume "prp_pages dma (unat sz) \<le> 513"
  then have "unat dma mod 4096 + unat sz \<le> 513 * 4096" unfolding prp_pages_def by linarith
  with assms(1) show "\<forall>r x. 4096 \<le> unat (x - prp_slot n slot) \<longrightarrow> snd (snd (setup_prps n r slot dma sz)) x = r x"
    by (blast intro: setup_prps_frame)
next
  let ?f = "\<lambda>r. snd (snd (setup_prps n r slot dma sz))" and ?a = "prp_slot n slot + 4096"
  assume frame: "\<forall>r x. 4096 \<le> unat (x - prp_slot n slot) \<longrightarrow> ?f r x = r x"
  show "prp_pages dma (unat sz) \<le> 513"
  proof (rule ccontr)
    assume "\<not> prp_pages dma (unat sz) \<le> 513"
    then have over: "load64 (?f r) ?a = nvme_page_align_up dma + 4096 * 512" for r
      using assms(2) by (intro setup_prps_overflow) auto
    have "load64 (?f r) ?a = load64 r ?a" for r
    proof (rule load64_cong)
      fix i :: nat assume "i < 8"
      then have "?a + of_nat i - prp_slot n slot = of_nat (4096 + i)" by simp
      then have "unat (?a + of_nat i - prp_slot n slot) = 4096 + i"
        using \<open>i < 8\<close> unat_of_nat_u64 [of "4096 + i"] by simp
      with frame show "?f r (?a + of_nat i) = r (?a + of_nat i)" by simp
    qed
    with over have "load64 (\<lambda>_. 0) ?a = load64 (\<lambda>_. 1) ?a" by metis
    then have "bit (load64 (\<lambda>_. 0) ?a) 0 = bit (load64 (\<lambda>_. 1) ?a) 0" by simp
    then show False by (simp add: load64_const bit_le_word)
  qed
qed

theorem prp_list_in_slot_iff_witness:
  "snd (snd (setup_prps nvme_data_init (\<lambda>_. 7) 3 0x5000 0x200000)) 0x4000 = 7
   \<and> (\<exists>r x. 4096 \<le> unat (x - prp_slot nvme_data_init 3)
        \<and> snd (snd (setup_prps nvme_data_init r 3 0x5000 0x300000)) x \<noteq> r x)"
proof -
  have a: "0 < unat (0x200000 :: u64)" "unat (0x5000 :: u64) mod 4096 + unat (0x200000 :: u64) + 4095 < 2 ^ 60"
    and b: "0 < unat (0x300000 :: u64)" "unat (0x5000 :: u64) mod 4096 + unat (0x300000 :: u64) + 4095 < 2 ^ 60"
    by simp_all
  have "prp_pages 0x5000 (unat (0x200000 :: u64)) \<le> 513" "\<not> prp_pages 0x5000 (unat (0x300000 :: u64)) \<le> 513"
    by (simp_all add: prp_pages_def)
  moreover have "4096 \<le> unat (0x4000 - prp_slot nvme_data_init 3)"
    by (simp add: prp_slot_def nvme_data_init_def)
  ultimately show ?thesis
    using prp_list_in_slot_iff [OF a, of nvme_data_init 3] prp_list_in_slot_iff [OF b, of nvme_data_init 3] by blast
qed

end
