(* ===== verification/Ring.thy ===== *)
theory Ring
  imports Main
begin

text \<open>
  The interface of a circular queue index. Four places of \<^verbatim>\<open>tools/nvme.c\<close> advance an index with a wrap
  at the queue depth (the tails of the I/O and admin submission queues, the heads of the I/O and
  admin completion queues); the two completion queues also flip an expected phase tag at each wrap.
  The locales state what one advance promises and derive the position and the phase after any number
  of advances. Each of the four is an interpretation, in the theory of its queue.
\<close>

locale ring =
  fixes step :: "'a \<Rightarrow> 'a" and pos :: "'a \<Rightarrow> nat" and depth :: "'a \<Rightarrow> nat"
  assumes depth_step: "depth (step s) = depth s"
    and pos_step: "pos s < depth s \<Longrightarrow> pos (step s) = (if Suc (pos s) = depth s then 0 else Suc (pos s))"
begin

lemma pos_bound: "pos s < depth s \<Longrightarrow> pos (step s) < depth s"
  by (auto simp: pos_step)

lemma pos_mod: "pos s < depth s \<Longrightarrow> pos s = k mod depth s \<Longrightarrow> pos (step s) = Suc k mod depth s"
  by (auto simp: pos_step mod_Suc)

lemma depth_iterate: "depth ((step ^^ j) s) = depth s"
  by (induction j) (simp_all add: depth_step)

lemma pos_iterate:
  "pos s < depth s \<Longrightarrow> pos s = k mod depth s \<Longrightarrow> pos ((step ^^ j) s) = (k + j) mod depth s"
proof (induction j)
  case 0
  then show ?case by simp
next
  case (Suc j)
  then show ?case
    using pos_mod [of "(step ^^ j) s" "k + j"] by (simp add: depth_iterate)
qed

text \<open>A queue of \<open>depth\<close> slots comes round after exactly \<open>depth\<close> advances, and not before.\<close>

lemma pos_return_iff:
  assumes "pos s < depth s" and "j \<le> depth s"
  shows "pos ((step ^^ j) s) = pos s \<longleftrightarrow> j = 0 \<or> j = depth s"
proof -
  have "pos ((step ^^ j) s) = (pos s + j) mod depth s"
    using pos_iterate [of s "pos s" j] assms(1) by simp
  moreover have "(pos s + j) mod depth s = pos s \<longleftrightarrow> j = 0 \<or> j = depth s"
  proof (cases "pos s + j < depth s")
    case True
    then show ?thesis using assms by auto
  next
    case False
    then have "(pos s + j) mod depth s = pos s + j - depth s"
      using assms by (simp add: le_mod_geq)
    then show ?thesis using False assms by auto
  qed
  ultimately show ?thesis by simp
qed

end

text \<open>The phase tag of the entry at absolute position \<open>k\<close>, when the first lap has tag \<open>p\<close>.\<close>

definition phase_at :: "('p \<Rightarrow> 'p) \<Rightarrow> 'p \<Rightarrow> nat \<Rightarrow> nat \<Rightarrow> 'p" where
  "phase_at flip p d k = (if even (k div d) then p else flip p)"

locale phase_ring = ring +
  fixes phase :: "'a \<Rightarrow> 'p" and flip :: "'p \<Rightarrow> 'p"
  assumes phase_step: "pos s < depth s \<Longrightarrow> phase (step s) = (if Suc (pos s) = depth s then flip (phase s) else phase s)"
    and flip_flip: "flip (flip p) = p"
begin

lemma phase_at_0: "phase_at flip p d 0 = p"
  by (simp add: phase_at_def)

lemma phase_mod:
  assumes "pos s < depth s" and "pos s = k mod depth s" and "phase s = phase_at flip p (depth s) k"
  shows "phase (step s) = phase_at flip p (depth s) (Suc k)"
  using assms flip_flip by (auto simp: phase_step phase_at_def div_Suc mod_Suc)

lemma phase_iterate:
  assumes "pos s < depth s" and "pos s = k mod depth s" and "phase s = phase_at flip p (depth s) k"
  shows "phase ((step ^^ j) s) = phase_at flip p (depth s) (k + j)"
proof (induction j)
  case 0
  then show ?case using assms(3) by simp
next
  case (Suc j)
  have "pos ((step ^^ j) s) = (k + j) mod depth s" using assms by (intro pos_iterate)
  then show ?case
    using Suc assms(1) phase_mod [of "(step ^^ j) s" "k + j" p] by (simp add: depth_iterate)
qed

text \<open>Two entries one lap apart carry different phase tags, so a stale entry is never taken for a new one.\<close>

lemma phase_lap: "0 < d \<Longrightarrow> flip p \<noteq> p \<Longrightarrow> phase_at flip p d (k + d) \<noteq> phase_at flip p d k"
  by (auto simp: phase_at_def div_add_self2)

end

end
