(* ===== verification/Nvme_Io.thy ===== *)
theory Nvme_Io
  imports Nvme_Prp Ring
begin

text \<open>
  The I/O submission path of \<^verbatim>\<open>tools/nvme.c\<close>: \<^verbatim>\<open>submit_rw_command\<close>, \<^verbatim>\<open>nvme_read\<close>, \<^verbatim>\<open>nvme_write\<close>,
  \<^verbatim>\<open>nvme_trim\<close> and \<^verbatim>\<open>nvme_multi_range_trim\<close>. Each builds one submission queue entry in the slot of the
  tail, advances the tail and writes the doorbell. \<^verbatim>\<open>struct io_u\<close> and \<^verbatim>\<open>struct trim_range\<close> are fio's;
  the record below has the fields the engine reads, and the array of ranges that \<^verbatim>\<open>xfer_buf\<close> points
  to in a multi-range trim is the function \<open>io_trim\<close>.
\<close>

unbundle bit_operations_syntax

datatype ddir = DDIR_READ | DDIR_WRITE | DDIR_TRIM | DDIR_OTHER

record io_u =
  io_ddir :: ddir
  io_offset :: u64
  xfer_buflen :: u64
  xfer_buf :: u64
  number_trim :: u32
  io_trim :: "nat \<Rightarrow> u64 \<times> u64"  \<comment> \<open>start and length of each range\<close>
  io_error :: int

section \<open>The code\<close>

definition nvme_reg_write32_fast :: "'s env \<Rightarrow> u64 \<Rightarrow> u32 \<Rightarrow> u32 \<Rightarrow> 's world \<Rightarrow> 's world" where
  "nvme_reg_write32_fast E bar0 offset v w = mmio_write32 E (bar0 + ucast offset) v w"

text \<open>The structure stores of \<^verbatim>\<open>submit_rw_command\<close> into one queue entry.\<close>

definition fill_rw_sqe ::
  "ram \<Rightarrow> u64 \<Rightarrow> u8 \<Rightarrow> u16 \<Rightarrow> u16 \<Rightarrow> u64 \<Rightarrow> u64 \<Rightarrow> u64 \<Rightarrow> u64 \<Rightarrow> ram" where
  "fill_rw_sqe r cmd opcode cmd_id nsid prp1 prp2 offset sz =
     (let r = memset0 r cmd 64;
          r = store8 r cmd opcode;
          r = store16 r (cmd + 2) cmd_id;
          r = store32 r (cmd + 4) (ucast nsid);
          r = store64 r (cmd + 24) prp1;
          r = store64 r (cmd + 32) prp2;
          r = store64 r (cmd + 40) offset
      in store32 r (cmd + 48) (ucast (sz - 1)))"

text \<open>Stores through \<^verbatim>\<open>volatile uint32_t *cmd\<close>, given as index and value.\<close>

fun store_dwords :: "ram \<Rightarrow> u64 \<Rightarrow> (nat \<times> u32) list \<Rightarrow> ram" where
  "store_dwords r a [] = r"
| "store_dwords r a ((i, v) # vs) = store_dwords (store32 r (a + 4 * of_nat i) v) a vs"

text \<open>\<^verbatim>\<open>++n->io_sq_tail\<close> with the wrap at the queue depth.\<close>

definition sq_advance :: "nvme_data \<Rightarrow> nvme_data" where
  "sq_advance n =
     (let n = n\<lparr>io_sq_tail := io_sq_tail n + 1\<rparr> in
      if io_sq_tail n = io_sq_depth n then n\<lparr>io_sq_tail := 0\<rparr> else n)"

text \<open>\<^verbatim>\<open>memory_barrier(); nvme_reg_write32_fast(c->bar0_virt, n->io_sq_tail_db, n->io_sq_tail)\<close>.\<close>

definition ring_sq_doorbell :: "'s env \<Rightarrow> controller_data \<Rightarrow> nvme_data \<Rightarrow> 's world \<Rightarrow> 's world" where
  "ring_sq_doorbell E c n w =
     nvme_reg_write32_fast E (bar0_virt c) (io_sq_tail_db n) (io_sq_tail n) (emit Ev_Barrier w)"

definition submit_rw_command ::
  "'s env \<Rightarrow> controller_data \<Rightarrow> nvme_data \<Rightarrow> u8 \<Rightarrow> u64 \<Rightarrow> u64 \<Rightarrow> u64 \<Rightarrow> 's world
     \<Rightarrow> u16 \<times> nvme_data \<times> 's world" where
  "submit_rw_command E c n opcode offset sz dma w =
     (let transfer_size = push_bit (lba_shift c) sz;
          sq_slot = io_sq_tail n
      in case setup_prps n (ram w) sq_slot dma transfer_size of (prp1, prp2, r) \<Rightarrow>
        let cmd_id = io_cmd_id n + 1;
            n = n\<lparr>io_cmd_id := cmd_id\<rparr>;
            cmd = io_sq_virt_addr n + ucast sq_slot * 64;
            w = w\<lparr>ram := fill_rw_sqe r cmd opcode cmd_id (c_nsid c) prp1 prp2 offset sz\<rparr>;
            n = sq_advance n
        in (cmd_id, n, ring_sq_doorbell E c n w))"

definition nvme_read ::
  "'s env \<Rightarrow> controller_data \<Rightarrow> nvme_data \<Rightarrow> u64 \<Rightarrow> u64 \<Rightarrow> u64 \<Rightarrow> 's world \<Rightarrow> u16 \<times> nvme_data \<times> 's world" where
  "nvme_read E c n offset sz dma w = submit_rw_command E c n NVME_IO_READ_OPCODE offset sz dma w"

definition nvme_write ::
  "'s env \<Rightarrow> controller_data \<Rightarrow> nvme_data \<Rightarrow> u64 \<Rightarrow> u64 \<Rightarrow> u64 \<Rightarrow> 's world \<Rightarrow> u16 \<times> nvme_data \<times> 's world" where
  "nvme_write E c n offset sz dma w = submit_rw_command E c n NVME_IO_WRITE_OPCODE offset sz dma w"

definition nvme_trim ::
  "'s env \<Rightarrow> controller_data \<Rightarrow> nvme_data \<Rightarrow> u64 \<Rightarrow> u64 \<Rightarrow> 's world \<Rightarrow> u16 \<times> nvme_data \<times> 's world" where
  "nvme_trim E c n offset sz w =
     (let sq_slot = io_sq_tail n;
          range_offset = push_bit 12 (ucast sq_slot);
          rng = io_prp_list_virt_addr n + range_offset;
          range_phys = io_prp_list_phys_addr n + range_offset;
          r = store_dsm_range (ram w) rng 0 (ucast sz) offset;
          cmd_id = io_cmd_id n + 1;
          n = n\<lparr>io_cmd_id := cmd_id\<rparr>;
          cmd = io_sq_virt_addr n + ucast sq_slot * 64;
          r = memset0 r cmd 64;
          r = store_dwords r cmd
                [(0, NVME_IO_DATASET_MANAGEMENT_OPCODE OR push_bit 16 (ucast cmd_id)),
                 (1, ucast (c_nsid c)),
                 (6, ucast range_phys),
                 (7, ucast (drop_bit 32 range_phys)),
                 (10, 0),
                 (11, NVME_DSM_ATTR_DEALLOCATE)];
          n = sq_advance n
      in (cmd_id, n, ring_sq_doorbell E c n (w\<lparr>ram := r\<rparr>)))"

text \<open>The range loop of \<^verbatim>\<open>nvme_multi_range_trim\<close>.\<close>

function dsm_fill :: "ram \<Rightarrow> u64 \<Rightarrow> (nat \<Rightarrow> u64 \<times> u64) \<Rightarrow> nat \<Rightarrow> u32 \<Rightarrow> u32 \<Rightarrow> ram" where
  "dsm_fill r rng tr shift i num_range =
     (if i < num_range then
        (case tr (unat i) of (start, len) \<Rightarrow>
          dsm_fill (store_dsm_range r rng 0 (ucast (drop_bit shift len)) (drop_bit shift start))
            (rng + 16) tr shift (i + 1) num_range)
      else r)"
  by pat_completeness auto
termination
  by (relation "measure (\<lambda>(r, rng, tr, shift, i, num_range). unat num_range - unat i)")
    (auto simp: word_less_nat_alt unat_Suc_u32)

declare dsm_fill.simps [simp del]

definition nvme_multi_range_trim ::
  "'s env \<Rightarrow> controller_data \<Rightarrow> nvme_data \<Rightarrow> io_u \<Rightarrow> 's world \<Rightarrow> u16 \<times> nvme_data \<times> 's world" where
  "nvme_multi_range_trim E c n io w =
     (let sq_slot = io_sq_tail n;
          range_offset = push_bit 12 (ucast sq_slot);
          rng = io_prp_list_virt_addr n + range_offset;
          range_phys = io_prp_list_phys_addr n + range_offset;
          num_range = number_trim io;
          r = dsm_fill (ram w) rng (io_trim io) (lba_shift c) 0 num_range;
          cmd_id = io_cmd_id n + 1;
          n = n\<lparr>io_cmd_id := cmd_id\<rparr>;
          cmd = io_sq_virt_addr n + ucast sq_slot * 64;
          r = memset0 r cmd 64;
          r = store_dwords r cmd
                [(0, NVME_IO_DATASET_MANAGEMENT_OPCODE OR push_bit 16 (ucast cmd_id)),
                 (1, ucast (c_nsid c)),
                 (6, ucast range_phys),
                 (7, ucast (drop_bit 32 range_phys)),
                 (10, num_range - 1),
                 (11, NVME_DSM_ATTR_DEALLOCATE)];
          n = sq_advance n
      in (cmd_id, n, ring_sq_doorbell E c n (w\<lparr>ram := r\<rparr>)))"

section \<open>Queue entries in memory\<close>

abbreviation sqe_addr :: "nvme_data \<Rightarrow> u64" where
  "sqe_addr n \<equiv> io_sq_virt_addr n + ucast (io_sq_tail n) * 64"

lemma load_command_fill_rw:
  "load_command (fill_rw_sqe r cmd opcode cmd_id nsid prp1 prp2 offset sz) cmd =
     \<lparr>cmd_opcode = opcode, cmd_flags = 0, command_id = cmd_id, cmd_nsid = ucast nsid,
      cmd_reserved2 = 0, cmd_metadata = 0, cmd_prp1 = prp1, cmd_prp2 = prp2, cmd_slba = offset,
      cmd_length = ucast (sz - 1), cmd_dsmgmt = 0, cmd_reftag = 0, cmd_apptag = 0, cmd_appmask = 0\<rparr>"
  by (simp add: load_command_def fill_rw_sqe_def Let_def ram_simps)

lemma fill_rw_sqe_frame:
  "64 \<le> unat (x - cmd) \<Longrightarrow> fill_rw_sqe r cmd opcode cmd_id nsid prp1 prp2 offset sz x = r x"
  by (simp add: fill_rw_sqe_def Let_def store_frame window_distance [where m = 64])

text \<open>A queue entry written as six double words, the way the trim and admin paths write it.\<close>

lemma load_command_dwords:
  "load_command
     (store_dwords (memset0 r a 64) a [(0, d0), (1, d1), (6, d6), (7, d7), (10, d10), (11, d11)]) a =
     \<lparr>cmd_opcode = ucast d0, cmd_flags = ucast (drop_bit 8 d0), command_id = ucast (drop_bit 16 d0),
      cmd_nsid = d1, cmd_reserved2 = 0, cmd_metadata = 0,
      cmd_prp1 = ucast d6 OR push_bit 32 (ucast d7), cmd_prp2 = 0,
      cmd_slba = ucast d10 OR push_bit 32 (ucast d11),
      cmd_length = 0, cmd_dsmgmt = 0, cmd_reftag = 0, cmd_apptag = 0, cmd_appmask = 0\<rparr>"
  using load8_of_load32 [of 0 _ a] load8_of_load32 [of 1 _ a]
  by (simp add: load_command_def load16_of_load32 [of _ a] load64_of_load32 ram_simps add.assoc)

lemma store_dwords_frame:
  "\<forall>(i, v) \<in> set vs. i < 16 \<Longrightarrow> 64 \<le> unat (x - a) \<Longrightarrow> store_dwords r a vs x = r x"
proof (induction vs arbitrary: r)
  case Nil
  then show ?case by simp
next
  case (Cons iv vs)
  obtain i v where iv: "iv = (i, v)" by (cases iv)
  have "unat (4 * of_nat i :: u64) = 4 * i"
    using Cons.prems(1) iv unat_of_nat_u64 [of "4 * i"] by simp
  then have "4 \<le> unat (x - (a + 4 * of_nat i))"
    using Cons.prems iv by (intro window_distance [where m = 64]) auto
  with Cons iv show ?case by (simp add: store_frame)
qed

text \<open>Recombining what the code splits.\<close>

lemma split_join_u64: "ucast (ucast v :: u32) OR push_bit 32 (ucast (ucast (drop_bit 32 v) :: u32)) = (v :: u64)"
  by (rule bit_word_eqI) (auto simp: bit_simps not_less)

lemma cmd0_fields:
  fixes cid :: u16 and opc :: u8
  shows "(ucast (ucast opc OR push_bit 16 (ucast cid) :: u32) :: u8) = opc"
    and "(ucast (drop_bit 8 (ucast opc OR push_bit 16 (ucast cid) :: u32)) :: u8) = 0"
    and "(ucast (drop_bit 16 (ucast opc OR push_bit 16 (ucast cid) :: u32)) :: u16) = cid"
  by (rule bit_word_eqI, auto simp: bit_simps dest: bit_imp_le_length)+

text \<open>The Dataset Management entry of both trim paths, and the bytes it leaves alone.\<close>

definition fill_dsm_sqe :: "ram \<Rightarrow> u64 \<Rightarrow> u16 \<Rightarrow> u16 \<Rightarrow> u64 \<Rightarrow> u32 \<Rightarrow> ram" where
  "fill_dsm_sqe r a cid nsid phys d10 = store_dwords (memset0 r a 64) a
     [(0, NVME_IO_DATASET_MANAGEMENT_OPCODE OR push_bit 16 (ucast cid)), (1, ucast nsid),
      (6, ucast phys), (7, ucast (drop_bit 32 phys)), (10, d10), (11, NVME_DSM_ATTR_DEALLOCATE)]"

lemma load_command_dsm:
  "load_command (fill_dsm_sqe r a cid nsid phys d10) a =
     \<lparr>cmd_opcode = 9, cmd_flags = 0, command_id = cid, cmd_nsid = ucast nsid,
      cmd_reserved2 = 0, cmd_metadata = 0, cmd_prp1 = phys, cmd_prp2 = 0,
      cmd_slba = ucast d10 OR push_bit 32 4, cmd_length = 0, cmd_dsmgmt = 0, cmd_reftag = 0,
      cmd_apptag = 0, cmd_appmask = 0\<rparr>"
  unfolding fill_dsm_sqe_def load_command_dwords using cmd0_fields [of 9 cid]
  by (simp add: split_join_u64)

lemma fill_dsm_sqe_frame: "64 \<le> unat (x - a) \<Longrightarrow> fill_dsm_sqe r a cid nsid phys d10 x = r x"
  unfolding fill_dsm_sqe_def by (subst store_dwords_frame) (auto simp: store_frame)

lemma sq_advance_simps:
  "sq_advance n = n\<lparr>io_sq_tail := if io_sq_tail n + 1 = io_sq_depth n then 0 else io_sq_tail n + 1\<rparr>"
  by (simp add: sq_advance_def Let_def)

text \<open>The tail of the submission queue is a ring.\<close>

interpretation sq: ring sq_advance "\<lambda>n. unat (io_sq_tail n)" "\<lambda>n. unat (io_sq_depth n)"
  by unfold_locales (auto simp: sq_advance_simps Suc_unat_eq_iff unat_Suc_less word_less_nat_alt [symmetric])

section \<open>DSM ranges in memory\<close>

definition dsm_range_of :: "nat \<Rightarrow> u64 \<times> u64 \<Rightarrow> nvme_dsm_range" where
  "dsm_range_of shift tr =
     \<lparr>context_attributes = 0, range_length = ucast (drop_bit shift (snd tr)),
      range_slba = drop_bit shift (fst tr)\<rparr>"

lemma load_store_dsm_range:
  "load_dsm_range (store_dsm_range r a attrs len slba) a =
     \<lparr>context_attributes = attrs, range_length = len, range_slba = slba\<rparr>"
  by (simp add: load_dsm_range_def store_dsm_range_def ram_simps)

lemma store_dsm_range_frame: "16 \<le> unat (x - a) \<Longrightarrow> store_dsm_range r a attrs len slba x = r x"
  by (simp add: store_dsm_range_def store_frame window_distance [where m = 16])

lemma load_dsm_range_cong:
  assumes "\<And>i. i < 16 \<Longrightarrow> r (a + of_nat i) = r' (a + of_nat i)"
  shows "load_dsm_range r a = load_dsm_range r' a"
proof -
  have "load_bytes r a 4 = load_bytes r' a 4" using assms by (intro load_bytes_cong) simp
  moreover have "load_bytes r (a + 4) 4 = load_bytes r' (a + 4) 4"
    using assms [of "4 + i" for i] by (intro load_bytes_cong) (simp add: add.assoc)
  moreover have "load_bytes r (a + 8) 8 = load_bytes r' (a + 8) 8"
    using assms [of "8 + i" for i] by (intro load_bytes_cong) (simp add: add.assoc)
  ultimately show ?thesis by (simp add: load_dsm_range_def load32_def load64_def)
qed

lemma dsm_fill_step:
  "i < num \<Longrightarrow> dsm_fill r a tr shift i num =
     dsm_fill (store_dsm_range r a 0 (ucast (drop_bit shift (snd (tr (unat i))))) (drop_bit shift (fst (tr (unat i)))))
       (a + 16) tr shift (i + 1) num"
  by (subst dsm_fill.simps) (simp split: prod.splits)

lemma dsm_fill_done: "\<not> i < num \<Longrightarrow> dsm_fill r a tr shift i num = r"
  by (subst dsm_fill.simps) simp

lemma dsm_fill_frame:
  assumes "k = unat num - unat i" and "16 * k \<le> unat (x - a)"
  shows "dsm_fill r a tr shift i num x = r x"
  using assms
proof (induction k arbitrary: r a i)
  case 0
  then show ?case by (simp add: dsm_fill_done word_less_nat_alt)
next
  case (Suc k)
  then have i: "i < num" by (simp add: word_less_nat_alt)
  have "16 * k \<le> unat (x - (a + 16))" using Suc.prems by (intro window_distance [where m = "16 * Suc k"]) auto
  with Suc i show ?case by (simp add: dsm_fill_step [OF i] unat_Suc_u32 [OF i] store_dsm_range_frame)
qed

lemma dsm_fill_entry:
  assumes "k = unat num - unat i" and "j < k" and "16 * k < 2 ^ 64 - 16"
  shows "load_dsm_range (dsm_fill r a tr shift i num) (a + 16 * of_nat j) = dsm_range_of shift (tr (unat i + j))"
  using assms
proof (induction k arbitrary: r a i j)
  case 0
  then show ?case by simp
next
  case (Suc k)
  then have i: "i < num" by (simp add: word_less_nat_alt)
  have k: "k = unat num - unat (i + 1)" using Suc.prems i by (simp add: unat_Suc_u32)
  show ?case
  proof (cases j)
    case 0
    let ?r = "store_dsm_range r a 0 (ucast (drop_bit shift (snd (tr (unat i))))) (drop_bit shift (fst (tr (unat i))))"
    have "load_dsm_range (dsm_fill ?r (a + 16) tr shift (i + 1) num) a = load_dsm_range ?r a"
      using Suc.prems unat_behind [of _ 16 a]
      by (intro load_dsm_range_cong dsm_fill_frame [OF k]) simp
    with 0 show ?thesis by (simp add: dsm_fill_step [OF i] load_store_dsm_range dsm_range_of_def)
  next
    case (Suc m)
    have "load_dsm_range (dsm_fill r' (a + 16) tr shift (i + 1) num) (a + 16 + 16 * of_nat m)
        = dsm_range_of shift (tr (Suc (unat i) + m))" for r'
      unfolding unat_Suc_u32 [OF i, symmetric] using Suc.prems \<open>j = Suc m\<close> by (intro Suc.IH [OF k]) auto
    with \<open>j = Suc m\<close> show ?thesis
      by (simp add: dsm_fill_step [OF i] algebra_simps)
  qed
qed

section \<open>Properties\<close>

text \<open>The queue entry at the tail and the slot's page of the PRP list buffer do not overlap.\<close>

definition sqe_apart :: "nvme_data \<Rightarrow> bool" where
  "sqe_apart n \<longleftrightarrow> 64 \<le> unat (prp_slot n (io_sq_tail n) - sqe_addr n)
     \<and> 4096 \<le> unat (sqe_addr n - prp_slot n (io_sq_tail n))"

lemma sqe_apart_distance:
  "sqe_apart n \<Longrightarrow> k < 4096 \<Longrightarrow> 64 \<le> unat (prp_slot n (io_sq_tail n) + of_nat k - sqe_addr n)"
  unfolding sqe_apart_def by (elim conjE) (rule apart_distance)

lemma sqe_apart_dsm:
  assumes "sqe_apart n" and "j < 256"
    and "\<And>x. 64 \<le> unat (x - sqe_addr n) \<Longrightarrow> r' x = r x"
  shows "load_dsm_range r' (prp_slot n (io_sq_tail n) + 16 * of_nat j)
       = load_dsm_range r (prp_slot n (io_sq_tail n) + 16 * of_nat j)"
proof (rule load_dsm_range_cong, rule assms(3))
  fix i :: nat assume "i < 16"
  with assms(2) sqe_apart_distance [OF assms(1), of "16 * j + i"]
  show "64 \<le> unat (prp_slot n (io_sq_tail n) + 16 * of_nat j + of_nat i - sqe_addr n)"
    by (simp add: add.assoc)
qed

lemma rw_command_transfer:
  assumes apart: "sqe_apart n"
    and len: "len = unat (push_bit (lba_shift c) sz)" "0 < len" "unat dma mod 4096 + len \<le> 513 * 4096"
    and run: "submit_rw_command E c n opcode offset sz dma w = (cid, n', w')"
  shows "\<exists>r prp2. w' = ring_sq_doorbell E c n' (w\<lparr>ram := r\<rparr>)
    \<and> load_command r (sqe_addr n) =
        \<lparr>cmd_opcode = opcode, cmd_flags = 0, command_id = cid, cmd_nsid = ucast (c_nsid c),
         cmd_reserved2 = 0, cmd_metadata = 0, cmd_prp1 = dma, cmd_prp2 = prp2, cmd_slba = offset,
         cmd_length = ucast (sz - 1), cmd_dsmgmt = 0, cmd_reftag = 0, cmd_apptag = 0, cmd_appmask = 0\<rparr>
    \<and> (prp_bytes (prp_device_read n r) dma prp2 len = byte_run dma len \<longleftrightarrow> nvme_page_offset dma \<noteq> 0 \<or> len \<le> 4096)
    \<and> (\<forall>x. 64 \<le> unat (x - sqe_addr n) \<and> 4096 \<le> unat (x - prp_slot n (io_sq_tail n)) \<longrightarrow> r x = ram w x)
    \<and> cid = io_cmd_id n + 1
    \<and> n' = n\<lparr>io_cmd_id := cid,
            io_sq_tail := if io_sq_tail n + 1 = io_sq_depth n then 0 else io_sq_tail n + 1\<rparr>"
proof -
  let ?sz = "push_bit (lba_shift c) sz"
  obtain prp1 prp2 r1 where sp: "setup_prps n (ram w) (io_sq_tail n) dma ?sz = (prp1, prp2, r1)"
    by (cases "setup_prps n (ram w) (io_sq_tail n) dma ?sz")
  have p1: "prp1 = dma" using sp by (auto simp: setup_prps_def Let_def split: if_splits)
  define r where "r = fill_rw_sqe r1 (sqe_addr n) opcode cid (c_nsid c) prp1 prp2 offset sz"
  have keep: "r x = r1 x" if "64 \<le> unat (x - sqe_addr n)" for x
    using that by (simp add: r_def fill_rw_sqe_frame)
  have "prp_bytes (prp_device_read n r) prp1 prp2 (unat ?sz)
      = byte_run dma (prp_first dma (unat ?sz))
        @ byte_run (nvme_page_align_up dma) (unat ?sz - prp_first dma (unat ?sz))"
    using len by (intro setup_prps_bytes [OF _ _ sp prp_first_def] keep sqe_apart_distance [OF apart]) auto
  then have bytes: "prp_bytes (prp_device_read n r) dma prp2 len = byte_run dma len
      \<longleftrightarrow> nvme_page_offset dma \<noteq> 0 \<or> len \<le> 4096"
    using len(1) p1 prp_run_iff [of dma len] by simp
  have frame: "r x = ram w x"
    if "64 \<le> unat (x - sqe_addr n)" "4096 \<le> unat (x - prp_slot n (io_sq_tail n))" for x
    using that keep [of x] setup_prps_frame [of ?sz dma x n "io_sq_tail n" "ram w"] sp len by simp
  from run sp have "cid = io_cmd_id n + 1" "w' = ring_sq_doorbell E c n' (w\<lparr>ram := r\<rparr>)"
    "n' = n\<lparr>io_cmd_id := cid, io_sq_tail := if io_sq_tail n + 1 = io_sq_depth n then 0 else io_sq_tail n + 1\<rparr>"
    by (auto simp: submit_rw_command_def Let_def r_def sq_advance_simps)
  moreover have "load_command r (sqe_addr n) =
      \<lparr>cmd_opcode = opcode, cmd_flags = 0, command_id = cid, cmd_nsid = ucast (c_nsid c),
       cmd_reserved2 = 0, cmd_metadata = 0, cmd_prp1 = dma, cmd_prp2 = prp2, cmd_slba = offset,
       cmd_length = ucast (sz - 1), cmd_dsmgmt = 0, cmd_reftag = 0, cmd_apptag = 0, cmd_appmask = 0\<rparr>"
    by (simp add: r_def load_command_fill_rw p1)
  ultimately show ?thesis using bytes frame by blast
qed

text \<open>
  C3: When the doorbell of a read or write is written, the queue entry at the old tail holds the
  requested command (opcode, fresh command id, namespace, first block, zero-based block count), memory
  outside this entry and the slot's own PRP page is untouched, and the thread's command id and tail have
  advanced. The PRPs of the entry describe exactly the bytes of the data buffer in order if and only if the
  buffer is not both page-aligned and longer than a page. The transfer touches at most 513 pages.
\<close>

theorem rw_command_describes_transfer:
  assumes apart: "sqe_apart n"
    and len: "len = unat (push_bit (lba_shift c) sz)" "0 < len" "unat dma mod 4096 + len \<le> 513 * 4096"
    and run: "submit_rw_command E c n opcode offset sz dma w = (cid, n', w')"
  shows "\<exists>r prp2. w' = ring_sq_doorbell E c n' (w\<lparr>ram := r\<rparr>)
    \<and> load_command r (sqe_addr n) =
        \<lparr>cmd_opcode = opcode, cmd_flags = 0, command_id = cid, cmd_nsid = ucast (c_nsid c),
         cmd_reserved2 = 0, cmd_metadata = 0, cmd_prp1 = dma, cmd_prp2 = prp2, cmd_slba = offset,
         cmd_length = ucast (sz - 1), cmd_dsmgmt = 0, cmd_reftag = 0, cmd_apptag = 0, cmd_appmask = 0\<rparr>
    \<and> (prp_bytes (prp_device_read n r) dma prp2 len = byte_run dma len \<longleftrightarrow> nvme_page_offset dma \<noteq> 0 \<or> len \<le> 4096)
    \<and> (\<forall>x. 64 \<le> unat (x - sqe_addr n) \<and> 4096 \<le> unat (x - prp_slot n (io_sq_tail n)) \<longrightarrow> r x = ram w x)
    \<and> cid = io_cmd_id n + 1
    \<and> n' = n\<lparr>io_cmd_id := cid,
            io_sq_tail := if io_sq_tail n + 1 = io_sq_depth n then 0 else io_sq_tail n + 1\<rparr>"
  by (rule rw_command_transfer [OF assms])

text \<open>
  C4: When the doorbell of a single-range trim is written, the queue entry at the old tail is a
  Dataset Management command with the deallocate attribute and one range (\<^verbatim>\<open>cdw10\<close> is the range count
  minus one, \<^verbatim>\<open>cdw11\<close> the attributes), its PRP1 is the physical address of the slot's page, and that
  page starts with the requested range.
\<close>

theorem trim_command_correct:
  assumes apart: "sqe_apart n" and run: "nvme_trim E c n offset sz w = (cid, n', w')"
  shows "\<exists>r. w' = ring_sq_doorbell E c n' (w\<lparr>ram := r\<rparr>)
    \<and> load_command r (sqe_addr n) =
        \<lparr>cmd_opcode = 9, cmd_flags = 0, command_id = cid, cmd_nsid = ucast (c_nsid c),
         cmd_reserved2 = 0, cmd_metadata = 0,
         cmd_prp1 = io_prp_list_phys_addr n + push_bit 12 (ucast (io_sq_tail n)), cmd_prp2 = 0,
         cmd_slba = push_bit 32 4, cmd_length = 0, cmd_dsmgmt = 0, cmd_reftag = 0,
         cmd_apptag = 0, cmd_appmask = 0\<rparr>
    \<and> load_dsm_range r (prp_slot n (io_sq_tail n)) =
        \<lparr>context_attributes = 0, range_length = ucast sz, range_slba = offset\<rparr>
    \<and> cid = io_cmd_id n + 1
    \<and> n' = n\<lparr>io_cmd_id := cid,
            io_sq_tail := if io_sq_tail n + 1 = io_sq_depth n then 0 else io_sq_tail n + 1\<rparr>"
proof -
  let ?phys = "io_prp_list_phys_addr n + push_bit 12 (ucast (io_sq_tail n))"
  define r1 where "r1 = store_dsm_range (ram w) (prp_slot n (io_sq_tail n)) 0 (ucast sz) offset"
  define r where "r = fill_dsm_sqe r1 (sqe_addr n) cid (c_nsid c) ?phys 0"
  have "load_dsm_range r (prp_slot n (io_sq_tail n)) = load_dsm_range r1 (prp_slot n (io_sq_tail n))"
    using sqe_apart_dsm [OF apart, of 0 r r1] by (simp add: r_def fill_dsm_sqe_frame)
  then have range: "load_dsm_range r (prp_slot n (io_sq_tail n)) =
      \<lparr>context_attributes = 0, range_length = ucast sz, range_slba = offset\<rparr>"
    by (simp add: r1_def load_store_dsm_range)
  from run have "cid = io_cmd_id n + 1" "w' = ring_sq_doorbell E c n' (w\<lparr>ram := r\<rparr>)"
    "n' = n\<lparr>io_cmd_id := cid, io_sq_tail := if io_sq_tail n + 1 = io_sq_depth n then 0 else io_sq_tail n + 1\<rparr>"
    by (auto simp: nvme_trim_def Let_def r_def r1_def fill_dsm_sqe_def prp_slot_def sq_advance_simps)
  with range show ?thesis
    using load_command_dsm [of r1 "sqe_addr n" cid "c_nsid c" ?phys 0] by (auto simp: r_def)
qed

text \<open>
  C5: A multi-range trim of up to 256 ranges writes one Dataset Management command whose range count
  (zero-based, in \<^verbatim>\<open>cdw10\<close>) is fio's number of ranges, and the slot's page then holds every range of
  the request in order, with start and length converted from bytes to blocks.
\<close>

theorem multi_range_trim_correct:
  assumes apart: "sqe_apart n" and num: "unat (number_trim io) \<le> 256"
    and run: "nvme_multi_range_trim E c n io w = (cid, n', w')"
  shows "\<exists>r. w' = ring_sq_doorbell E c n' (w\<lparr>ram := r\<rparr>)
    \<and> load_command r (sqe_addr n) =
        \<lparr>cmd_opcode = 9, cmd_flags = 0, command_id = cid, cmd_nsid = ucast (c_nsid c),
         cmd_reserved2 = 0, cmd_metadata = 0,
         cmd_prp1 = io_prp_list_phys_addr n + push_bit 12 (ucast (io_sq_tail n)), cmd_prp2 = 0,
         cmd_slba = ucast (number_trim io - 1) OR push_bit 32 4, cmd_length = 0, cmd_dsmgmt = 0,
         cmd_reftag = 0, cmd_apptag = 0, cmd_appmask = 0\<rparr>
    \<and> (\<forall>j < unat (number_trim io).
          load_dsm_range r (prp_slot n (io_sq_tail n) + 16 * of_nat j) =
            \<lparr>context_attributes = 0,
             range_length = ucast (drop_bit (lba_shift c) (snd (io_trim io j))),
             range_slba = drop_bit (lba_shift c) (fst (io_trim io j))\<rparr>)
    \<and> cid = io_cmd_id n + 1
    \<and> n' = n\<lparr>io_cmd_id := cid,
            io_sq_tail := if io_sq_tail n + 1 = io_sq_depth n then 0 else io_sq_tail n + 1\<rparr>"
proof -
  let ?phys = "io_prp_list_phys_addr n + push_bit 12 (ucast (io_sq_tail n))"
  let ?a = "prp_slot n (io_sq_tail n)"
  define r1 where "r1 = dsm_fill (ram w) ?a (io_trim io) (lba_shift c) 0 (number_trim io)"
  define r where "r = fill_dsm_sqe r1 (sqe_addr n) cid (c_nsid c) ?phys (number_trim io - 1)"
  have "load_dsm_range r (?a + 16 * of_nat j) = dsm_range_of (lba_shift c) (io_trim io j)"
    if "j < unat (number_trim io)" for j
  proof -
    have "load_dsm_range r (?a + 16 * of_nat j) = load_dsm_range r1 (?a + 16 * of_nat j)"
      using that num by (intro sqe_apart_dsm [OF apart]) (auto simp: r_def fill_dsm_sqe_frame)
    also have "\<dots> = dsm_range_of (lba_shift c) (io_trim io (unat (0 :: u32) + j))"
      unfolding r1_def using that num by (intro dsm_fill_entry [OF refl]) auto
    finally show ?thesis by simp
  qed
  moreover from run have "cid = io_cmd_id n + 1" "w' = ring_sq_doorbell E c n' (w\<lparr>ram := r\<rparr>)"
    "n' = n\<lparr>io_cmd_id := cid, io_sq_tail := if io_sq_tail n + 1 = io_sq_depth n then 0 else io_sq_tail n + 1\<rparr>"
    by (auto simp: nvme_multi_range_trim_def Let_def r_def r1_def fill_dsm_sqe_def prp_slot_def sq_advance_simps)
  moreover have "load_command r (sqe_addr n) =
      \<lparr>cmd_opcode = 9, cmd_flags = 0, command_id = cid, cmd_nsid = ucast (c_nsid c),
       cmd_reserved2 = 0, cmd_metadata = 0, cmd_prp1 = ?phys, cmd_prp2 = 0,
       cmd_slba = ucast (number_trim io - 1) OR push_bit 32 4, cmd_length = 0, cmd_dsmgmt = 0,
       cmd_reftag = 0, cmd_apptag = 0, cmd_appmask = 0\<rparr>"
    unfolding r_def by (rule load_command_dsm)
  ultimately show ?thesis
    unfolding dsm_range_of_def by blast
qed

text \<open>A thread whose submission queue, PRP list buffer and ring position are concrete.\<close>

definition sample_queue :: nvme_data where
  "sample_queue = nvme_data_init\<lparr>io_sq_virt_addr := 0x10000, io_prp_list_virt_addr := 0x20000,
     io_prp_list_phys_addr := 0x80000, io_sq_depth := 4, io_sq_tail := 3, io_cmd_id := 7,
     io_sq_tail_db := 0x1008\<rparr>"

lemma sample_queue_apart: "sqe_apart sample_queue"
  by (simp add: sqe_apart_def sample_queue_def prp_slot_def)

theorem rw_command_describes_transfer_witness:
  "\<exists>r prp2. load_command r 0x100c0 =
        \<lparr>cmd_opcode = 2, cmd_flags = 0, command_id = 8, cmd_nsid = 1,
         cmd_reserved2 = 0, cmd_metadata = 0, cmd_prp1 = 0x700200, cmd_prp2 = prp2, cmd_slba = 100,
         cmd_length = 15, cmd_dsmgmt = 0, cmd_reftag = 0, cmd_apptag = 0, cmd_appmask = 0\<rparr>
    \<and> prp_bytes (prp_device_read sample_queue r) 0x700200 prp2 8192 = byte_run 0x700200 8192"
proof -
  define c where "c = controller_zero\<lparr>lba_shift := 9, c_nsid := 1\<rparr>"
  obtain cid n' w' where run: "submit_rw_command idle_env c sample_queue 2 100 16 0x700200 idle_world = (cid, n', w')"
    by (cases "submit_rw_command idle_env c sample_queue 2 100 16 0x700200 idle_world")
  have len: "8192 = unat (push_bit (lba_shift c) (16 :: u64))" by (simp add: c_def)
  show ?thesis
    using rw_command_describes_transfer [OF sample_queue_apart len _ _ run]
    by (auto simp: nvme_page_offset_def c_def sample_queue_def)
qed

theorem trim_command_correct_witness:
  "\<exists>r. load_dsm_range r 0x23000 = \<lparr>context_attributes = 0, range_length = 16, range_slba = 100\<rparr>
     \<and> cmd_slba (load_command r 0x100c0) = 0x400000000 \<and> cmd_prp1 (load_command r 0x100c0) = 0x83000"
proof -
  define c where "c = controller_zero\<lparr>lba_shift := 9, c_nsid := 1\<rparr>"
  obtain cid n' w' where run: "nvme_trim idle_env c sample_queue 100 16 idle_world = (cid, n', w')"
    by (cases "nvme_trim idle_env c sample_queue 100 16 idle_world")
  show ?thesis
    using trim_command_correct [OF sample_queue_apart run]
    by (auto simp: sample_queue_def prp_slot_def)
qed

theorem multi_range_trim_correct_witness:
  "\<exists>r. load_dsm_range r 0x23000 = \<lparr>context_attributes = 0, range_length = 8, range_slba = 2\<rparr>
     \<and> load_dsm_range r 0x23010 = \<lparr>context_attributes = 0, range_length = 16, range_slba = 4\<rparr>
     \<and> cmd_slba (load_command r 0x100c0) = 0x400000001"
proof -
  define c where "c = controller_zero\<lparr>lba_shift := 9, c_nsid := 1\<rparr>"
  define io where "io = \<lparr>io_ddir = DDIR_TRIM, io_offset = 0, xfer_buflen = 0, xfer_buf = 0, number_trim = 2,
    io_trim = (\<lambda>j. if j = 0 then (0x400, 0x1000) else (0x800, 0x2000)), io_error = 0\<rparr>"
  have num: "unat (number_trim io) \<le> 256" "unat (number_trim io) = 2" by (simp_all add: io_def)
  obtain cid n' w' where run: "nvme_multi_range_trim idle_env c sample_queue io idle_world = (cid, n', w')"
    by (cases "nvme_multi_range_trim idle_env c sample_queue io idle_world")
  obtain r where
    cmd: "cmd_slba (load_command r (sqe_addr sample_queue)) = ucast (number_trim io - 1) OR push_bit 32 4"
    and rng: "\<forall>j < 2. load_dsm_range r (prp_slot sample_queue (io_sq_tail sample_queue) + 16 * of_nat j) =
            \<lparr>context_attributes = 0,
             range_length = ucast (drop_bit (lba_shift c) (snd (io_trim io j))),
             range_slba = drop_bit (lba_shift c) (fst (io_trim io j))\<rparr>"
    using multi_range_trim_correct [OF sample_queue_apart num(1) run] unfolding num(2)
    by (elim exE conjE) (rule that, simp_all)
  show ?thesis
    using cmd spec [OF rng, of 0] spec [OF rng, of 1]
    by (intro exI [of _ r]) (simp add: sample_queue_def prp_slot_def c_def io_def)
qed

end
