(* ===== verification/Nvme_Cq.thy ===== *)
theory Nvme_Cq
  imports Nvme_Io
begin

text \<open>
  The completion path of \<^verbatim>\<open>tools/nvme.c\<close>: \<^verbatim>\<open>poll_cq\<close>. The loop reads entries that the device may be
  writing at the same time: each access through the \<^verbatim>\<open>volatile\<close> pointer is a load preceded by a step
  of the device. \<^verbatim>\<open>exit(EXIT_FAILURE)\<close> is a value of the type \<open>fatal\<close>.
\<close>

unbundle bit_operations_syntax

section \<open>The code\<close>

datatype fatal = Io_Command_Failed u16 u16 | Unknown_Cid

text \<open>The loop variables \<^verbatim>\<open>head\<close>, \<^verbatim>\<open>phase_tag\<close> and \<^verbatim>\<open>cqe\<close>, and how an iteration ends.\<close>

type_synonym cursor = "u32 \<times> u8 \<times> u64"

definition cq_advance :: "u32 \<Rightarrow> u64 \<Rightarrow> cursor \<Rightarrow> cursor" where
  "cq_advance depth cq_base cur =
     (case cur of (head, phase_tag, cqe) \<Rightarrow>
        let head = head + 1; cqe = cqe + 16 in
        if head = depth then (0, phase_tag XOR 1, cq_base) else (head, phase_tag, cqe))"

function poll_loop ::
  "'s env \<Rightarrow> u16 \<Rightarrow> u16 \<Rightarrow> cursor \<Rightarrow> nvme_data \<Rightarrow> 's world \<Rightarrow> fatal + u16 \<times> cursor \<times> nvme_data \<times> 's world" where
  "poll_loop E max_count count cur n w =
     (if count = max_count then Inr (count, cur, n, w)
      else case cur of (head, phase_tag, cqe) \<Rightarrow>
      case vload16 E (cqe + 14) w of (psf, w) \<Rightarrow>
      if psf AND 1 \<noteq> ucast phase_tag then Inr (count, cur, n, w)
      else
        let sc = drop_bit 1 psf AND 0xff; sct = drop_bit 9 psf AND 7 in
        if sct \<noteq> 0 \<or> sc \<noteq> 0 then Inl (Io_Command_Failed sct sc)
        else case vload16 E (cqe + 12) w of (cid, w) \<Rightarrow>
        case cmd_io_u n cid of
          None \<Rightarrow> Inl Unknown_Cid
        | Some u \<Rightarrow>
          let n = n\<lparr>events := (events n)(nr_events n + unat count := Some u)\<rparr> in
          case vload16 E (cqe + 12) w of (cid, w) \<Rightarrow>
          let n = n\<lparr>cmd_io_u := (cmd_io_u n)(cid := None)\<rparr> in
          case vload16 E (cqe + 8) w of (sqhd, w) \<Rightarrow>
          let n = n\<lparr>io_sq_head := ucast sqhd\<rparr> in
          poll_loop E max_count (count + 1)
            (cq_advance (io_cq_depth n) (io_cq_virt_addr n) cur) n w)"
  by pat_completeness auto
termination
proof (relation "measure (\<lambda>(E, max_count, count, cur, n, w). unat (max_count - count))")
  fix count max_count :: u16
  assume "count \<noteq> max_count"
  then have "unat (max_count - count - 1) < unat (max_count - count)"
    by (intro measure_unat) simp
  then have "unat (max_count - (count + 1)) < unat (max_count - count)"
    by (simp add: diff_diff_add)
  then show "((E :: 'a env, max_count, count + 1, cur', n', w' :: 'a world), E, max_count, count, cur, n, w)
      \<in> measure (\<lambda>(E, max_count, count, cur, n, w). unat (max_count - count))" for E cur' n' w' cur n w
    by simp
qed simp

declare poll_loop.simps [simp del]

definition poll_cq ::
  "'s env \<Rightarrow> controller_data \<Rightarrow> nvme_data \<Rightarrow> int \<Rightarrow> 's world \<Rightarrow> fatal + u16 \<times> nvme_data \<times> 's world" where
  "poll_cq E c n max_n w =
     (if max_n \<le> 0 then Inr (0, n, w)
      else
        let max_count = (if max_n > 65535 then 65535 else word_of_int max_n);
            head = ic_cq_head n;
            cq_base = io_cq_virt_addr n;
            cqe = cq_base + ucast head * 16
        in case poll_loop E max_count 0 (head, io_cq_pahse n, cqe) n w of
          Inl f \<Rightarrow> Inl f
        | Inr (count, (head, phase_tag, _), n, w) \<Rightarrow>
          if count \<noteq> 0 then
            let n = n\<lparr>ic_cq_head := head, io_cq_pahse := phase_tag, nr_events := nr_events n + unat count\<rparr>
            in Inr (count, n, nvme_reg_write32_fast E (bar0_virt c) (io_cq_head_db n) head w)
          else Inr (count, n, w))"

section \<open>The head of the completion queue is a ring\<close>

interpretation cq: phase_ring "\<lambda>(d, b, cur). (d, b, cq_advance d b cur)"
  "\<lambda>(d, b, head, ph, cqe). unat (head :: u32)" "\<lambda>(d, b, head, ph, cqe). unat d"
  "\<lambda>(d, b, head, ph, cqe). ph" "\<lambda>p. p XOR (1 :: u8)"
proof unfold_locales
  fix p :: u8
  show "(p XOR 1) XOR 1 = p" by (simp add: xor.assoc)
qed (auto simp: cq_advance_def Let_def Suc_unat_eq_iff unat_Suc_u32 word_less_nat_alt [symmetric])

section \<open>What the device promises\<close>

text \<open>
  Positions count the entries of the queue's life, so entry \<open>k\<close> is in slot \<open>k mod D\<close>. Between two
  writes of the head doorbell the device may post the completions \<open>log\<close> (at most one lap) after
  position \<open>k0\<close>. In state \<open>p\<close> it has posted the first \<open>p\<close> of them, and the phase tag of every later
  slot is still the old one. A device obeys the contract if its steps only ever move \<open>p\<close> forward.
\<close>

abbreviation phase_tag_at :: "nat \<Rightarrow> nat \<Rightarrow> u8" where
  "phase_tag_at \<equiv> phase_at (\<lambda>p. p XOR 1) 1"

definition cqe_addr :: "u64 \<Rightarrow> nat \<Rightarrow> nat \<Rightarrow> u64" where
  "cqe_addr b D k = b + of_nat (k mod D) * 16"

definition cursor_at :: "nat \<Rightarrow> u64 \<Rightarrow> nat \<Rightarrow> cursor" where
  "cursor_at D b k = (of_nat (k mod D), phase_tag_at D k, cqe_addr b D k)"

definition cq_ring :: "u64 \<Rightarrow> nat \<Rightarrow> nat \<Rightarrow> nvme_cq_entry list \<Rightarrow> nat \<Rightarrow> ram \<Rightarrow> bool" where
  "cq_ring b D k0 log p r \<longleftrightarrow> p \<le> length log \<and> length log \<le> D
     \<and> (\<forall>i < length log. psf_p (cqe_psf (log ! i)) = ucast (phase_tag_at D (k0 + i)))
     \<and> (\<forall>i < p. load_cqe r (cqe_addr b D (k0 + i)) = log ! i)
     \<and> (\<forall>i < D. p \<le> i \<longrightarrow> psf_p (load16 r (cqe_addr b D (k0 + i) + 14)) \<noteq> ucast (phase_tag_at D (k0 + i)))"

definition cq_device :: "'s env \<Rightarrow> u64 \<Rightarrow> nat \<Rightarrow> nat \<Rightarrow> nvme_cq_entry list \<Rightarrow> bool" where
  "cq_device E b D k0 log \<longleftrightarrow>
     (\<forall>r s p. cq_ring b D k0 log p r \<longrightarrow> (\<exists>p' \<ge> p. cq_ring b D k0 log p' (fst (hw_step E (r, s)))))"

text \<open>The specification of a poll: take a list of completions in order.\<close>

fun reap :: "nat \<Rightarrow> nvme_cq_entry list \<Rightarrow> nvme_data \<Rightarrow> fatal + nvme_data" where
  "reap j [] n = Inr n"
| "reap j (e # es) n =
     (if psf_sct (cqe_psf e) \<noteq> 0 \<or> psf_sc (cqe_psf e) \<noteq> 0
      then Inl (Io_Command_Failed (psf_sct (cqe_psf e)) (psf_sc (cqe_psf e)))
      else case cmd_io_u n (cqe_cid e) of
        None \<Rightarrow> Inl Unknown_Cid
      | Some u \<Rightarrow> reap (Suc j) es
          (n\<lparr>events := (events n)(j := Some u), cmd_io_u := (cmd_io_u n)(cqe_cid e := None),
             io_sq_head := ucast (cqe_sqhd e)\<rparr>))"

section \<open>The loop takes the log in order\<close>

lemma of_nat_mod_u32:
  "0 < D \<Longrightarrow> D < 2 ^ 32 \<Longrightarrow> unat (of_nat (k mod D) :: u32) = k mod D"
  using mod_less_divisor [of D k] less_trans [of "k mod D" D "2 ^ 32"]
  by (simp add: unat_of_nat take_bit_nat_def)

lemma cq_advance_cursor:
  assumes "0 < D" and "D < 2 ^ 32"
  shows "cq_advance (of_nat D) b (cursor_at D b k) = cursor_at D b (Suc k)"
proof -
  let ?s = "(of_nat D :: u32, b, cursor_at D b k)"
  have D: "unat (of_nat D :: u32) = D" using assms by (simp add: unat_of_nat take_bit_nat_def)
  obtain h p e where a: "cq_advance (of_nat D) b (cursor_at D b k) = (h, p, e)"
    by (cases "cq_advance (of_nat D) b (cursor_at D b k)")
  have h: "unat h = Suc k mod D"
    using cq.pos_mod [of ?s k] assms a by (simp add: cursor_at_def D of_nat_mod_u32)
  have p: "p = phase_tag_at D (Suc k)"
    using cq.phase_mod [of ?s k 1] assms a by (simp add: cursor_at_def D of_nat_mod_u32)
  have "of_nat (Suc k mod D) = h" by (simp add: h [symmetric])
  moreover have "Suc (k mod D) = D \<Longrightarrow> 1 + of_nat (k mod D) = (of_nat D :: u32)"
    by (metis of_nat_Suc)
  then have "e = cqe_addr b D (Suc k)"
    using a assms h by (auto simp: cursor_at_def cq_advance_def cqe_addr_def Let_def mod_Suc
        algebra_simps split: if_splits)
  ultimately show ?thesis using a p by (simp add: cursor_at_def)
qed

text \<open>Reading the slot at position \<open>k0 + i\<close>.\<close>

lemma cq_ring_posted:
  assumes "cq_ring b D k0 log p r" and "i < p"
  shows "load16 r (cqe_addr b D (k0 + i) + 14) = cqe_psf (log ! i)"
    and "load16 r (cqe_addr b D (k0 + i) + 12) = cqe_cid (log ! i)"
    and "load16 r (cqe_addr b D (k0 + i) + 8) = cqe_sqhd (log ! i)"
    and "cqe_psf (log ! i) AND 1 = ucast (phase_tag_at D (k0 + i))"
proof -
  have e: "load_cqe r (cqe_addr b D (k0 + i)) = log ! i" using assms by (simp add: cq_ring_def)
  show "load16 r (cqe_addr b D (k0 + i) + 14) = cqe_psf (log ! i)"
    "load16 r (cqe_addr b D (k0 + i) + 12) = cqe_cid (log ! i)"
    "load16 r (cqe_addr b D (k0 + i) + 8) = cqe_sqhd (log ! i)"
    by (simp_all add: e [symmetric] load_cqe_def)
  show "cqe_psf (log ! i) AND 1 = ucast (phase_tag_at D (k0 + i))"
    using assms by (simp add: cq_ring_def psf_p_def)
qed

lemma phase_tag_lap: "0 < D \<Longrightarrow> phase_tag_at D (k + D) \<noteq> phase_tag_at D k"
  by (rule cq.phase_lap) simp_all

lemma phase_tag_cast_inject:
  "(ucast (phase_tag_at D k) :: u16) = ucast (phase_tag_at D k') \<longleftrightarrow> phase_tag_at D k = phase_tag_at D k'"
  by (simp add: phase_at_def)

lemma cq_ring_empty:
  assumes "cq_ring b D k0 log p r" and "0 < D"
  shows "load16 r (cqe_addr b D (k0 + p) + 14) AND 1 \<noteq> ucast (phase_tag_at D (k0 + p))"
proof (cases "p < D")
  case True
  with assms show ?thesis by (simp add: cq_ring_def psf_p_def)
next
  case False
  then have p: "p = D" "0 < p" using assms by (auto simp: cq_ring_def)
  have "cqe_addr b D (k0 + D) = cqe_addr b D (k0 + 0)" by (simp add: cqe_addr_def)
  then show ?thesis
    using cq_ring_posted(1,4) [OF assms(1) p(2)] phase_tag_lap [OF assms(2), of k0]
    by (simp add: p(1) phase_tag_cast_inject)
qed

lemma vload16_ring:
  assumes "cq_device E b D k0 log" and "cq_ring b D k0 log p (ram w)" and "vload16 E a w = (v, w')"
  obtains p' where "p \<le> p'" "cq_ring b D k0 log p' (ram w')" "v = load16 (ram w') a" "trace w' = trace w"
proof -
  obtain r s where rs: "hw_step E (ram w, sys w) = (r, s)" by (cases "hw_step E (ram w, sys w)")
  with assms(1,2) obtain p' where "p \<le> p'" "cq_ring b D k0 log p' r"
    unfolding cq_device_def by (metis fst_conv)
  moreover have "ram w' = r" "v = load16 r a" "trace w' = trace w"
    using assms(3) rs by (auto simp: vload16_def hw_run_def Let_def)
  ultimately show ?thesis using that by simp
qed

definition loop_result ::
  "u64 \<Rightarrow> nat \<Rightarrow> nat \<Rightarrow> nvme_cq_entry list \<Rightarrow> nat \<Rightarrow> nat \<Rightarrow> nvme_data \<Rightarrow> 's world
     \<Rightarrow> fatal + u16 \<times> cursor \<times> nvme_data \<times> 's world" where
  "loop_result b D k0 log i c n w' =
     (case reap (nr_events n + i) (take (c - i) (drop i log)) n of
        Inl f \<Rightarrow> Inl f | Inr n' \<Rightarrow> Inr (of_nat c, cursor_at D b (k0 + c), n', w'))"

lemma reap_head:
  "i < c \<Longrightarrow> i < length log \<Longrightarrow> take (c - i) (drop i log) = log ! i # take (c - Suc i) (drop (Suc i) log)"
  by (metis Cons_nth_drop_Suc Suc_diff_Suc take_Suc_Cons)

lemma reap_Cons:
  "reap j (e # es) n = (case reap j [e] n of Inl f \<Rightarrow> Inl f | Inr n' \<Rightarrow> reap (Suc j) es n')"
  by (simp split: option.split)

lemma reap_single_data:
  "reap j [e] n = Inr n' \<Longrightarrow> io_cq_depth n' = io_cq_depth n \<and> io_cq_virt_addr n' = io_cq_virt_addr n
     \<and> nr_events n' = nr_events n"
  by (auto split: if_splits option.splits)

text \<open>One iteration at a position that has not reached the limit.\<close>

lemma poll_iteration:
  fixes E :: "'s env" and w :: "'s world"
  assumes dev: "cq_device E b D k0 log" and D: "0 < D" "D < 2 ^ 32"
    and ring: "cq_ring b D k0 log p (ram w)" and ip: "i \<le> p" and iM: "i < unat (max_count :: u16)"
    and n: "io_cq_depth n = of_nat D" "io_cq_virt_addr n = b"
  obtains (stop) w' where "p = i" "trace w' = trace w" "cq_ring b D k0 log i (ram w')" "w' = hw_run E w"
      "poll_loop E max_count (of_nat i) (cursor_at D b (k0 + i)) n w
         = Inr (of_nat i, cursor_at D b (k0 + i), n, w')"
  | (fatal) f and w' :: "'s world" and p' where "i < length log" "p \<le> p'" "i < p'" "cq_ring b D k0 log p' (ram w')" "trace w' = trace w" "reap (nr_events n + i) [log ! i] n = Inl f"
      "poll_loop E max_count (of_nat i) (cursor_at D b (k0 + i)) n w = Inl f"
  | (more) n' w' p' where "p \<le> p'" "i < p'" "cq_ring b D k0 log p' (ram w')" "trace w' = trace w"
      "reap (nr_events n + i) [log ! i] n = Inr n'"
      "poll_loop E max_count (of_nat i) (cursor_at D b (k0 + i)) n w
         = poll_loop E max_count (of_nat (Suc i)) (cursor_at D b (k0 + Suc i)) n' w'"
proof -
  let ?a = "cqe_addr b D (k0 + i)" and ?e = "log ! i"
  have i16: "unat (of_nat i :: u16) = i"
    using iM unat_less_2p16 [of max_count] by (simp add: unat_of_nat take_bit_nat_def)
  then have ne: "of_nat i \<noteq> max_count" using iM by auto
  note unfold = poll_loop.simps [of E max_count "of_nat i" "(of_nat ((k0 + i) mod D), phase_tag_at D (k0 + i), ?a)" n w]
    cursor_at_def [of D b "k0 + i"]
  obtain psf w1 where v1: "vload16 E (?a + 14) w = (psf, w1)" by (cases "vload16 E (?a + 14) w")
  from vload16_ring [OF dev ring v1] obtain p1 where
    p1: "p \<le> p1" "cq_ring b D k0 log p1 (ram w1)" "psf = load16 (ram w1) (?a + 14)" "trace w1 = trace w" .
  have len: "p1 \<le> length log" using p1(2) by (simp add: cq_ring_def)
  show thesis
  proof (cases "i = p1")
    case True
    then have "psf AND 1 \<noteq> ucast (phase_tag_at D (k0 + i))"
      using cq_ring_empty [OF p1(2) D(1)] p1(3) by simp
    then have "poll_loop E max_count (of_nat i) (cursor_at D b (k0 + i)) n w
        = Inr (of_nat i, cursor_at D b (k0 + i), n, w1)"
      using ne v1 by (simp add: unfold)
    moreover have "w1 = hw_run E w" using v1 by (simp add: vload16_def Let_def)
    ultimately show ?thesis using stop [of w1] True p1(1,2,4) ip by simp
  next
    case False
    then have ip1: "i < p1" using ip p1(1) by simp
    note e = cq_ring_posted [OF p1(2) ip1]
    obtain cid w2 where v2: "vload16 E (?a + 12) w1 = (cid, w2)" by (cases "vload16 E (?a + 12) w1")
    from vload16_ring [OF dev p1(2) v2] obtain p2 where
      p2: "p1 \<le> p2" "cq_ring b D k0 log p2 (ram w2)" "cid = load16 (ram w2) (?a + 12)" "trace w2 = trace w1" .
    obtain cid' w3 where v3: "vload16 E (?a + 12) w2 = (cid', w3)" by (cases "vload16 E (?a + 12) w2")
    from vload16_ring [OF dev p2(2) v3] obtain p3 where
      p3: "p2 \<le> p3" "cq_ring b D k0 log p3 (ram w3)" "cid' = load16 (ram w3) (?a + 12)" "trace w3 = trace w2" .
    obtain sqhd w4 where v4: "vload16 E (?a + 8) w3 = (sqhd, w4)" by (cases "vload16 E (?a + 8) w3")
    from vload16_ring [OF dev p3(2) v4] obtain p4 where
      p4: "p3 \<le> p4" "cq_ring b D k0 log p4 (ram w4)" "sqhd = load16 (ram w4) (?a + 8)" "trace w4 = trace w3" .
    have val: "cid = cqe_cid ?e" "cid' = cqe_cid ?e" "sqhd = cqe_sqhd ?e"
      using cq_ring_posted(2) [OF p2(2), of i] cq_ring_posted(2) [OF p3(2), of i]
        cq_ring_posted(3) [OF p4(2), of i] ip1 p2 p3 p4 by simp_all
    have psf: "psf = cqe_psf ?e" "psf AND 1 = ucast (phase_tag_at D (k0 + i))" using e p1(3) by simp_all
    note eval = v1 v2 v3 v4 psf(2) ne n val cq_advance_cursor [OF D, of b "k0 + i"]
    show ?thesis
    proof (cases "reap (nr_events n + i) [?e] n")
      case (Inl f)
      then have "poll_loop E max_count (of_nat i) (cursor_at D b (k0 + i)) n w = Inl f"
        using eval psf(1) by (auto simp: unfold psf_sct_def psf_sc_def Let_def split: if_splits option.splits)
      then show ?thesis using fatal Inl ip1 len p1 by simp
    next
      case (Inr n')
      then have "poll_loop E max_count (of_nat i) (cursor_at D b (k0 + i)) n w
          = poll_loop E max_count (of_nat (Suc i)) (cursor_at D b (k0 + Suc i)) n' w4"
        using eval psf(1)
        by (auto simp: unfold psf_sct_def psf_sc_def Let_def i16 add.commute [of "1 :: u16"] split: if_splits option.splits)
      then show ?thesis using more [of p4 w4 n'] Inr ip1 p1 p2 p3 p4 by simp
    qed
  qed
qed

lemma poll_loop_reap:
  assumes dev: "cq_device E b D k0 log" and D: "0 < D" "D < 2 ^ 32" and M: "M = unat max_count"
    and "cq_ring b D k0 log p (ram w)" and "i \<le> p" and "i \<le> M"
    and "io_cq_depth n = of_nat D" and "io_cq_virt_addr n = b"
  shows "\<exists>c w'. i \<le> c \<and> c \<le> M \<and> c \<le> length log \<and> min M p \<le> c \<and> trace w' = trace w
    \<and> (\<exists>p' \<ge> c. cq_ring b D k0 log p' (ram w')) \<and> (c = i \<and> i < M \<longrightarrow> w' = hw_run E w \<and> cq_ring b D k0 log i (ram w'))
    \<and> poll_loop E max_count (of_nat i) (cursor_at D b (k0 + i)) n w = loop_result b D k0 log i c n w'"
  using assms(5-)
proof (induction "M - i" arbitrary: i p n w)
  case 0
  then have "i = M" by simp
  with 0 M show ?case
    by (intro exI [of _ i] exI [of _ w])
      (auto simp: poll_loop.simps loop_result_def cq_ring_def)
next
  case (Suc m)
  have len: "p \<le> length log" using Suc.prems(1) by (simp add: cq_ring_def)
  from Suc.hyps(2) have iM: "i < M" by simp
  show ?case
  proof (cases rule: poll_iteration [OF dev D Suc.prems(1,2) iM [unfolded M] Suc.prems(4,5)])
    case (1 w')
    then show ?thesis
      using iM len by (intro exI [of _ i] exI [of _ w']) (auto simp: loop_result_def)
  next
    case (2 f w' p')
    let ?c = "max (Suc i) (min M p)"
    have "loop_result b D k0 log i ?c n w' = Inl f"
      using 2 reap_head [of i ?c log] reap_Cons [of _ "log ! i" "take (?c - Suc i) (drop (Suc i) log)"] by (simp add: loop_result_def del: reap.simps)
    moreover have "\<exists>q \<ge> ?c. cq_ring b D k0 log q (ram w')"
      using 2 by (intro exI [of _ p']) auto
    ultimately show ?thesis
      using 2 iM len by (intro exI [of _ ?c] exI [of _ w']) auto
  next
    case (3 n' w4 p')
    have "\<exists>c w'. Suc i \<le> c \<and> c \<le> M \<and> c \<le> length log \<and> min M p' \<le> c \<and> trace w' = trace w4
        \<and> (\<exists>p' \<ge> c. cq_ring b D k0 log p' (ram w')) \<and> (c = Suc i \<and> Suc i < M \<longrightarrow> w' = hw_run E w4 \<and> cq_ring b D k0 log (Suc i) (ram w'))
        \<and> poll_loop E max_count (of_nat (Suc i)) (cursor_at D b (k0 + Suc i)) n' w4
          = loop_result b D k0 log (Suc i) c n' w'"
      using Suc.hyps(2) Suc.prems iM 3 reap_single_data [OF 3(5)] by (intro Suc.hyps(1)) auto
    then obtain c w' where c: "Suc i \<le> c" "c \<le> M" "c \<le> length log" "min M p' \<le> c" "trace w' = trace w4"
        "\<exists>p' \<ge> c. cq_ring b D k0 log p' (ram w')"
      and r: "poll_loop E max_count (of_nat (Suc i)) (cursor_at D b (k0 + Suc i)) n' w4
        = loop_result b D k0 log (Suc i) c n' w'" by blast
    have "loop_result b D k0 log i c n w' = loop_result b D k0 log (Suc i) c n' w'"
      using c 3(5) reap_head [of i c log] reap_Cons [of _ "log ! i" "take (c - Suc i) (drop (Suc i) log)"]
        reap_single_data [OF 3(5)]
      by (simp add: loop_result_def del: reap.simps)
    then show ?thesis
      using c r 3 by (intro exI [of _ c] exI [of _ w']) auto
  qed
qed

section \<open>A whole poll\<close>

definition poll_limit :: "int \<Rightarrow> nat" where
  "poll_limit max_n = nat (min max_n 65535)"

definition cq_synced :: "nvme_data \<Rightarrow> u64 \<Rightarrow> nat \<Rightarrow> nat \<Rightarrow> bool" where
  "cq_synced n b D k0 \<longleftrightarrow> 0 < D \<and> unat (io_cq_depth n) = D \<and> io_cq_virt_addr n = b
     \<and> ic_cq_head n = of_nat (k0 mod D) \<and> io_cq_pahse n = phase_tag_at D k0"

lemma reap_data:
  "reap j es n = Inr n' \<Longrightarrow> nr_events n' = nr_events n \<and> io_cq_head_db n' = io_cq_head_db n
     \<and> ic_cq_head n' = ic_cq_head n \<and> io_cq_pahse n' = io_cq_pahse n"
  by (induction j es n rule: reap.induct) (auto split: if_splits option.splits)

lemma unat_poll_limit:
  assumes "0 < max_n"
  shows "poll_limit max_n = unat (if max_n > 65535 then 65535 else word_of_int max_n :: u16)"
proof (cases "max_n > 65535")
  case False
  then have "take_bit LENGTH(16) max_n = max_n" using assms by (intro take_bit_int_eq_self) auto
  then have "uint (word_of_int max_n :: u16) = max_n" by (simp only: uint_word_of_int_eq)
  with False show ?thesis by (simp add: poll_limit_def unat_eq_nat_uint [of "word_of_int max_n"] del: nat_uint_eq)
qed (simp add: poll_limit_def)

text \<open>How the world at the end of a loop that takes \<open>c\<close> entries follows from the one at its start.\<close>

definition polled :: "'s env \<Rightarrow> u64 \<Rightarrow> nat \<Rightarrow> nat \<Rightarrow> nvme_cq_entry list \<Rightarrow> nat \<Rightarrow> 's world \<Rightarrow> 's world \<Rightarrow> bool" where
  "polled E b D k0 log c w w1 \<longleftrightarrow> (\<exists>p' \<ge> c. cq_ring b D k0 log p' (ram w1)) \<and> (c = 0 \<longrightarrow> w1 = hw_run E w \<and> cq_ring b D k0 log 0 (ram w1))"

lemma poll_cq_reap:
  assumes dev: "cq_device E b D k0 log" and ring: "cq_ring b D k0 log p (ram w)"
    and sync: "cq_synced n b D k0" and max_n: "0 < max_n"
  shows "\<exists>c w' w1. c \<le> length log \<and> c \<le> poll_limit max_n \<and> min (poll_limit max_n) p \<le> c
    \<and> polled E b D k0 log c w w1
    \<and> w' = (if c = 0 then w1 else nvme_reg_write32_fast E (bar0_virt ct) (io_cq_head_db n) (of_nat ((k0 + c) mod D)) w1)
    \<and> trace w' = trace w @
        (if c = 0 then [] else [Ev_Mmio_Write (bar0_virt ct + ucast (io_cq_head_db n)) (of_nat ((k0 + c) mod D))])
    \<and> poll_cq E ct n max_n w = (case reap (nr_events n) (take c log) n of
        Inl f \<Rightarrow> Inl f
      | Inr n' \<Rightarrow> Inr (of_nat c, n'\<lparr>ic_cq_head := of_nat ((k0 + c) mod D), io_cq_pahse := phase_tag_at D (k0 + c),
                              nr_events := nr_events n + c\<rparr>, w'))"
proof -
  let ?m = "if max_n > 65535 then 65535 else word_of_int max_n :: u16"
  have M: "poll_limit max_n = unat ?m"
    using max_n by (rule unat_poll_limit)
  have D: "0 < D" "D < 2 ^ 32" and dp: "io_cq_depth n = of_nat D"
    using sync unat_less_2p32 [of "io_cq_depth n"] by (auto simp: cq_synced_def)
  have cur: "cursor_at D b (k0 + 0) = (ic_cq_head n, io_cq_pahse n, io_cq_virt_addr n + ucast (ic_cq_head n) * 16)"
    using sync less_trans [OF mod_less_divisor [OF D(1), of k0] D(2)]
    by (simp add: cq_synced_def cursor_at_def cqe_addr_def unsigned_of_nat take_bit_nat_eq_self)
  from poll_loop_reap [OF dev D M ring, of 0 n] dp sync obtain c w1 where
    c: "c \<le> poll_limit max_n" "c \<le> length log" "min (poll_limit max_n) p \<le> c" "trace w1 = trace w"
    and post: "\<exists>p' \<ge> c. cq_ring b D k0 log p' (ram w1)" "c = 0 \<and> 0 < poll_limit max_n \<longrightarrow> w1 = hw_run E w \<and> cq_ring b D k0 log 0 (ram w1)"
    and loop: "poll_loop E ?m 0 (cursor_at D b (k0 + 0)) n w = loop_result b D k0 log 0 c n w1"
    by (auto simp: cq_synced_def)
  have "c < 2 ^ 16" using c(1) by (simp add: poll_limit_def)
  then have c16: "unat (of_nat c :: u16) = c" by (simp add: unat_of_nat take_bit_nat_def)
  then have c0: "of_nat c = (0 :: u16) \<longleftrightarrow> c = 0" 
    using word_unat_eq_iff [of "of_nat c" "0 :: u16"] by simp
  let ?w = "if c = 0 then w1 else
    nvme_reg_write32_fast E (bar0_virt ct) (io_cq_head_db n) (of_nat ((k0 + c) mod D)) w1"
  have "trace ?w = trace w @
      (if c = 0 then [] else [Ev_Mmio_Write (bar0_virt ct + ucast (io_cq_head_db n)) (of_nat ((k0 + c) mod D))])"
    using c(4) by (simp add: nvme_reg_write32_fast_def)
  moreover have "poll_cq E ct n max_n w = (case reap (nr_events n) (take c log) n of
        Inl f \<Rightarrow> Inl f
      | Inr n' \<Rightarrow> Inr (of_nat c, n'\<lparr>ic_cq_head := of_nat ((k0 + c) mod D), io_cq_pahse := phase_tag_at D (k0 + c),
                              nr_events := nr_events n + c\<rparr>, ?w))"
  proof (cases "reap (nr_events n) (take c log) n")
    case (Inl f)
    with loop [unfolded cur] max_n show ?thesis by (simp add: poll_cq_def loop_result_def Let_def)
  next
    case (Inr n')
    note data = reap_data [OF Inr]
    have l: "poll_loop E ?m 0 (ic_cq_head n, io_cq_pahse n, io_cq_virt_addr n + ucast (ic_cq_head n) * 16) n w
        = Inr (of_nat c, (of_nat ((k0 + c) mod D), phase_tag_at D (k0 + c), cqe_addr b D (k0 + c)), n', w1)"
      using loop [unfolded cur] Inr by (simp add: loop_result_def cursor_at_def)
    have same: "n'\<lparr>ic_cq_head := of_nat (k0 mod D), io_cq_pahse := phase_tag_at D k0, nr_events := nr_events n\<rparr> = n'"
      using data sync by (simp add: cq_synced_def)
    have "poll_cq E ct n max_n w = (if c = 0 then Inr (0, n', w1)
        else Inr (of_nat c, n'\<lparr>ic_cq_head := of_nat ((k0 + c) mod D), io_cq_pahse := phase_tag_at D (k0 + c),
               nr_events := nr_events n + c\<rparr>, ?w))"
      using max_n data by (simp add: poll_cq_def Let_def l c0 c16)
    then show ?thesis using Inr same by (auto simp del: of_nat_mod)
  qed
  moreover have "polled E b D k0 log c w w1"
    using post max_n unfolding polled_def by (auto simp: poll_limit_def)
  ultimately show ?thesis using c(1-3) by blast
qed

text \<open>The effect of taking completions that all belong to different outstanding commands.\<close>

definition completable :: "nvme_data \<Rightarrow> nvme_cq_entry list \<Rightarrow> bool" where
  "completable n es \<longleftrightarrow> distinct (map cqe_cid es) \<and>
     (\<forall>e \<in> set es. psf_sct (cqe_psf e) = 0 \<and> psf_sc (cqe_psf e) = 0 \<and> cmd_io_u n (cqe_cid e) \<noteq> None)"

lemma completable_take: "completable n es \<Longrightarrow> completable n (take c es)"
  by (auto simp: completable_def take_map [symmetric] dest: in_set_takeD)

lemma reap_completable:
  assumes "completable n es"
  shows "reap j es n = Inr (n\<lparr>
      events := (\<lambda>x. if j \<le> x \<and> x < j + length es then cmd_io_u n (cqe_cid (es ! (x - j))) else events n x),
      cmd_io_u := (\<lambda>cid. if cid \<in> cqe_cid ` set es then None else cmd_io_u n cid),
      io_sq_head := if es = [] then io_sq_head n else ucast (cqe_sqhd (last es))\<rparr>)"
  using assms
proof (induction es arbitrary: j n)
  case Nil
  have "(\<lambda>x. if j \<le> x \<and> x < j + length [] then cmd_io_u n (cqe_cid ([] ! (x - j))) else events n x) = events n"
    by (rule ext) auto
  note none = this
  show ?case unfolding none by simp
next
  case (Cons e es)
  then obtain u where u: "cmd_io_u n (cqe_cid e) = Some u" by (auto simp: completable_def)
  let ?n = "n\<lparr>events := (events n)(j := Some u), cmd_io_u := (cmd_io_u n)(cqe_cid e := None),
    io_sq_head := ucast (cqe_sqhd e)\<rparr>"
  have step: "reap j (e # es) n = reap (Suc j) es ?n" using Cons.prems u by (simp add: completable_def)
  have fresh: "cqe_cid e' \<noteq> cqe_cid e" if "e' \<in> set es" for e'
  proof -
    have "cqe_cid e \<notin> cqe_cid ` set es" using Cons.prems by (simp add: completable_def)
    then show ?thesis using that by (metis imageI)
  qed
  then have ok: "completable ?n es" using Cons.prems by (simp add: completable_def)
  have other: "cmd_io_u ?n (cqe_cid (es ! k)) = cmd_io_u n (cqe_cid (es ! k))" if "k < length es" for k
    using fresh [OF nth_mem [OF that]] by simp
  have ev: "(\<lambda>x. if Suc j \<le> x \<and> x < Suc j + length es then cmd_io_u ?n (cqe_cid (es ! (x - Suc j))) else events ?n x)
      = (\<lambda>x. if j \<le> x \<and> x < j + length (e # es) then cmd_io_u n (cqe_cid ((e # es) ! (x - j))) else events n x)"
    (is "?l = ?r")
  proof
    fix x
    consider "x \<le> j" | k where "x = Suc j + k" by (metis le_add_diff_inverse not_less_eq_eq)
    then show "?l x = ?r x"
    proof cases
      case 1
      then show ?thesis using u by (cases "x = j") auto
    next
      case (2 k)
      then show ?thesis using other [of k] by simp
    qed
  qed
  show ?case
    unfolding step Cons.IH [OF ok] ev by (auto simp: fun_eq_iff)
qed

lemma poll_cq_world:
  assumes dev: "cq_device E b D k0 log" and ring: "cq_ring b D k0 log p (ram w)"
    and sync: "cq_synced n b D k0" and max_n: "0 < max_n" and ok: "completable n log"
  shows "\<exists>c n' w' w1. poll_cq E ct n max_n w = Inr (of_nat c, n', w')
    \<and> min (poll_limit max_n) p \<le> c \<and> c \<le> poll_limit max_n \<and> c \<le> length log
    \<and> nr_events n' = nr_events n + c
    \<and> (\<forall>i < c. events n' (nr_events n + i) = cmd_io_u n (cqe_cid (log ! i)))
    \<and> (\<forall>x < nr_events n. events n' x = events n x)
    \<and> (\<forall>cid. cmd_io_u n' cid = (if cid \<in> cqe_cid ` set (take c log) then None else cmd_io_u n cid))
    \<and> cq_synced n' b D (k0 + c) \<and> io_cq_head_db n' = io_cq_head_db n
    \<and> io_sq_head n' = (if c = 0 then io_sq_head n else ucast (cqe_sqhd (log ! (c - 1))))
    \<and> trace w' = trace w @
        (if c = 0 then [] else [Ev_Mmio_Write (bar0_virt ct + ucast (io_cq_head_db n)) (of_nat ((k0 + c) mod D))])
    \<and> polled E b D k0 log c w w1
    \<and> w' = (if c = 0 then w1 else nvme_reg_write32_fast E (bar0_virt ct) (io_cq_head_db n) (of_nat ((k0 + c) mod D)) w1)"
proof -
  let ?tr = "\<lambda>c. if c = 0 then [] else [Ev_Mmio_Write (bar0_virt ct + ucast (io_cq_head_db n)) (of_nat ((k0 + c) mod D))]"
  from poll_cq_reap [OF dev ring sync max_n, of ct] obtain c w' w1 where
    c: "c \<le> length log" "c \<le> poll_limit max_n" "min (poll_limit max_n) p \<le> c"
    and w': "polled E b D k0 log c w w1"
      "w' = (if c = 0 then w1 else nvme_reg_write32_fast E (bar0_virt ct) (io_cq_head_db n) (of_nat ((k0 + c) mod D)) w1)"
    and tr: "trace w' = trace w @ ?tr c"
    and poll: "poll_cq E ct n max_n w = (case reap (nr_events n) (take c log) n of
        Inl f \<Rightarrow> Inl f
      | Inr n' \<Rightarrow> Inr (of_nat c, n'\<lparr>ic_cq_head := of_nat ((k0 + c) mod D), io_cq_pahse := phase_tag_at D (k0 + c),
                              nr_events := nr_events n + c\<rparr>, w'))"
    by blast
  have "last (take c log) = log ! (c - 1)" if "0 < c"
    using that c(1) by (cases c) (auto simp: take_Suc_conv_app_nth)
  then show ?thesis
    using c tr poll sync w' reap_completable [OF completable_take [OF ok], of "nr_events n" c]
    by (intro exI [of _ c] exI [of _ w']) (auto simp: cq_synced_def simp del: of_nat_mod)
qed

lemma poll_cq_takes:
  assumes dev: "cq_device E b D k0 log" and ring: "cq_ring b D k0 log p (ram w)"
    and sync: "cq_synced n b D k0" and max_n: "0 < max_n" and ok: "completable n log"
  shows "\<exists>c n' w'. poll_cq E ct n max_n w = Inr (of_nat c, n', w')
    \<and> min (poll_limit max_n) p \<le> c \<and> c \<le> poll_limit max_n \<and> c \<le> length log
    \<and> nr_events n' = nr_events n + c
    \<and> (\<forall>i < c. events n' (nr_events n + i) = cmd_io_u n (cqe_cid (log ! i)))
    \<and> (\<forall>x < nr_events n. events n' x = events n x)
    \<and> (\<forall>cid. cmd_io_u n' cid = (if cid \<in> cqe_cid ` set (take c log) then None else cmd_io_u n cid))
    \<and> cq_synced n' b D (k0 + c)
    \<and> io_sq_head n' = (if c = 0 then io_sq_head n else ucast (cqe_sqhd (log ! (c - 1))))
    \<and> trace w' = trace w @
        (if c = 0 then [] else [Ev_Mmio_Write (bar0_virt ct + ucast (io_cq_head_db n)) (of_nat ((k0 + c) mod D))])"
  using poll_cq_world [OF assms, of ct] by blast

section \<open>Properties\<close>

text \<open>
  C6: With a device that obeys the completion contract, while it keeps posting entries, and with
  successful completions of different outstanding commands, a poll takes a prefix of the posted
  completions in order: at least those already posted (up to the limit), never more than the limit
  and never one that was not posted. Each taken command's \<^verbatim>\<open>io_u\<close> is appended to \<^verbatim>\<open>events\<close>, its slot
  of \<^verbatim>\<open>cmd_io_u\<close> is cleared and no other, head and phase move to the position after the last taken
  entry, the submission head follows the last entry, and the doorbell is written exactly if
  something was taken.
\<close>

theorem poll_cq_takes_in_order:
  assumes dev: "cq_device E b D k0 log" and ring: "cq_ring b D k0 log p (ram w)"
    and sync: "cq_synced n b D k0" and max_n: "0 < max_n" and ok: "completable n log"
  shows "\<exists>c n' w'. poll_cq E ct n max_n w = Inr (of_nat c, n', w')
    \<and> min (poll_limit max_n) p \<le> c \<and> c \<le> poll_limit max_n \<and> c \<le> length log
    \<and> nr_events n' = nr_events n + c
    \<and> (\<forall>i < c. events n' (nr_events n + i) = cmd_io_u n (cqe_cid (log ! i)))
    \<and> (\<forall>x < nr_events n. events n' x = events n x)
    \<and> (\<forall>cid. cmd_io_u n' cid = (if cid \<in> cqe_cid ` set (take c log) then None else cmd_io_u n cid))
    \<and> cq_synced n' b D (k0 + c)
    \<and> io_sq_head n' = (if c = 0 then io_sq_head n else ucast (cqe_sqhd (log ! (c - 1))))
    \<and> trace w' = trace w @
        (if c = 0 then [] else [Ev_Mmio_Write (bar0_virt ct + ucast (io_cq_head_db n)) (of_nat ((k0 + c) mod D))])"
  by (rule poll_cq_takes [OF assms])

lemma poll_cq_stops:
  assumes "cq_device E b D k0 log" and "cq_ring b D k0 log p (ram w)"
    and "cq_synced n b D k0" and "0 < max_n"
    and "reap (nr_events n) (take (min (poll_limit max_n) p) log) n = Inl f"
  shows "poll_cq E ct n max_n w = Inl f"
proof -
  have mono: "reap j (es @ es') n = Inl f" if "reap j es n = Inl f" for j es es' and n :: nvme_data
    using that by (induction j es n rule: reap.induct) (auto split: option.splits)
  from poll_cq_reap [OF assms(1-4), of ct] obtain c w' where c: "min (poll_limit max_n) p \<le> c"
    and poll: "poll_cq E ct n max_n w = (case reap (nr_events n) (take c log) n of
        Inl f \<Rightarrow> Inl f
      | Inr n' \<Rightarrow> Inr (of_nat c, n'\<lparr>ic_cq_head := of_nat ((k0 + c) mod D), io_cq_pahse := phase_tag_at D (k0 + c),
                              nr_events := nr_events n + c\<rparr>, w'))"
    by blast
  have "take c log = take (min (poll_limit max_n) p) log @ drop (min (poll_limit max_n) p) (take c log)"
    using c by (metis append_take_drop_id min.absorb1 take_take)
  then have "reap (nr_events n) (take c log) n = Inl f" using mono [OF assms(5)] by metis
  with poll show ?thesis by simp
qed

text \<open>
  The first completion belongs to a command for which no request was recorded in \<^verbatim>\<open>cmd_io_u\<close>. \<^verbatim>\<open>nvme_read\<close> and
  \<^verbatim>\<open>nvme_write\<close> record none; \<^verbatim>\<open>nvme_queue\<close> of the engine does so itself. A caller that submits with them alone and
  then polls, as \<^verbatim>\<open>tools/nvme_test.c\<close> and \<^verbatim>\<open>tools/test/test1.c\<close> do, is terminated by its first completion.
\<close>

lemma poll_unrecorded_exits:
  assumes "cq_device E b D k0 log" and "cq_ring b D k0 log p (ram w)" and "cq_synced n b D k0" and "0 < max_n" and "0 < p"
    and "psf_sct (cqe_psf (log ! 0)) = 0" and "psf_sc (cqe_psf (log ! 0)) = 0" and "cmd_io_u n (cqe_cid (log ! 0)) = None"
  shows "poll_cq E ct n max_n w = Inl Unknown_Cid"
proof (rule poll_cq_stops [OF assms(1-4)])
  have "log \<noteq> []" using assms(2,5) by (auto simp: cq_ring_def)
  then obtain e es where log: "log = e # es" by (cases log) auto
  have "0 < min (poll_limit max_n) p" using assms(4,5) by (simp add: poll_limit_def word_less_nat_alt)
  then have "take (min (poll_limit max_n) p) log = e # take (min (poll_limit max_n) p - 1) es"
    unfolding log by (cases "min (poll_limit max_n) p") simp_all
  then show "reap (nr_events n) (take (min (poll_limit max_n) p) log) n = Inl Unknown_Cid"
    using assms(6-8) by (simp add: log)
qed

text \<open>
  C7: If one of the completions already posted, within the limit, reports an error status or names a
  command for which no request is recorded, the poll terminates the process with that reason: no failed
  command is ever counted as completed, and no completion without a request is.
\<close>

theorem poll_cq_fatal:
  assumes "cq_device E b D k0 log" and "cq_ring b D k0 log p (ram w)"
    and "cq_synced n b D k0" and "0 < max_n"
    and "reap (nr_events n) (take (min (poll_limit max_n) p) log) n = Inl f"
  shows "poll_cq E ct n max_n w = Inl f"
  by (rule poll_cq_stops [OF assms])

text \<open>Two posted completions that straddle the wrap of a four-entry queue, and two stale entries.\<close>

definition sample_cq_ram :: ram where
  "sample_cq_ram = (\<lambda>_. 0)(0x1038 := 2, 0x103c := 7, 0x103e := 1, 0x1008 := 3, 0x100c := 8, 0x101e := 1, 0x102e := 1)"

definition sample_log :: "nvme_cq_entry list" where
  "sample_log = [load_cqe sample_cq_ram 0x1030, load_cqe sample_cq_ram 0x1000]"

definition sample_cq :: nvme_data where
  "sample_cq = nvme_data_init\<lparr>io_cq_virt_addr := 0x1000, io_cq_depth := 4, ic_cq_head := 3, io_cq_pahse := 1,
     io_cq_head_db := 0x100c, cmd_io_u := (\<lambda>_. None)(7 := Some 40, 8 := Some 41)\<rparr>"

lemma sample_log_fields:
  "map cqe_cid sample_log = [7, 8]" "map cqe_sqhd sample_log = [2, 3]" "map cqe_psf sample_log = [1, 0]"
  by (simp_all add: sample_log_def load_cqe_def sample_cq_ram_def load16_def load_bytes_def upt_rec)

lemma sample_cq_ring: "cq_ring 0x1000 4 3 sample_log 2 sample_cq_ram"
proof -
  have "psf_p (cqe_psf (sample_log ! i)) = ucast (phase_tag_at 4 (3 + i))" if "i < 2" for i
    using sample_log_fields(3) that by (cases i) (auto simp: psf_p_def phase_at_def sample_log_def)
  moreover have "load_cqe sample_cq_ram (cqe_addr 0x1000 4 (3 + i)) = sample_log ! i" if "i < 2" for i
    using that by (cases i) (auto simp: sample_log_def cqe_addr_def)
  moreover have "psf_p (load16 sample_cq_ram (cqe_addr 0x1000 4 (3 + i) + 14)) \<noteq> ucast (phase_tag_at 4 (3 + i))"
    if "2 \<le> i" "i < 4" for i
  proof -
    from that have "i = 2 \<or> i = 3" by auto
    then show ?thesis
      by (auto simp: psf_p_def phase_at_def cqe_addr_def sample_cq_ram_def load16_def load_bytes_def upt_rec)
  qed
  ultimately show ?thesis unfolding cq_ring_def by (simp add: sample_log_def)
qed

lemma idle_cq_device: "cq_device idle_env b D k0 log"
  by (auto simp: cq_device_def idle_env_def)

lemma sample_cq_synced: "cq_synced sample_cq 0x1000 4 3"
  by (simp add: cq_synced_def sample_cq_def phase_at_def)

theorem poll_cq_takes_in_order_witness:
  "\<exists>n' w'. poll_cq idle_env controller_zero sample_cq 10 (idle_world\<lparr>ram := sample_cq_ram\<rparr>) = Inr (2, n', w')
     \<and> events n' 0 = Some 40 \<and> events n' 1 = Some 41 \<and> nr_events n' = 2 \<and> io_sq_head n' = 3
     \<and> cmd_io_u n' 7 = None \<and> trace w' = [Ev_Mmio_Write 0x100c 1]"
proof -
  have ok: "completable sample_cq sample_log"
    using sample_log_fields by (auto simp: completable_def sample_log_def sample_cq_def psf_sct_def psf_sc_def)
  have "\<exists>c n' w'. poll_cq idle_env controller_zero sample_cq 10 (idle_world\<lparr>ram := sample_cq_ram\<rparr>) = Inr (of_nat c, n', w')
    \<and> c = 2 \<and> nr_events n' = 2 \<and> events n' (0 + 0) = Some 40 \<and> events n' (0 + 1) = Some 41
    \<and> io_sq_head n' = 3 \<and> cmd_io_u n' 7 = None \<and> trace w' = [Ev_Mmio_Write 0x100c 1]"
  proof -
    obtain c n' w' where 
      p: "poll_cq idle_env controller_zero sample_cq 10 (idle_world\<lparr>ram := sample_cq_ram\<rparr>) = Inr (of_nat c, n', w')"
      "min (poll_limit 10) 2 \<le> c" "c \<le> length sample_log" "nr_events n' = nr_events sample_cq + c"
      "\<forall>i < c. events n' (nr_events sample_cq + i) = cmd_io_u sample_cq (cqe_cid (sample_log ! i))"
      "\<forall>cid. cmd_io_u n' cid = (if cid \<in> cqe_cid ` set (take c sample_log) then None else cmd_io_u sample_cq cid)"
      "io_sq_head n' = (if c = 0 then io_sq_head sample_cq else ucast (cqe_sqhd (sample_log ! (c - 1))))"
      "trace w' = trace (idle_world\<lparr>ram := sample_cq_ram\<rparr>) @
        (if c = 0 then [] else [Ev_Mmio_Write (bar0_virt controller_zero + ucast (io_cq_head_db sample_cq)) (of_nat ((3 + c) mod 4))])"
      using poll_cq_takes_in_order [OF idle_cq_device _ sample_cq_synced _ ok,
          of 2 "idle_world\<lparr>ram := sample_cq_ram\<rparr>" 10 controller_zero] sample_cq_ring
      by auto
    have "c = 2" using p(2,3) by (simp add: poll_limit_def sample_log_def)
    with p spec [OF p(5), of 0] spec [OF p(5), of 1] show ?thesis
      using sample_log_fields
      by (intro exI [of _ c] exI [of _ n'] exI [of _ w'])
        (simp add: sample_cq_def sample_log_def controller_zero_def nvme_data_init_def idle_world_def)
  qed
  then show ?thesis by auto
qed

theorem poll_cq_fatal_witness:
  "poll_cq idle_env controller_zero (sample_cq\<lparr>cmd_io_u := (\<lambda>_. None)(7 := Some 40)\<rparr>) 10
     (idle_world\<lparr>ram := sample_cq_ram\<rparr>) = Inl Unknown_Cid"
proof -
  let ?n = "sample_cq\<lparr>cmd_io_u := (\<lambda>_. None)(7 := Some 40)\<rparr>"
  have "cq_synced ?n 0x1000 4 3" using sample_cq_synced by (simp add: cq_synced_def)
  moreover have "reap (nr_events ?n) (take (min (poll_limit 10) 2) sample_log) ?n = Inl Unknown_Cid"
    using sample_log_fields by (simp add: sample_log_def poll_limit_def psf_sct_def psf_sc_def)
  ultimately show ?thesis
    using sample_cq_ring by (intro poll_cq_fatal [OF idle_cq_device, where p = 2]) simp_all
qed

end
