(* ===== verification/Nvme_Ctrl.thy ===== *)
theory Nvme_Ctrl
  imports Nvme_Regs Resource
begin

text \<open>
  The life of a controller in \<^verbatim>\<open>tools/nvme.c\<close>: 64-bit register access, DMA memory of the controller,
  \<^verbatim>\<open>wait_ready\<close>, \<^verbatim>\<open>controller_init\<close> and \<^verbatim>\<open>controller_deinit\<close>. A controller structure that a function
  changes is part of its result. The conservation lemmas say that every operation accounts for each
  descriptor and mapping it takes or gives back.
\<close>

unbundle bit_operations_syntax

section \<open>Register access\<close>

text \<open>\<^verbatim>\<open>nanosleep\<close>: time passes, the device runs.\<close>

definition sleep_1ms :: "'s env \<Rightarrow> 's world \<Rightarrow> 's world" where
  "sleep_1ms E w = hw_run E w"

definition nvme_reg_read64 :: "'s env \<Rightarrow> u64 \<Rightarrow> u32 \<Rightarrow> 's world \<Rightarrow> u64 option \<times> 's world" where
  "nvme_reg_read64 E bar0 offset w =
     (case controller_reg_read32 E bar0 offset w of
        (None, w) \<Rightarrow> (None, w)
      | (Some lo, w) \<Rightarrow>
          (case controller_reg_read32 E bar0 (offset + 4) w of
             (None, w) \<Rightarrow> (None, w)
           | (Some hi, w) \<Rightarrow> (Some (push_bit 32 (ucast hi) OR ucast lo), w)))"

definition nvme_reg_write64 :: "'s env \<Rightarrow> u64 \<Rightarrow> u32 \<Rightarrow> u64 \<Rightarrow> 's world \<Rightarrow> int \<times> 's world" where
  "nvme_reg_write64 E bar0 offset v w =
     (case controller_reg_write32 E bar0 offset (ucast v) w of (r, w) \<Rightarrow>
        if r < 0 then (-1, w)
        else case controller_reg_write32 E bar0 (offset + 4) (ucast (drop_bit 32 v)) w of (r, w) \<Rightarrow>
          if r < 0 then (-1, w) else (0, w))"

section \<open>DMA memory\<close>

definition nvme_dma_open_controller :: "'s env \<Rightarrow> controller_data \<Rightarrow> 's world \<Rightarrow> bool \<times> controller_data \<times> 's world" where
  "nvme_dma_open_controller E c w =
     (if dma_fd_opened c then (True, c, w)
      else case dma_open E (uint (c_bus c)) (uint (c_dev c)) (uint (c_func c)) w of (fd, w) \<Rightarrow>
        if fd < 0 then (False, c, w)
        else (True, c\<lparr>dma_fd := fd, dma_fd_opened := True\<rparr>, w))"

definition nvme_alloc_dma_mem ::
  "'s env \<Rightarrow> controller_data \<Rightarrow> u64 \<Rightarrow> mem \<Rightarrow> 's world \<Rightarrow> bool \<times> mem \<times> controller_data \<times> 's world" where
  "nvme_alloc_dma_mem E c sz m w =
     (case nvme_dma_open_controller E c w of (ok, c, w) \<Rightarrow>
        if \<not> ok then (False, m, c, w)
        else case alloc_dma E (dma_fd c) sz w of (m, w) \<Rightarrow>
          if user_virtaddr m = NULL \<or> sint (mem_size m) \<le> 0 then (False, m, c, w)
          else (True, m, c, w))"

definition nvme_free_dma_mem :: "'s env \<Rightarrow> mem \<Rightarrow> 's world \<Rightarrow> mem \<times> 's world" where
  "nvme_free_dma_mem E m w = free_dma E m w"

definition nvme_close_dma :: "'s env \<Rightarrow> controller_data \<Rightarrow> 's world \<Rightarrow> controller_data \<times> 's world" where
  "nvme_close_dma E c w =
     (if dma_fd_opened c then
        (case c_close E (dma_fd c) w of (_, w) \<Rightarrow> (c\<lparr>dma_fd := -1, dma_fd_opened := False\<rparr>, w))
      else (c, w))"

definition nvme_release_controller_dma :: "'s env \<Rightarrow> controller_data \<Rightarrow> 's world \<Rightarrow> controller_data \<times> 's world" where
  "nvme_release_controller_dma E c w =
     (case free_dma E (admin_sq_mem c) w of (m, w) \<Rightarrow> let c = c\<lparr>admin_sq_mem := m\<rparr> in
      case free_dma E (admin_cq_mem c) w of (m, w) \<Rightarrow> let c = c\<lparr>admin_cq_mem := m\<rparr> in
      nvme_close_dma E c w)"

definition nvme_unmap_controller_bar0 :: "'s env \<Rightarrow> controller_data \<Rightarrow> 's world \<Rightarrow> controller_data \<times> 's world" where
  "nvme_unmap_controller_bar0 E c w =
     (if bar0_virt c \<noteq> NULL then
        (case controller_bar0_unmap E (bar0_virt c) NVME_BAR0_MAP_SIZE w of (_, w) \<Rightarrow>
           (c\<lparr>bar0_virt := NULL\<rparr>, w))
      else (c, w))"

text \<open>\<^verbatim>\<open>memset(dma_mem_virt(&m), 0, dma_mem_size(&m))\<close>.\<close>

definition dma_mem_clear :: "mem \<Rightarrow> 's world \<Rightarrow> 's world" where
  "dma_mem_clear m w = w\<lparr>ram := memset0 (ram w) (user_virtaddr m) (unat (mem_size m))\<rparr>"

section \<open>Waiting for \<^verbatim>\<open>CSTS.RDY\<close>\<close>

function wait_ready_loop :: "'s env \<Rightarrow> u64 \<Rightarrow> u32 \<Rightarrow> u32 \<Rightarrow> u32 \<Rightarrow> 's world \<Rightarrow> bool \<times> 's world" where
  "wait_ready_loop E bar0 want elapsed timeout_ms w =
     (if elapsed < timeout_ms then
        (case controller_reg_read32 E bar0 NVME_REG_CSTS w of
           (None, w) \<Rightarrow> (False, w)
         | (Some csts, w) \<Rightarrow>
             if csts = NVME_REG_INVALID32 then (False, w\<lparr>errno := EIO\<rparr>)
             else if csts AND NVME_CSTS_RDY = want then (True, w)
             else wait_ready_loop E bar0 want (elapsed + 1) timeout_ms (sleep_1ms E w))
      else (False, w\<lparr>errno := ETIMEDOUT\<rparr>))"
  by pat_completeness auto
termination
  by (relation "measure (\<lambda>(E, bar0, want, elapsed, timeout_ms, w). unat timeout_ms - unat elapsed)")
    (auto simp: word_less_nat_alt unat_Suc_u32)

declare wait_ready_loop.simps [simp del]

definition wait_ready :: "'s env \<Rightarrow> u64 \<Rightarrow> bool \<Rightarrow> u32 \<Rightarrow> 's world \<Rightarrow> bool \<times> 's world" where
  "wait_ready E bar0 ready timeout_ms w =
     (let want = (if ready then NVME_CSTS_RDY else 0) in wait_ready_loop E bar0 want 0 timeout_ms w)"

section \<open>Initialisation\<close>

text \<open>The two ways out of a failed initialisation.\<close>

definition init_fail_bar0 :: "'s env \<Rightarrow> controller_data \<Rightarrow> 's world \<Rightarrow> bool \<times> controller_data \<times> 's world" where
  "init_fail_bar0 E c w = (case nvme_unmap_controller_bar0 E c w of (c, w) \<Rightarrow> (False, c, w))"

definition init_fail_dma :: "'s env \<Rightarrow> controller_data \<Rightarrow> 's world \<Rightarrow> bool \<times> controller_data \<times> 's world" where
  "init_fail_dma E c w =
     (case nvme_unmap_controller_bar0 E c w of (c, w) \<Rightarrow>
      case nvme_release_controller_dma E c w of (c, w) \<Rightarrow> (False, c, w))"

text \<open>The last part of \<^verbatim>\<open>controller_init\<close>: the fields of a controller that is ready.\<close>

definition init_fields :: "u64 \<Rightarrow> controller_data \<Rightarrow> controller_data" where
  "init_fields cap c =
     (let c = c\<lparr>admin_sq_tail := 0, admin_cq_head := 0, admin_cq_phase := 1,
               admin_sq_phys_addr := dma_addr (admin_sq_mem c), admin_cq_phys_addr := dma_addr (admin_cq_mem c),
               admin_sq_virt_addr := user_virtaddr (admin_sq_mem c),
               admin_cq_virt_addr := user_virtaddr (admin_cq_mem c),
               admin_sq_depth := 32, admin_cq_depth := 32,
               admin_sq_tail_db := admin_sq_tail_doorbell cap,
               admin_cq_head_db := admin_cq_head_doorbell cap\<rparr>
      in if lba_shift c = 0 then c\<lparr>lba_shift := 9\<rparr> else c)"

text \<open>The middle part: queue memory is allocated, disable the controller if it runs, program the admin
  queue registers, enable it and wait.\<close>

definition init_enable :: "'s env \<Rightarrow> u64 \<Rightarrow> u32 \<Rightarrow> controller_data \<Rightarrow> 's world \<Rightarrow> bool \<times> controller_data \<times> 's world" where
  "init_enable E cap timeout_ms c w =
     (case controller_reg_write32 E (bar0_virt c) NVME_REG_AQA
             ((NVME_ADMIN_Q_DEPTH - 1) OR push_bit 16 (NVME_ADMIN_Q_DEPTH - 1)) w of (r, w) \<Rightarrow>
      if r < 0 then init_fail_dma E c w else
      case nvme_reg_write64 E (bar0_virt c) NVME_REG_ASQ (dma_addr (admin_sq_mem c)) w of (r, w) \<Rightarrow>
      if r < 0 then init_fail_dma E c w else
      case nvme_reg_write64 E (bar0_virt c) NVME_REG_ACQ (dma_addr (admin_cq_mem c)) w of (r, w) \<Rightarrow>
      if r < 0 then init_fail_dma E c w else
      let cc = push_bit 7 (cap_mpsmin cap) OR NVME_CC_IOSQES OR NVME_CC_IOCQES OR NVME_CC_EN in
      case controller_reg_write32 E (bar0_virt c) NVME_REG_CC cc w of (r, w) \<Rightarrow>
      if r < 0 then init_fail_dma E c w else
      case wait_ready E (bar0_virt c) True timeout_ms w of (ok, w) \<Rightarrow>
      if \<not> ok then init_fail_dma E c w else (True, init_fields cap c, w))"

definition init_disable :: "'s env \<Rightarrow> u64 \<Rightarrow> u32 \<Rightarrow> controller_data \<Rightarrow> 's world \<Rightarrow> bool \<times> controller_data \<times> 's world" where
  "init_disable E cap timeout_ms c w =
     (case controller_reg_read32 E (bar0_virt c) NVME_REG_CC w of
        (None, w) \<Rightarrow> init_fail_dma E c w
      | (Some cc, w) \<Rightarrow>
          if cc = NVME_REG_INVALID32 then init_fail_dma E c (w\<lparr>errno := EIO\<rparr>)
          else if cc AND NVME_CC_EN \<noteq> 0 then
            (case controller_reg_write32 E (bar0_virt c) NVME_REG_CC (cc AND NOT NVME_CC_EN) w of (r, w) \<Rightarrow>
             if r < 0 then init_fail_dma E c w else
             case wait_ready E (bar0_virt c) False timeout_ms w of (ok, w) \<Rightarrow>
             if \<not> ok then init_fail_dma E c w else init_enable E cap timeout_ms c w)
          else init_enable E cap timeout_ms c w)"

definition init_mapped :: "'s env \<Rightarrow> controller_data \<Rightarrow> 's world \<Rightarrow> bool \<times> controller_data \<times> 's world" where
  "init_mapped E c w =
     (case nvme_reg_read64 E (bar0_virt c) NVME_REG_CAP w of
        (None, w) \<Rightarrow> init_fail_bar0 E c w
      | (Some cap, w) \<Rightarrow>
          if cap = 0 then init_fail_bar0 E c (w\<lparr>errno := EIO\<rparr>)
          else if cap = NVME_REG_INVALID64 then init_fail_bar0 E c (w\<lparr>errno := EIO\<rparr>)
          else let timeout_ms = ready_timeout_ms cap in
          if timeout_ms = 0 then init_fail_bar0 E c (w\<lparr>errno := EIO\<rparr>)
          else case nvme_alloc_dma_mem E c (round_up_page (64 * 32)) (admin_sq_mem c) w of (ok, m, c, w) \<Rightarrow>
          let c = c\<lparr>admin_sq_mem := m\<rparr> in
          if \<not> ok then init_fail_dma E c w
          else case nvme_alloc_dma_mem E c (round_up_page (16 * 32)) (admin_cq_mem c) w of (ok, m, c, w) \<Rightarrow>
          let c = c\<lparr>admin_cq_mem := m\<rparr> in
          if \<not> ok then init_fail_dma E c w
          else init_disable E cap timeout_ms c
                 (dma_mem_clear (admin_cq_mem c) (dma_mem_clear (admin_sq_mem c) w)))"

definition controller_init ::
  "'s env \<Rightarrow> controller_data option \<Rightarrow> 's world \<Rightarrow> bool \<times> controller_data option \<times> 's world" where
  "controller_init E cp w =
     (case cp of
        None \<Rightarrow> (False, None, w\<lparr>errno := EINVAL\<rparr>)
      | Some c \<Rightarrow>
          if bar0_virt c = NULL then
            (case controller_bar0_map E (ucast (c_bus c)) (ucast (c_dev c)) (ucast (c_func c))
                    NVME_BAR0_MAP_SIZE w of (v, w) \<Rightarrow>
             let c = c\<lparr>bar0_virt := v\<rparr> in
             if bar0_virt c = NULL then (False, Some c, w)
             else map_prod id (map_prod Some id) (init_mapped E c w))
          else map_prod id (map_prod Some id) (init_mapped E c w))"

section \<open>Shutdown\<close>

text \<open>Switching the controller off, as far as its registers still answer.\<close>

definition deinit_disable :: "'s env \<Rightarrow> u64 \<Rightarrow> 's world \<Rightarrow> 's world" where
  "deinit_disable E bar0 w =
     (case nvme_reg_read64 E bar0 NVME_REG_CAP w of
        (None, w) \<Rightarrow> w
      | (Some cap, w) \<Rightarrow>
          let timeout_ms = ready_timeout_ms cap in
          if timeout_ms \<noteq> 0 then
            (case controller_reg_read32 E bar0 NVME_REG_CC w of
               (None, w) \<Rightarrow> w
             | (Some cc, w) \<Rightarrow>
                 if cc AND NVME_CC_EN \<noteq> 0 then
                   (case controller_reg_write32 E bar0 NVME_REG_CC (cc AND NOT NVME_CC_EN) w of (r, w) \<Rightarrow>
                    if r = 0 then snd (wait_ready E bar0 False timeout_ms w) else w)
                 else w)
          else w)"

definition controller_deinit ::
  "'s env \<Rightarrow> controller_data option \<Rightarrow> 's world \<Rightarrow> controller_data option \<times> 's world" where
  "controller_deinit E cp w =
     (case cp of
        None \<Rightarrow> (None, w\<lparr>errno := EINVAL\<rparr>)
      | Some c \<Rightarrow>
        let (c, w) =
          (if bar0_virt c \<noteq> NULL then
             (case controller_bar0_unmap E (bar0_virt c) NVME_BAR0_MAP_SIZE (deinit_disable E (bar0_virt c) w) of
                (_, w) \<Rightarrow> (c\<lparr>bar0_virt := NULL\<rparr>, w))
           else (c, w))
        in case free_dma E (admin_sq_mem c) w of (m, w) \<Rightarrow> let c = c\<lparr>admin_sq_mem := m\<rparr> in
        case free_dma E (admin_cq_mem c) w of (m, w) \<Rightarrow> let c = c\<lparr>admin_cq_mem := m\<rparr> in
        case nvme_close_dma E c w of (c, w) \<Rightarrow>
        (Some (c\<lparr>admin_sq_tail := 0, admin_cq_head := 0, admin_cq_phase := 0,
                admin_sq_phys_addr := 0, admin_cq_phys_addr := 0,
                admin_sq_virt_addr := NULL, admin_cq_virt_addr := NULL,
                admin_sq_depth := 0, admin_cq_depth := 0, admin_sq_tail_db := 0, admin_cq_head_db := 0,
                bar0_phys := 0, ns_size := 0\<rparr>), w))"

section \<open>Effects of the parts on the trace\<close>

lemma trace_nvme_reg_read64 [trace_simps]:
  "nvme_reg_read64 E bar0 offset w = (v, w') \<Longrightarrow> trace w' = trace w"
  by (auto simp: nvme_reg_read64_def dest!: trace_controller_reg_read32 split: prod.splits option.splits)

lemma trace_wait_ready_loop [trace_simps]:
  "wait_ready_loop E bar0 want elapsed timeout_ms w = (ok, w') \<Longrightarrow> trace w' = trace w"
proof (induction E bar0 want elapsed timeout_ms w rule: wait_ready_loop.induct)
  case (1 E bar0 want elapsed timeout_ms w)
  obtain v w1 where v: "controller_reg_read32 E bar0 NVME_REG_CSTS w = (v, w1)"
    by (cases "controller_reg_read32 E bar0 NVME_REG_CSTS w")
  show ?case
    using 1 v trace_controller_reg_read32 [OF v]
    by (auto simp: wait_ready_loop.simps [of E bar0 want elapsed] sleep_1ms_def split: if_splits option.splits)
qed

lemma trace_wait_ready [trace_simps]:
  "wait_ready E bar0 ready timeout_ms w = (ok, w') \<Longrightarrow> trace w' = trace w"
  by (simp add: wait_ready_def Let_def trace_wait_ready_loop)

lemma trace_dma_mem_clear [simp]: "trace (dma_mem_clear m w) = trace w"
  by (simp add: dma_mem_clear_def)

lemma trace_controller_reg_write32 [trace_simps]:
  "controller_reg_write32 E bar0 offset v w = (r, w') \<Longrightarrow>
     trace w' = trace w @ (if r < 0 then [] else [Ev_Mmio_Write (bar0 + ucast offset) v])"
  by (auto simp: controller_reg_write32_def split: if_splits)

lemma trace_nvme_reg_write64 [trace_simps]:
  "nvme_reg_write64 E bar0 offset v w = (r, w') \<Longrightarrow> r \<ge> 0 \<Longrightarrow>
     trace w' = trace w @ [Ev_Mmio_Write (bar0 + ucast offset) (ucast v),
                           Ev_Mmio_Write (bar0 + ucast (offset + 4)) (ucast (drop_bit 32 v))]"
  by (auto simp: nvme_reg_write64_def dest!: trace_controller_reg_write32 split: prod.splits if_splits)

section \<open>Conservation of descriptors and mappings\<close>

text \<open>Nothing was opened, closed, mapped or unmapped.\<close>

definition quiet :: "'s world \<Rightarrow> 's world \<Rightarrow> bool" where
  "quiet w w' \<longleftrightarrow> fd_balance w' = fd_balance w \<and> map_balance w' = map_balance w"

named_theorems quiet_intros "operations that touch registers and memory only"

lemma quiet_refl [simp]: "quiet w w"
  by (simp add: quiet_def)

lemma quiet_trans: "quiet w w' \<Longrightarrow> quiet w' w'' \<Longrightarrow> quiet w w''"
  by (simp add: quiet_def)

lemma quiet_errno [simp]: "quiet w (w'\<lparr>errno := e\<rparr>) \<longleftrightarrow> quiet w w'" "quiet (w\<lparr>errno := e\<rparr>) w' \<longleftrightarrow> quiet w w'"
  by (simp_all add: quiet_def balance_defs fun_eq_iff)

lemma quiet_trace_eq: "trace w' = trace w \<Longrightarrow> quiet w w'"
  by (simp add: quiet_def balance_defs fun_eq_iff)

lemma quiet_read32 [quiet_intros]: "controller_reg_read32 E bar0 offset w = (v, w') \<Longrightarrow> quiet w w'"
  by (rule quiet_trace_eq) (rule trace_controller_reg_read32)

lemma quiet_write32 [quiet_intros]: "controller_reg_write32 E bar0 offset v w = (r, w') \<Longrightarrow> quiet w w'"
  by (auto dest!: trace_controller_reg_write32 simp: quiet_def balance_defs fun_eq_iff)

lemma quiet_read64 [quiet_intros]: "nvme_reg_read64 E bar0 offset w = (v, w') \<Longrightarrow> quiet w w'"
  by (rule quiet_trace_eq) (rule trace_nvme_reg_read64)

lemma quiet_write64 [quiet_intros]: "nvme_reg_write64 E bar0 offset v w = (r, w') \<Longrightarrow> quiet w w'"
  by (auto simp: nvme_reg_write64_def dest!: quiet_write32 split: prod.splits if_splits intro: quiet_trans)

lemma quiet_wait_ready [quiet_intros]: "wait_ready E bar0 ready timeout_ms w = (ok, w') \<Longrightarrow> quiet w w'"
  by (rule quiet_trace_eq) (rule trace_wait_ready)

lemma quiet_dma_mem_clear [simp]: "quiet w (dma_mem_clear m w)"
  by (rule quiet_trace_eq) simp

text \<open>What a controller structure accounts for.\<close>

definition ctrl_fds :: "controller_data \<Rightarrow> int \<Rightarrow> int" where
  "ctrl_fds c x = (if dma_fd_opened c then one_fd (dma_fd c) x else 0)"

definition ctrl_maps :: "controller_data \<Rightarrow> u64 \<times> u64 \<Rightarrow> int" where
  "ctrl_maps c y = (if bar0_virt c \<noteq> NULL \<and> y = (bar0_virt c, NVME_BAR0_MAP_SIZE) then 1 else 0)
     + mem_maps (admin_sq_mem c) y + mem_maps (admin_cq_mem c) y"

definition accounts :: "controller_data \<Rightarrow> 's world \<Rightarrow> controller_data \<Rightarrow> 's world \<Rightarrow> bool" where
  "accounts c w c' w' \<longleftrightarrow>
     (\<forall>x. fd_balance w' x - ctrl_fds c' x = fd_balance w x - ctrl_fds c x)
   \<and> (\<forall>y. map_balance w' y - ctrl_maps c' y = map_balance w y - ctrl_maps c y)"

definition released :: "controller_data \<Rightarrow> bool" where
  "released c \<longleftrightarrow> bar0_virt c = NULL \<and> \<not> mem_valid (admin_sq_mem c) \<and> \<not> mem_valid (admin_cq_mem c)
     \<and> \<not> dma_fd_opened c"

lemma accountsD:
  assumes "accounts c w c' w'"
  shows "fd_balance w' x - ctrl_fds c' x = fd_balance w x - ctrl_fds c x"
    and "map_balance w' y - ctrl_maps c' y = map_balance w y - ctrl_maps c y"
  using assms unfolding accounts_def by blast+

lemma accounts_trans: "accounts c w c' w' \<Longrightarrow> accounts c' w' c'' w'' \<Longrightarrow> accounts c w c'' w''"
  by (simp add: accounts_def)

lemma accounts_quiet: "quiet w w' \<Longrightarrow> accounts c w c w'"
  by (simp add: accounts_def quiet_def)

lemma accounts_quiet_left: "quiet w w' \<Longrightarrow> accounts c w' c' w'' \<Longrightarrow> accounts c w c' w''"
  by (simp add: accounts_def quiet_def)

lemma ctrl_released [simp]: "released c \<Longrightarrow> ctrl_fds c x = 0 \<and> ctrl_maps c y = 0"
  by (simp add: released_def ctrl_fds_def ctrl_maps_def)

lemma accounts_released:
  assumes "accounts c w c' w'" and "released c"
  shows "fd_balance w' x = fd_balance w x + ctrl_fds c' x" and "map_balance w' y = map_balance w y + ctrl_maps c' y"
  using accountsD [OF assms(1)] ctrl_released [OF assms(2)] by (simp_all add: diff_eq_eq)

lemma close_dma_result:
  "fst (nvme_close_dma E c w) = (if dma_fd_opened c then c\<lparr>dma_fd := -1, dma_fd_opened := False\<rparr> else c)"
  by (simp add: nvme_close_dma_def split: prod.splits)

lemma close_dma_accounts:
  assumes "nvme_close_dma E c w = (c', w')"
  shows "accounts c w c' w'"
proof (cases "dma_fd_opened c")
  case True
  then have c': "c' = c\<lparr>dma_fd := -1, dma_fd_opened := False\<rparr>" and w': "w' = snd (c_close E (dma_fd c) w)"
    using assms by (auto simp: nvme_close_dma_def split: prod.splits)
  have "trace w' = trace w @ [Ev_Close (dma_fd c)]"
    using w' trace_c_close [of E "dma_fd c" w] by (cases "c_close E (dma_fd c) w") simp
  with True c' show ?thesis
    by (simp add: accounts_def ctrl_fds_def ctrl_maps_def one_fd_def balance_defs)
next
  case False
  with assms show ?thesis by (simp add: nvme_close_dma_def accounts_def)
qed

lemma unmap_bar0_accounts:
  assumes "nvme_unmap_controller_bar0 E c w = (c', w')"
  shows "accounts c w c' w'" and "c' = c\<lparr>bar0_virt := NULL\<rparr>"
  using assms
  by (auto simp: nvme_unmap_controller_bar0_def accounts_def ctrl_fds_def ctrl_maps_def balance_defs
      dest!: trace_controller_bar0_unmap split: prod.splits if_splits)

lemma free_admin_sq_accounts:
  "free_dma E (admin_sq_mem c) w = (m, w') \<Longrightarrow> accounts c w (c\<lparr>admin_sq_mem := m\<rparr>) w'"
  using free_dma_balance [of E "admin_sq_mem c" w m w']
  by (simp add: accounts_def ctrl_fds_def ctrl_maps_def)

lemma free_admin_cq_accounts:
  "free_dma E (admin_cq_mem c) w = (m, w') \<Longrightarrow> accounts c w (c\<lparr>admin_cq_mem := m\<rparr>) w'"
  using free_dma_balance [of E "admin_cq_mem c" w m w']
  by (simp add: accounts_def ctrl_fds_def ctrl_maps_def)

lemma release_dma_accounts:
  assumes "nvme_release_controller_dma E c w = (c', w')"
  shows "accounts c w c' w'"
    and "bar0_virt c = NULL \<Longrightarrow> released c'"
proof -
  obtain m1 w1 where f1: "free_dma E (admin_sq_mem c) w = (m1, w1)" by (cases "free_dma E (admin_sq_mem c) w")
  obtain m2 w2 where f2: "free_dma E (admin_cq_mem c) w1 = (m2, w2)" by (cases "free_dma E (admin_cq_mem c) w1")
  let ?c = "c\<lparr>admin_sq_mem := m1, admin_cq_mem := m2\<rparr>"
  have cl: "nvme_close_dma E ?c w2 = (c', w')"
    using assms f1 f2 by (simp add: nvme_release_controller_dma_def)
  show "accounts c w c' w'"
    using accounts_trans [OF accounts_trans [OF free_admin_sq_accounts [OF f1] free_admin_cq_accounts]
        close_dma_accounts [OF cl]] f2 by simp
  show "released c'" if "bar0_virt c = NULL"
    using that free_dma_balance(3) [OF f1] free_dma_balance(3) [OF f2] close_dma_result [of E ?c w2] cl
    by (simp add: released_def split: if_splits)
qed

lemma init_fail_dma_accounts:
  assumes "init_fail_dma E c w = (ok, c', w')"
  shows "accounts c w c' w' \<and> \<not> ok \<and> released c'"
proof -
  obtain c1 w1 where u: "nvme_unmap_controller_bar0 E c w = (c1, w1)"
    by (cases "nvme_unmap_controller_bar0 E c w")
  with assms have r: "nvme_release_controller_dma E c1 w1 = (c', w')" and ok: "\<not> ok"
    by (auto simp: init_fail_dma_def split: prod.splits)
  show ?thesis
    using accounts_trans [OF unmap_bar0_accounts(1) [OF u] release_dma_accounts(1) [OF r]]
      release_dma_accounts(2) [OF r] unmap_bar0_accounts(2) [OF u] ok by simp
qed

lemma init_fail_bar0_accounts:
  assumes "init_fail_bar0 E c w = (ok, c', w')" and "released (c\<lparr>bar0_virt := NULL\<rparr>)"
  shows "accounts c w c' w' \<and> \<not> ok \<and> released c'"
  using assms unmap_bar0_accounts [of E c w c' w'] by (auto simp: init_fail_bar0_def split: prod.splits)

lemma dma_open_controller_accounts:
  assumes "nvme_dma_open_controller E c w = (ok, c', w')"
  shows "accounts c w c' w'" and "ok \<longleftrightarrow> dma_fd_opened c'"
    and "\<exists>fd b. c' = c\<lparr>dma_fd := fd, dma_fd_opened := b\<rparr>"
proof -
  obtain fd w1 where o: "dma_open E (uint (c_bus c)) (uint (c_dev c)) (uint (c_func c)) w = (fd, w1)"
    by (cases "dma_open E (uint (c_bus c)) (uint (c_dev c)) (uint (c_func c)) w")
  note b = dma_open_balance [OF o]
  show "accounts c w c' w'" "ok \<longleftrightarrow> dma_fd_opened c'"
    "\<exists>fd b. c' = c\<lparr>dma_fd := fd, dma_fd_opened := b\<rparr>"
  proof -
    have "accounts c w c' w' \<and> ok = dma_fd_opened c' \<and> (\<exists>fd b. c' = c\<lparr>dma_fd := fd, dma_fd_opened := b\<rparr>)"
    proof (cases "dma_fd_opened c \<or> fd < 0")
      case True
      then have e: "c' = c" "w' = (if dma_fd_opened c then w else w1)" "ok = dma_fd_opened c"
        using assms o by (simp_all add: nvme_dma_open_controller_def split: if_splits)
      show ?thesis
        unfolding e using True b
        by (intro conjI exI [of _ "dma_fd c"] exI [of _ "dma_fd_opened c"]) (auto simp: accounts_def)
    next
      case False
      then have c': "c' = c\<lparr>dma_fd := fd, dma_fd_opened := True\<rparr>" and "w' = w1" "ok"
        using assms o by (simp_all add: nvme_dma_open_controller_def split: if_splits)
      then have "accounts c w c' w'"
        using b False by (simp add: accounts_def ctrl_fds_def ctrl_maps_def)
      then show ?thesis using \<open>ok\<close> c' by (intro conjI exI) simp_all
    qed
    then show "accounts c w c' w'" "ok \<longleftrightarrow> dma_fd_opened c'"
      "\<exists>fd b. c' = c\<lparr>dma_fd := fd, dma_fd_opened := b\<rparr>" by blast+
  qed
qed

context dma_service
begin

lemma alloc_dma_mem_accounts:
  assumes run: "nvme_alloc_dma_mem E c sz m w = (ok, m', c', w')" and sz: "page_length sz"
    and m: "\<not> mem_valid m"
  shows "fd_balance w' x - ctrl_fds c' x = fd_balance w x - ctrl_fds c x"
    and "map_balance w' y = map_balance w y + mem_maps m' y"
    and "ok \<longleftrightarrow> mem_valid m'" and "mem_valid m' \<Longrightarrow> mem_size m' = sz \<and> dma_fd_opened c'"
    and "\<exists>fd b. c' = c\<lparr>dma_fd := fd, dma_fd_opened := b\<rparr>"
proof -
  obtain ok1 c1 w1 where o: "nvme_dma_open_controller E c w = (ok1, c1, w1)"
    by (cases "nvme_dma_open_controller E c w")
  note oc = dma_open_controller_accounts [OF o]
  obtain fd b where c1: "c1 = c\<lparr>dma_fd := fd, dma_fd_opened := b\<rparr>" using oc(3) by (elim exE)
  then have same: "ctrl_maps c1 y = ctrl_maps c y" by (simp add: ctrl_maps_def)
  have bal: "fd_balance w1 x - ctrl_fds c1 x = fd_balance w x - ctrl_fds c x" "map_balance w1 y = map_balance w y"
    using accountsD(1) [OF oc(1), of x] accountsD(2) [OF oc(1), of y] same by linarith+
  obtain m2 w2 where a: "alloc_dma E (dma_fd c1) sz w1 = (m2, w2)" by (cases "alloc_dma E (dma_fd c1) sz w1")
  note al = alloc_dma_balance [OF a sz]
  have size: "mem_valid m2 \<Longrightarrow> mem_size m2 = sz"
    using a sz by (auto elim!: alloc_dma_valid)
  consider "\<not> ok1" "m' = m" "c' = c1" "w' = w1" "\<not> ok"
    | "ok1" "m' = m2" "c' = c1" "w' = w2" "ok \<longleftrightarrow> mem_valid m2"
    using run o a by (auto simp: nvme_alloc_dma_mem_def mem_valid_def split: if_splits)
  note cs = this
  show "fd_balance w' x - ctrl_fds c' x = fd_balance w x - ctrl_fds c x"
    using cs by cases (simp_all add: bal al)
  show "map_balance w' y = map_balance w y + mem_maps m' y"
    using cs by cases (simp_all add: bal al m)
  show "ok \<longleftrightarrow> mem_valid m'" using cs by cases (simp_all add: m)
  show "mem_valid m' \<Longrightarrow> mem_size m' = sz \<and> dma_fd_opened c'"
    using cs by cases (simp_all add: m size oc(2) [symmetric])
  have "c' = c1" using run o a by (auto simp: nvme_alloc_dma_mem_def split: if_splits)
  with c1 show "\<exists>fd b. c' = c\<lparr>dma_fd := fd, dma_fd_opened := b\<rparr>" by blast
qed

end

text \<open>What each stage of the initialisation leaves behind: a ready controller, or nothing.\<close>

definition stage_ok :: "controller_data \<Rightarrow> 's world \<Rightarrow> bool \<Rightarrow> controller_data \<Rightarrow> 's world \<Rightarrow> bool" where
  "stage_ok c w ok c' w' \<longleftrightarrow> accounts c w c' w' \<and> (\<not> ok \<longrightarrow> released c')"

lemma stage_fail: "quiet w w1 \<Longrightarrow> init_fail_dma E c w1 = (ok, c', w') \<Longrightarrow> stage_ok c w ok c' w'"
  unfolding stage_ok_def using accounts_quiet_left init_fail_dma_accounts by blast

lemma stage_fail_errno:
  "quiet w w1 \<Longrightarrow> init_fail_dma E c (w1\<lparr>errno := e\<rparr>) = (ok, c', w') \<Longrightarrow> stage_ok c w ok c' w'"
  by (rule stage_fail) simp_all

lemma stage_fail_bar0:
  "quiet w w1 \<Longrightarrow> released (c\<lparr>bar0_virt := NULL\<rparr>) \<Longrightarrow> init_fail_bar0 E c w1 = (ok, c', w')
     \<Longrightarrow> stage_ok c w ok c' w'"
  unfolding stage_ok_def using accounts_quiet_left init_fail_bar0_accounts by blast

lemma stage_accounts: "accounts c w c1 w1 \<Longrightarrow> stage_ok c1 w1 ok c' w' \<Longrightarrow> stage_ok c w ok c' w'"
  unfolding stage_ok_def using accounts_trans by blast

lemma stage_quiet: "quiet w w1 \<Longrightarrow> stage_ok c w1 ok c' w' \<Longrightarrow> stage_ok c w ok c' w'"
  unfolding stage_ok_def using accounts_quiet_left by blast

lemma accounts_init_fields: "accounts c w (init_fields cap c) w"
  by (simp add: accounts_def ctrl_fds_def ctrl_maps_def init_fields_def Let_def)

lemma init_enable_stage:
  assumes "init_enable E cap timeout_ms c w = (ok, c', w')"
  shows "stage_ok c w ok c' w'"
proof -
  obtain r1 w1 where 1: "controller_reg_write32 E (bar0_virt c) NVME_REG_AQA
      ((NVME_ADMIN_Q_DEPTH - 1) OR push_bit 16 (NVME_ADMIN_Q_DEPTH - 1)) w = (r1, w1)"
    by (rule prod.exhaust)
  obtain r2 w2 where 2: "nvme_reg_write64 E (bar0_virt c) NVME_REG_ASQ (dma_addr (admin_sq_mem c)) w1 = (r2, w2)"
    by (rule prod.exhaust)
  obtain r3 w3 where 3: "nvme_reg_write64 E (bar0_virt c) NVME_REG_ACQ (dma_addr (admin_cq_mem c)) w2 = (r3, w3)"
    by (rule prod.exhaust)
  obtain r4 w4 where 4: "controller_reg_write32 E (bar0_virt c) NVME_REG_CC
      (push_bit 7 (cap_mpsmin cap) OR NVME_CC_IOSQES OR NVME_CC_IOCQES OR NVME_CC_EN) w3 = (r4, w4)"
    by (rule prod.exhaust)
  obtain ok5 w5 where 5: "wait_ready E (bar0_virt c) True timeout_ms w4 = (ok5, w5)" by (rule prod.exhaust)
  have q1: "quiet w w1" using quiet_write32 [OF 1] .
  have q2: "quiet w w2" using quiet_trans [OF q1 quiet_write64 [OF 2]] .
  have q3: "quiet w w3" using quiet_trans [OF q2 quiet_write64 [OF 3]] .
  have q4: "quiet w w4" using quiet_trans [OF q3 quiet_write32 [OF 4]] .
  have q5: "quiet w w5" using quiet_trans [OF q4 quiet_wait_ready [OF 5]] .
  have "stage_ok c w True (init_fields cap c) w5"
    using accounts_quiet_left [OF q5 accounts_init_fields] by (simp add: stage_ok_def)
  with assms q1 q2 q3 q4 q5 show ?thesis
    unfolding init_enable_def 1 2 3 4 5 Let_def prod.case
    by (auto intro: stage_fail split: if_split_asm)
qed

lemma init_disable_stage:
  assumes "init_disable E cap timeout_ms c w = (ok, c', w')"
  shows "stage_ok c w ok c' w'"
proof -
  obtain v w1 where 1: "controller_reg_read32 E (bar0_virt c) NVME_REG_CC w = (v, w1)" by (rule prod.exhaust)
  obtain r2 w2 where 2: "controller_reg_write32 E (bar0_virt c) NVME_REG_CC (the v AND NOT NVME_CC_EN) w1 = (r2, w2)"
    by (rule prod.exhaust)
  obtain ok3 w3 where 3: "wait_ready E (bar0_virt c) False timeout_ms w2 = (ok3, w3)" by (rule prod.exhaust)
  have q1: "quiet w w1" using quiet_read32 [OF 1] .
  have q2: "quiet w w2" using quiet_trans [OF q1 quiet_write32 [OF 2]] .
  have q3: "quiet w w3" using quiet_trans [OF q2 quiet_wait_ready [OF 3]] .
  show ?thesis
  proof (cases v)
    case None
    with assms q1 show ?thesis unfolding init_disable_def 1 by (auto intro: stage_fail)
  next
    case (Some cc)
    with assms 2 3 q1 q2 q3 show ?thesis
      unfolding init_disable_def 1
      by (auto intro: stage_fail stage_fail_errno stage_quiet [OF _ init_enable_stage] split: if_split_asm)
  qed
qed

lemma page_length_4096: "page_length 4096"
  by (simp add: page_length_def)

lemma admin_queue_sizes: "round_up_page (64 * 32) = 4096" "round_up_page (16 * 32) = 4096"
  by (simp_all add: round_up_page_def)

context dma_service
begin

lemma alloc_admin_sq_accounts:
  assumes run: "nvme_alloc_dma_mem E c 4096 (admin_sq_mem c) w = (ok, m, c', w')"
    and m: "\<not> mem_valid (admin_sq_mem c)"
  shows "accounts c w (c'\<lparr>admin_sq_mem := m\<rparr>) w'" and "admin_cq_mem c' = admin_cq_mem c"
proof -
  note al = alloc_dma_mem_accounts [OF run page_length_4096 m]
  obtain fd b where c': "c' = c\<lparr>dma_fd := fd, dma_fd_opened := b\<rparr>" using al(5) by (elim exE)
  show "admin_cq_mem c' = admin_cq_mem c" by (simp add: c')
  have "ctrl_fds (c'\<lparr>admin_sq_mem := m\<rparr>) x = ctrl_fds c' x"
    "ctrl_maps (c'\<lparr>admin_sq_mem := m\<rparr>) y = ctrl_maps c y + mem_maps m y" for x y
    using m by (simp_all add: c' ctrl_fds_def ctrl_maps_def)
  with al(1,2) show "accounts c w (c'\<lparr>admin_sq_mem := m\<rparr>) w'" by (simp add: accounts_def)
qed

lemma alloc_admin_cq_accounts:
  assumes run: "nvme_alloc_dma_mem E c 4096 (admin_cq_mem c) w = (ok, m, c', w')"
    and m: "\<not> mem_valid (admin_cq_mem c)"
  shows "accounts c w (c'\<lparr>admin_cq_mem := m\<rparr>) w'"
proof -
  note al = alloc_dma_mem_accounts [OF run page_length_4096 m]
  obtain fd b where c': "c' = c\<lparr>dma_fd := fd, dma_fd_opened := b\<rparr>" using al(5) by (elim exE)
  have "ctrl_fds (c'\<lparr>admin_cq_mem := m\<rparr>) x = ctrl_fds c' x"
    "ctrl_maps (c'\<lparr>admin_cq_mem := m\<rparr>) y = ctrl_maps c y + mem_maps m y" for x y
    using m by (simp_all add: c' ctrl_fds_def ctrl_maps_def)
  with al(1,2) show ?thesis by (simp add: accounts_def)
qed

lemma init_mapped_stage:
  assumes run: "init_mapped E c w = (ok, c', w')" and rel: "released (c\<lparr>bar0_virt := NULL\<rparr>)"
  shows "stage_ok c w ok c' w'"
proof -
  obtain v w1 where 1: "nvme_reg_read64 E (bar0_virt c) NVME_REG_CAP w = (v, w1)" by (rule prod.exhaust)
  obtain ok2 m2 c2 w2 where 2: "nvme_alloc_dma_mem E c 4096 (admin_sq_mem c) w1 = (ok2, m2, c2, w2)"
    by (rule prod_cases4)
  let ?c2 = "c2\<lparr>admin_sq_mem := m2\<rparr>"
  obtain ok3 m3 c3 w3 where 3: "nvme_alloc_dma_mem E ?c2 4096 (admin_cq_mem ?c2) w2 = (ok3, m3, c3, w3)"
    by (rule prod_cases4)
  let ?c3 = "c3\<lparr>admin_cq_mem := m3\<rparr>"
  have inv: "\<not> mem_valid (admin_sq_mem c)" "\<not> mem_valid (admin_cq_mem c)" using rel by (simp_all add: released_def)
  note sq = alloc_admin_sq_accounts [OF 2 inv(1)]
  have q1: "quiet w w1" using quiet_read64 [OF 1] .
  have a2: "accounts c w ?c2 w2" using accounts_quiet_left [OF q1 sq(1)] .
  have a3: "accounts c w ?c3 w3"
    using accounts_trans [OF a2 alloc_admin_cq_accounts [OF 3]] inv(2) sq(2) by simp
  have q4: "quiet w3 (dma_mem_clear m (dma_mem_clear m' w3))" for m m'
    by (rule quiet_trans [OF quiet_dma_mem_clear quiet_dma_mem_clear])
  show ?thesis
  proof (cases v)
    case None
    with run 1 show ?thesis unfolding init_mapped_def by (auto intro: stage_fail_bar0 [OF q1 rel])
  next
    case (Some cap)
    consider "init_fail_bar0 E c (w1\<lparr>errno := EIO\<rparr>) = (ok, c', w')"
      | "init_fail_dma E ?c2 w2 = (ok, c', w')" | "init_fail_dma E ?c3 w3 = (ok, c', w')"
      | "init_disable E cap (ready_timeout_ms cap) ?c3
           (dma_mem_clear (admin_cq_mem ?c3) (dma_mem_clear (admin_sq_mem ?c3) w3)) = (ok, c', w')"
      using run unfolding init_mapped_def 1 Some admin_queue_sizes 2 3 Let_def prod.case option.case
      by (auto split: if_split_asm simp: 3)
    then show ?thesis
    proof cases
      case 1
      then show ?thesis by (rule stage_fail_bar0 [rotated 2]) (simp_all add: q1 rel)
    next
      case 2
      then show ?thesis by (intro stage_accounts [OF a2] stage_fail [OF quiet_refl])
    next
      case 3
      then show ?thesis by (intro stage_accounts [OF a3] stage_fail [OF quiet_refl])
    next
      case 4
      then show ?thesis by (intro stage_accounts [OF a3] stage_quiet [OF q4 init_disable_stage])
    qed
  qed
qed

end

text \<open>Mapping BAR0 keeps the mapping and gives back the descriptor, or fails without a trace.\<close>

context dma_service
begin

lemma bar0_map_accounts:
  assumes "controller_bar0_map E bus dev func NVME_BAR0_MAP_SIZE w = (v, w')" and "bar0_virt c = NULL"
  shows "accounts c w (c\<lparr>bar0_virt := v\<rparr>) w'"
proof -
  obtain fd w1 where 1: "open_pci_bar0 E bus dev func w = (fd, w1)" by (rule prod.exhaust)
  obtain a w2 where 2: "c_mmap E fd NVME_BAR0_MAP_SIZE w1 = (a, w2)" by (rule prod.exhaust)
  obtain r w3 where 3: "c_close E fd w2 = (r, w3)" by (rule prod.exhaust)
  have nn: "a \<noteq> MAP_FAILED \<Longrightarrow> a \<noteq> NULL" using c_mmap_not_null [OF 2] .
  have "fd_balance w' x = fd_balance w x \<and>
      map_balance w' y = map_balance w y + (if v \<noteq> NULL \<and> y = (v, NVME_BAR0_MAP_SIZE) then 1 else 0)" for x y
    using assms(1) 1 2 3 nn trace_open_pci_bar0 [OF 1] trace_c_mmap [OF 2] trace_c_close [OF 3]
    by (auto simp: controller_bar0_map_def balance_defs Let_def split: if_splits)
  with assms(2) show ?thesis by (simp add: accounts_def ctrl_fds_def ctrl_maps_def)
qed

lemma controller_init_stage:
  assumes run: "controller_init E (Some c) w = (ok, cp, w')" and rel: "released c"
  obtains c' where "cp = Some c'" "stage_ok c w ok c' w'"
proof -
  obtain v w1 where 1: "controller_bar0_map E (ucast (c_bus c)) (ucast (c_dev c)) (ucast (c_func c))
      NVME_BAR0_MAP_SIZE w = (v, w1)" by (rule prod.exhaust)
  let ?c = "c\<lparr>bar0_virt := v\<rparr>"
  have b: "bar0_virt c = NULL" using rel by (simp add: released_def)
  note a = bar0_map_accounts [OF 1 b]
  obtain ok2 c2 w2 where 2: "init_mapped E ?c w1 = (ok2, c2, w2)" by (rule prod_cases3)
  have same: "c\<lparr>bar0_virt := NULL\<rparr> = c" using b by simp
  show thesis
  proof (cases "v = NULL")
    case True
    then have "cp = Some ?c" "\<not> ok" "w' = w1" using run 1 b by (simp_all add: controller_init_def)
    then show ?thesis using that [of ?c] a True same rel by (simp add: stage_ok_def)
  next
    case False
    then have e: "cp = Some c2" "ok = ok2" "w' = w2" using run 1 2 b by (simp_all add: controller_init_def)
    have "stage_ok ?c w1 ok2 c2 w2" using init_mapped_stage [OF 2] rel same by simp
    then show ?thesis using that [of c2] stage_accounts [OF a] e by simp
  qed
qed

end

lemma deinit_disable_quiet: "quiet w (deinit_disable E bar0 w)"
proof -
  obtain v w1 where 1: "nvme_reg_read64 E bar0 NVME_REG_CAP w = (v, w1)" by (rule prod.exhaust)
  obtain u w2 where 2: "controller_reg_read32 E bar0 NVME_REG_CC w1 = (u, w2)" by (rule prod.exhaust)
  obtain r w3 where 3: "controller_reg_write32 E bar0 NVME_REG_CC (the u AND NOT NVME_CC_EN) w2 = (r, w3)"
    by (rule prod.exhaust)
  obtain ok w4 where 4: "wait_ready E bar0 False (ready_timeout_ms (the v)) w3 = (ok, w4)" by (rule prod.exhaust)
  have q: "quiet w w1" "quiet w w2" "quiet w w3" "quiet w w4"
    using quiet_read64 [OF 1] quiet_read32 [OF 2] quiet_write32 [OF 3] quiet_wait_ready [OF 4]
    by (blast intro: quiet_trans)+
  show ?thesis
    using 1 2 3 4 q by (auto simp: deinit_disable_def Let_def split: option.split)
qed

lemma controller_deinit_accounts:
  assumes "controller_deinit E (Some c) w = (cp, w')"
  obtains c' where "cp = Some c'" "accounts c w c' w'" "released c'"
proof -
  obtain v w1 where 1: "controller_bar0_unmap E (bar0_virt c) NVME_BAR0_MAP_SIZE (deinit_disable E (bar0_virt c) w)
      = (v, w1)" by (rule prod.exhaust)
  define w2 where "w2 = (if bar0_virt c \<noteq> NULL then w1 else w)"
  let ?c2 = "c\<lparr>bar0_virt := NULL\<rparr>"
  have q: "quiet w (deinit_disable E (bar0_virt c) w)" by (rule deinit_disable_quiet)
  have a2: "accounts c w ?c2 w2"
    using q trace_controller_bar0_unmap [OF 1]
    by (simp add: w2_def accounts_def ctrl_fds_def ctrl_maps_def quiet_def balance_defs fun_eq_iff)
  obtain m3 w3 where 3: "free_dma E (admin_sq_mem ?c2) w2 = (m3, w3)" by (rule prod.exhaust)
  obtain m4 w4 where 4: "free_dma E (admin_cq_mem ?c2) w3 = (m4, w4)" by (rule prod.exhaust)
  let ?c4 = "?c2\<lparr>admin_sq_mem := m3, admin_cq_mem := m4\<rparr>"
  obtain c5 w5 where 5: "nvme_close_dma E ?c4 w4 = (c5, w5)" by (rule prod.exhaust)
  have a5: "accounts c w c5 w5"
    using accounts_trans [OF accounts_trans [OF accounts_trans [OF a2 free_admin_sq_accounts [OF 3]]
          free_admin_cq_accounts] close_dma_accounts [OF 5]] 4 by simp
  have r5: "released c5"
    using close_dma_result [of E ?c4 w4] 5 free_dma_balance(3) [OF 3] free_dma_balance(3) [OF 4]
    by (simp add: released_def split: if_splits)
  have c2: "(if bar0_virt c \<noteq> NULL then (?c2, w1) else (c, w)) = (?c2, w2)"
    by (simp add: w2_def)
  define c6 where "c6 = c5\<lparr>admin_sq_tail := 0, admin_cq_head := 0, admin_cq_phase := 0,
                admin_sq_phys_addr := 0, admin_cq_phys_addr := 0,
                admin_sq_virt_addr := NULL, admin_cq_virt_addr := NULL,
                admin_sq_depth := 0, admin_cq_depth := 0, admin_sq_tail_db := 0, admin_cq_head_db := 0,
                bar0_phys := 0, ns_size := 0\<rparr>"
  have "cp = Some c6" "w' = w5"
    using assms 3 4 5 unfolding controller_deinit_def 1 option.case prod.case c2 Let_def
    by (simp_all add: c6_def)
  moreover have "ctrl_fds c6 = ctrl_fds c5" "ctrl_maps c6 = ctrl_maps c5" "released c6 = released c5"
    by (simp_all add: c6_def fun_eq_iff ctrl_fds_def ctrl_maps_def released_def)
  ultimately show thesis using that [of c6] a5 r5 by (simp add: accounts_def)
qed

section \<open>A ready controller\<close>

text \<open>The register writes that hand the admin queues to the controller, in order.\<close>

definition admin_setup :: "u64 \<Rightarrow> u64 \<Rightarrow> u64 \<Rightarrow> u64 \<Rightarrow> event list" where
  "admin_setup bar0 asq acq cap =
     [Ev_Mmio_Write (bar0 + 0x24) 0x1f001f,
      Ev_Mmio_Write (bar0 + 0x28) (ucast asq), Ev_Mmio_Write (bar0 + 0x2c) (ucast (drop_bit 32 asq)),
      Ev_Mmio_Write (bar0 + 0x30) (ucast acq), Ev_Mmio_Write (bar0 + 0x34) (ucast (drop_bit 32 acq)),
      Ev_Mmio_Write (bar0 + 0x14) (push_bit 7 (cap_mpsmin cap) OR 0x460001)]"

fun is_mmio_write :: "event \<Rightarrow> bool" where
  "is_mmio_write (Ev_Mmio_Write a v) = True"
| "is_mmio_write _ = False"

definition mmio_writes :: "'s world \<Rightarrow> event list" where
  "mmio_writes w = filter is_mmio_write (trace w)"

lemma init_fail_dma_not_ok: "init_fail_dma E c w \<noteq> (True, c', w')" "init_fail_bar0 E c w \<noteq> (True, c', w')"
  by (auto simp: init_fail_dma_def init_fail_bar0_def split: prod.splits)

lemma init_enable_ok:
  assumes "init_enable E cap timeout_ms c w = (True, c', w')"
  shows "c' = init_fields cap c"
    and "trace w' = trace w @ admin_setup (bar0_virt c) (dma_addr (admin_sq_mem c)) (dma_addr (admin_cq_mem c)) cap"
proof -
  have cc: "push_bit 7 v OR NVME_CC_IOSQES OR NVME_CC_IOCQES OR NVME_CC_EN = push_bit 7 v OR 0x460001" for v
    by (simp add: or.assoc)
  show "c' = init_fields cap c"
    using assms by (auto simp: init_enable_def Let_def init_fail_dma_not_ok split: prod.splits if_splits)
  show "trace w' = trace w @ admin_setup (bar0_virt c) (dma_addr (admin_sq_mem c)) (dma_addr (admin_cq_mem c)) cap"
    using assms
    by (auto simp: init_enable_def Let_def init_fail_dma_not_ok admin_setup_def cc
        dest!: trace_controller_reg_write32 trace_nvme_reg_write64 trace_wait_ready split: prod.splits if_splits)
qed

definition disable_writes :: "u64 \<Rightarrow> event list \<Rightarrow> bool" where
  "disable_writes bar0 es \<longleftrightarrow> es = [] \<or> (\<exists>v. es = [Ev_Mmio_Write (bar0 + 0x14) v] \<and> \<not> bit v 0)"

lemma init_disable_ok:
  assumes "init_disable E cap timeout_ms c w = (True, c', w')"
  shows "c' = init_fields cap c"
    and "\<exists>dis. disable_writes (bar0_virt c) dis \<and> trace w' =
      trace w @ dis @ admin_setup (bar0_virt c) (dma_addr (admin_sq_mem c)) (dma_addr (admin_cq_mem c)) cap"
proof -
  obtain v w1 where 1: "controller_reg_read32 E (bar0_virt c) NVME_REG_CC w = (v, w1)" by (rule prod.exhaust)
  obtain r2 w2 where 2: "controller_reg_write32 E (bar0_virt c) NVME_REG_CC (the v AND NOT NVME_CC_EN) w1 = (r2, w2)"
    by (rule prod.exhaust)
  obtain ok3 w3 where 3: "wait_ready E (bar0_virt c) False timeout_ms w2 = (ok3, w3)" by (rule prod.exhaust)
  have off: "\<not> bit (x AND NOT NVME_CC_EN) 0" for x :: u32 by (simp add: bit_simps)
  obtain cc where v: "v = Some cc"
    using assms 1 by (cases v) (auto simp: init_disable_def init_fail_dma_not_ok)
  consider "init_enable E cap timeout_ms c w1 = (True, c', w')"
    | "\<not> r2 < 0" "init_enable E cap timeout_ms c w3 = (True, c', w')"
    using assms 1 2 3 v by (auto simp: init_disable_def init_fail_dma_not_ok split: if_splits)
  then have "c' = init_fields cap c \<and> (\<exists>dis. disable_writes (bar0_virt c) dis \<and> trace w' =
      trace w @ dis @ admin_setup (bar0_virt c) (dma_addr (admin_sq_mem c)) (dma_addr (admin_cq_mem c)) cap)"
  proof cases
    case a: 1
    note init_enable_ok [OF a] trace_controller_reg_read32 [OF 1]
    then show ?thesis by (intro conjI exI [of _ "[]"]) (simp_all add: disable_writes_def)
  next
    case a: 2
    note init_enable_ok [OF a(2)] trace_controller_reg_read32 [OF 1] trace_controller_reg_write32 [OF 2]
      trace_wait_ready [OF 3]
    then show ?thesis
      using a(1) off by (intro conjI exI [of _ "[Ev_Mmio_Write (bar0_virt c + 0x14) (the v AND NOT NVME_CC_EN)]"])
        (simp_all add: disable_writes_def)
  qed
  then show "c' = init_fields cap c" "\<exists>dis. disable_writes (bar0_virt c) dis \<and> trace w' =
      trace w @ dis @ admin_setup (bar0_virt c) (dma_addr (admin_sq_mem c)) (dma_addr (admin_cq_mem c)) cap"
    by simp_all
qed

lemma mmio_writes_dma_open_scan:
  "dma_open_scan E domain bus dev func names e w = (fd, w') \<Longrightarrow> mmio_writes w' = mmio_writes w"
proof (induction names arbitrary: e w)
  case Nil
  then show ?case by (auto simp: mmio_writes_def)
next
  case (Cons d ds)
  show ?case
    using Cons.prems
    by (auto simp: Let_def mmio_writes_def dest!: trace_c_open trace_c_ioctl_get_bdf trace_c_close
        Cons.IH split: if_splits prod.splits)
qed

lemma mmio_writes_alloc:
  assumes "nvme_alloc_dma_mem E c sz m w = (ok, m', c', w')"
  shows "mmio_writes w' = mmio_writes w"
proof -
  have "mmio_writes w2 = mmio_writes w1" if "dma_open E bus dev func w1 = (fd, w2)" for bus dev func fd w1 w2
    using that by (auto simp: dma_open_def dma_open_domain_def mmio_writes_def
        dest!: trace_hw_act mmio_writes_dma_open_scan split: prod.splits sum.splits)
  moreover have "mmio_writes w2 = mmio_writes w1" if "alloc_dma E fd sz w1 = (m1, w2)" for fd m1 w1 w2
    using that by (auto elim!: alloc_dma_cases simp: mmio_writes_def)
  ultimately show ?thesis
    using assms by (auto simp: nvme_alloc_dma_mem_def nvme_dma_open_controller_def split: prod.splits if_splits)
qed

lemma mmio_writes_bar0_map:
  "controller_bar0_map E bus dev func sz w = (v, w') \<Longrightarrow> mmio_writes w' = mmio_writes w"
  by (auto simp: controller_bar0_map_def mmio_writes_def Let_def
      dest!: trace_open_pci_bar0 trace_c_mmap trace_c_close split: prod.splits if_splits)

text \<open>What a controller has when its admin queues are in place.\<close>

definition admin_ready :: "controller_data \<Rightarrow> u64 \<Rightarrow> bool" where
  "admin_ready c cap \<longleftrightarrow> bar0_virt c \<noteq> NULL \<and> dma_fd_opened c
     \<and> mem_valid (admin_sq_mem c) \<and> mem_size (admin_sq_mem c) = 4096
     \<and> mem_valid (admin_cq_mem c) \<and> mem_size (admin_cq_mem c) = 4096
     \<and> admin_sq_virt_addr c = user_virtaddr (admin_sq_mem c) \<and> admin_sq_phys_addr c = dma_addr (admin_sq_mem c)
     \<and> admin_cq_virt_addr c = user_virtaddr (admin_cq_mem c) \<and> admin_cq_phys_addr c = dma_addr (admin_cq_mem c)
     \<and> admin_sq_tail c = 0 \<and> admin_cq_head c = 0 \<and> admin_cq_phase c = 1
     \<and> admin_sq_depth c = 32 \<and> admin_cq_depth c = 32
     \<and> admin_sq_tail_db c = 0x1000 \<and> admin_cq_head_db c = admin_cq_head_doorbell cap
     \<and> lba_shift c \<noteq> 0"

lemma admin_ready_init_fields:
  assumes "bar0_virt c \<noteq> NULL" and "dma_fd_opened c"
    and "mem_valid (admin_sq_mem c)" and "mem_size (admin_sq_mem c) = 4096"
    and "mem_valid (admin_cq_mem c)" and "mem_size (admin_cq_mem c) = 4096"
  shows "admin_ready (init_fields cap c) cap"
  using assms by (simp add: admin_ready_def init_fields_def Let_def admin_sq_tail_doorbell_def)

context dma_service
begin

lemma init_mapped_ok:
  assumes run: "init_mapped E c w = (True, c', w')" and rel: "released (c\<lparr>bar0_virt := NULL\<rparr>)"
    and bar0: "bar0_virt c \<noteq> NULL"
  obtains cap dis where "admin_ready c' cap" "cap \<noteq> 0" "ready_timeout_ms cap \<noteq> 0" "bar0_virt c' = bar0_virt c"
    "disable_writes (bar0_virt c) dis"
    "mmio_writes w' = mmio_writes w @ dis @ admin_setup (bar0_virt c) (admin_sq_phys_addr c') (admin_cq_phys_addr c') cap"
proof -
  obtain v w1 where 1: "nvme_reg_read64 E (bar0_virt c) NVME_REG_CAP w = (v, w1)" by (rule prod.exhaust)
  obtain cap where v: "v = Some cap"
    using run 1 by (cases v) (auto simp: init_mapped_def init_fail_dma_not_ok)
  obtain ok2 m2 c2 w2 where 2: "nvme_alloc_dma_mem E c 4096 (admin_sq_mem c) w1 = (ok2, m2, c2, w2)"
    by (rule prod_cases4)
  let ?c2 = "c2\<lparr>admin_sq_mem := m2\<rparr>"
  obtain ok3 m3 c3 w3 where 3: "nvme_alloc_dma_mem E ?c2 4096 (admin_cq_mem ?c2) w2 = (ok3, m3, c3, w3)"
    by (rule prod_cases4)
  let ?c3 = "c3\<lparr>admin_cq_mem := m3\<rparr>"
  let ?w = "dma_mem_clear (admin_cq_mem ?c3) (dma_mem_clear (admin_sq_mem ?c3) w3)"
  have dis: "init_disable E cap (ready_timeout_ms cap) ?c3 ?w = (True, c', w')" "cap \<noteq> 0" "ready_timeout_ms cap \<noteq> 0"
    "ok2" "ok3"
    using run unfolding init_mapped_def 1 v admin_queue_sizes 2 3 Let_def prod.case option.case
    by (auto split: if_split_asm simp: 3 init_fail_dma_not_ok)
  have inv: "\<not> mem_valid (admin_sq_mem c)" "\<not> mem_valid (admin_cq_mem c)" using rel by (simp_all add: released_def)
  note al2 = alloc_dma_mem_accounts [OF 2 page_length_4096 inv(1)]
  obtain fd2 b2 where c2: "c2 = c\<lparr>dma_fd := fd2, dma_fd_opened := b2\<rparr>" using al2(5) by (elim exE)
  have "\<not> mem_valid (admin_cq_mem ?c2)" using inv(2) by (simp add: c2)
  note al3 = alloc_dma_mem_accounts [OF 3 page_length_4096 this]
  obtain fd3 b3 where c3: "c3 = ?c2\<lparr>dma_fd := fd3, dma_fd_opened := b3\<rparr>" using al3(5) by (elim exE)
  have c': "c' = init_fields cap ?c3" using init_disable_ok(1) [OF dis(1)] .
  have "admin_ready c' cap"
    unfolding c' using al2(3,4) al3(3,4) dis(4,5) bar0
    by (intro admin_ready_init_fields) (simp_all add: c2 c3)
  moreover have "bar0_virt c' = bar0_virt c" by (simp add: c' c2 c3 init_fields_def Let_def)
  moreover obtain ds where ds: "disable_writes (bar0_virt ?c3) ds" "trace w' = trace ?w @ ds @
      admin_setup (bar0_virt ?c3) (dma_addr (admin_sq_mem ?c3)) (dma_addr (admin_cq_mem ?c3)) cap"
    using init_disable_ok(2) [OF dis(1)] by blast
  moreover have "filter is_mmio_write ds = ds" using ds(1) by (auto simp: disable_writes_def)
  moreover have "mmio_writes w1 = mmio_writes w" using trace_nvme_reg_read64 [OF 1] by (simp add: mmio_writes_def)
  ultimately show thesis
    using that [of cap ds] dis(2,3) mmio_writes_alloc [OF 2] mmio_writes_alloc [OF 3]
    by (simp add: mmio_writes_def c' init_fields_def Let_def c2 c3 admin_setup_def)
qed

lemma controller_init_ready:
  assumes run: "controller_init E (Some c) w = (True, cp, w')" and rel: "released c"
  obtains c' cap dis where "cp = Some c'" "admin_ready c' cap" "cap \<noteq> 0" "ready_timeout_ms cap \<noteq> 0"
    "disable_writes (bar0_virt c') dis"
    "mmio_writes w' = mmio_writes w @ dis @ admin_setup (bar0_virt c') (admin_sq_phys_addr c') (admin_cq_phys_addr c') cap"
proof -
  obtain v w1 where 1: "controller_bar0_map E (ucast (c_bus c)) (ucast (c_dev c)) (ucast (c_func c))
      NVME_BAR0_MAP_SIZE w = (v, w1)" by (rule prod.exhaust)
  let ?c = "c\<lparr>bar0_virt := v\<rparr>"
  have b: "bar0_virt c = NULL" using rel by (simp add: released_def)
  then have same: "c\<lparr>bar0_virt := NULL\<rparr> = c" by simp
  obtain ok2 c2 w2 where 2: "init_mapped E ?c w1 = (ok2, c2, w2)" by (rule prod_cases3)
  have v: "v \<noteq> NULL" and e: "cp = Some c2" "ok2" "w' = w2"
    using run 1 2 b by (auto simp: controller_init_def Let_def split: if_splits)
  obtain cap dis where i: "admin_ready c2 cap" "cap \<noteq> 0" "ready_timeout_ms cap \<noteq> 0" "bar0_virt c2 = v"
    "disable_writes v dis"
    "mmio_writes w2 = mmio_writes w1 @ dis @ admin_setup v (admin_sq_phys_addr c2) (admin_cq_phys_addr c2) cap"
    using init_mapped_ok [of ?c w1 c2 w2] 2 e v rel same by auto
  show thesis using that [of c2 cap dis] e i mmio_writes_bar0_map [OF 1] by simp
qed

end

section \<open>The timeout of \<^verbatim>\<open>wait_ready\<close>\<close>

text \<open>The value of \<^verbatim>\<open>CSTS\<close> that the \<open>k\<close>-th poll reads, one millisecond apart.\<close>

definition poll_step :: "'s env \<Rightarrow> u64 \<Rightarrow> 's world \<Rightarrow> 's world" where
  "poll_step E bar0 w = sleep_1ms E (snd (controller_reg_read32 E bar0 NVME_REG_CSTS w))"

definition csts_at :: "'s env \<Rightarrow> u64 \<Rightarrow> nat \<Rightarrow> 's world \<Rightarrow> u32 option" where
  "csts_at E bar0 k w = fst (controller_reg_read32 E bar0 NVME_REG_CSTS ((poll_step E bar0 ^^ k) w))"

definition csts_waiting :: "u32 \<Rightarrow> u32 option \<Rightarrow> bool" where
  "csts_waiting want v \<longleftrightarrow> (\<exists>c. v = Some c \<and> c \<noteq> NVME_REG_INVALID32 \<and> c AND NVME_CSTS_RDY \<noteq> want)"

definition csts_done :: "u32 \<Rightarrow> u32 option \<Rightarrow> bool" where
  "csts_done want v \<longleftrightarrow> (\<exists>c. v = Some c \<and> c \<noteq> NVME_REG_INVALID32 \<and> c AND NVME_CSTS_RDY = want)"

lemma csts_at_Suc: "csts_at E bar0 (Suc k) w = csts_at E bar0 k (poll_step E bar0 w)"
  by (simp add: csts_at_def funpow_swap1)

lemma ex_less_Suc_shift:
  "(\<exists>k < Suc d. (\<forall>j < k. P j) \<and> Q k) \<longleftrightarrow> Q 0 \<or> (P 0 \<and> (\<exists>k < d. (\<forall>j < k. P (Suc j)) \<and> Q (Suc k)))"
  (is "?l \<longleftrightarrow> ?r")
proof
  assume ?l
  then obtain k where k: "k < Suc d" "\<forall>j < k. P j" "Q k" by blast
  show ?r
  proof (cases k)
    case (Suc m)
    with k show ?thesis by auto
  qed (use k in simp)
next
  assume ?r
  then show ?l
  proof
    assume "P 0 \<and> (\<exists>k < d. (\<forall>j < k. P (Suc j)) \<and> Q (Suc k))"
    then obtain k where "P 0" "k < d" "\<forall>j < k. P (Suc j)" "Q (Suc k)" by blast
    then show ?l by (intro exI [of _ "Suc k"]) (auto simp: less_Suc_eq_0_disj)
  qed auto
qed

lemma wait_ready_loop_iff:
  assumes "d = unat timeout_ms - unat elapsed"
  shows "fst (wait_ready_loop E bar0 want elapsed timeout_ms w) \<longleftrightarrow>
    (\<exists>k < d. (\<forall>j < k. csts_waiting want (csts_at E bar0 j w)) \<and> csts_done want (csts_at E bar0 k w))"
  using assms
proof (induction d arbitrary: elapsed w)
  case 0
  then show ?case by (simp add: wait_ready_loop.simps word_less_nat_alt)
next
  case (Suc d)
  then have lt: "elapsed < timeout_ms" by (simp add: word_less_nat_alt)
  obtain v w1 where v: "controller_reg_read32 E bar0 NVME_REG_CSTS w = (v, w1)" by (rule prod.exhaust)
  have "d = unat timeout_ms - unat (elapsed + 1)" using Suc.prems lt by (simp add: unat_Suc_u32)
  note IH = Suc.IH [OF this, of "sleep_1ms E w1"]
  have at0: "csts_at E bar0 0 w = v" and step: "poll_step E bar0 w = sleep_1ms E w1"
    using v by (simp_all add: csts_at_def poll_step_def)
  show ?case
    unfolding ex_less_Suc_shift csts_at_Suc step IH [symmetric] at0 wait_ready_loop.simps [of E bar0 want elapsed]
    using lt v by (auto simp: csts_done_def csts_waiting_def split: option.split)
qed

section \<open>Properties\<close>

text \<open>
  C8: Whether it succeeds or fails, and wherever it fails, \<^verbatim>\<open>controller_init\<close> on a fresh controller
  accounts for every file descriptor and every mapping: after a failure everything it opened is
  closed and everything it mapped is unmapped, after a success exactly BAR0, the two admin queue
  buffers and the DMA descriptor remain, and the controller structure names them.
\<close>

theorem controller_init_accounts:
  assumes "dma_service E" and "released c" and "controller_init E (Some c) w = (ok, cp, w')"
  shows "\<exists>c'. cp = Some c'
    \<and> (\<forall>x. fd_balance w' x = fd_balance w x + ctrl_fds c' x)
    \<and> (\<forall>y. map_balance w' y = map_balance w y + ctrl_maps c' y)
    \<and> (\<not> ok \<longrightarrow> released c' \<and> fd_balance w' = fd_balance w \<and> map_balance w' = map_balance w)"
proof -
  obtain c' where c': "cp = Some c'" "stage_ok c w ok c' w'"
    by (rule dma_service.controller_init_stage [OF assms(1,3,2)])
  then have "accounts c w c' w'" and rel: "\<not> ok \<Longrightarrow> released c'" by (simp_all add: stage_ok_def)
  note bal = accounts_released [OF this(1) assms(2)]
  show ?thesis
    using c'(1) bal rel by (intro exI [of _ c']) (auto simp: fun_eq_iff)
qed

text \<open>
  C9: When \<^verbatim>\<open>controller_init\<close> succeeds, the controller was told about the admin queues in the required
  order (disabled first if it was running, then \<^verbatim>\<open>AQA\<close>, \<^verbatim>\<open>ASQ\<close>, \<^verbatim>\<open>ACQ\<close>, and \<^verbatim>\<open>CC\<close> with the enable bit last), the
  values written are the physical addresses of the two buffers in the structure, and no other
  register was written; the structure's ring state is that of two empty 32-entry queues.
\<close>

theorem controller_init_programs_admin_queues:
  assumes "dma_service E" and "released c" and "controller_init E (Some c) w = (True, cp, w')"
  shows "\<exists>c' cap dis. cp = Some c' \<and> admin_ready c' cap \<and> cap \<noteq> 0 \<and> ready_timeout_ms cap \<noteq> 0
    \<and> disable_writes (bar0_virt c') dis
    \<and> mmio_writes w' = mmio_writes w @ dis
        @ admin_setup (bar0_virt c') (admin_sq_phys_addr c') (admin_cq_phys_addr c') cap"
  by (rule dma_service.controller_init_ready [OF assms(1,3,2)]) blast

lemma deinit_releases:
  assumes "controller_deinit E (Some c) w = (cp, w')"
  shows "\<exists>c'. cp = Some c' \<and> released c'
    \<and> (\<forall>x. fd_balance w' x = fd_balance w x - ctrl_fds c x)
    \<and> (\<forall>y. map_balance w' y = map_balance w y - ctrl_maps c y)"
proof -
  obtain c' where c': "cp = Some c'" "accounts c w c' w'" "released c'"
    by (rule controller_deinit_accounts [OF assms])
  then show ?thesis
    using ctrl_released [OF c'(3)] accountsD [OF c'(2)] by (intro exI [of _ c']) (simp add: diff_eq_eq)
qed

text \<open>
  C10: \<^verbatim>\<open>controller_deinit\<close> gives back whatever the controller held, in every state of the structure and
  whatever the registers answer: afterwards the balances have dropped by exactly the descriptor and
  the mappings that the structure named, and it names none any more.
\<close>

theorem controller_deinit_releases:
  assumes "controller_deinit E (Some c) w = (cp, w')"
  shows "\<exists>c'. cp = Some c' \<and> released c'
    \<and> (\<forall>x. fd_balance w' x = fd_balance w x - ctrl_fds c x)
    \<and> (\<forall>y. map_balance w' y = map_balance w y - ctrl_maps c y)"
  by (rule deinit_releases [OF assms])

text \<open>
  C11: \<^verbatim>\<open>wait_ready\<close> always returns, and it returns true exactly if one of the polls that fit in the
  timeout (one per millisecond) reads the wanted value of \<^verbatim>\<open>CSTS.RDY\<close> while every earlier poll read a
  valid register value with the other one; a dead device (all ones) or an unmapped BAR0 is never
  mistaken for ready.
\<close>

theorem wait_ready_iff:
  "fst (wait_ready E bar0 ready timeout_ms w) \<longleftrightarrow>
     (\<exists>k < unat timeout_ms.
        (\<forall>j < k. csts_waiting (if ready then 1 else 0) (csts_at E bar0 j w))
        \<and> csts_done (if ready then 1 else 0) (csts_at E bar0 k w))"
  by (simp add: wait_ready_def Let_def wait_ready_loop_iff [OF refl])

section \<open>A controller that starts\<close>

text \<open>A device with 1024-entry queues, a timeout of half a second and \<^verbatim>\<open>CSTS.RDY\<close> always set, behind a kernel
  that hands out consecutive addresses; its state is the length of the last mapping and the next address.\<close>

definition boot_env :: "(u64 \<times> u64) env" where
  "boot_env =
     \<lparr>hw_step = (\<lambda>(m, s). (m, s)),
      mmio_rd = (\<lambda>a (m, s). (if a AND 0xfff = 0 then 0x010003ff else if a AND 0xfff = 0x1c then 1 else 0, m, s)),
      mmio_wr = (\<lambda>_ _ (m, s). (m, s)),
      sys_open = (\<lambda>_ _ (m, s). (Inr 3, m, s)), sys_close = (\<lambda>_ (m, s). (None, m, s)),
      sys_mmap = (\<lambda>_ len (m, (l, a)). (Inr (a OR 0x10000), m, (len, a + len))),
      sys_munmap = (\<lambda>_ _ (m, s). (None, m, s)),
      sys_pread = (\<lambda>_ _ _ (m, s). (Inl EIO, m, s)), sys_pwrite = (\<lambda>_ _ _ (m, s). (Inl EIO, m, s)),
      sys_opendir = (\<lambda>_ (m, s). (Inr [''null'', ''genpci0''], m, s)),
      sys_ioctl_get_bdf = (\<lambda>_ (m, s). (Inr (bdf_zero\<lparr>bdf_bus := 1\<rparr>), m, s)),
      sys_ioctl_get_meminfo = (\<lambda>_ (m, (l, a)). (Inr (mem_zero\<lparr>dma_addr := 0x70000000 + a, mem_size := l\<rparr>), m, (l, a))),
      sys_ioctl_release_mem = (\<lambda>_ _ (m, s). (None, m, s)),
      sys_calloc = (\<lambda>(m, s). (True, m, s)), sys_clock_gettime = (\<lambda>(m, s). ((0, 0), m, s))\<rparr>"

definition boot_world :: "(u64 \<times> u64) world" where
  "boot_world = \<lparr>errno = 0, trace = [], ram = (\<lambda>_. 0), sys = (0, 0)\<rparr>"

definition boot_ctrl :: controller_data where
  "boot_ctrl = controller_zero\<lparr>c_bus := 1, c_nsid := 1\<rparr>"

interpretation boot: dma_service boot_env
proof unfold_locales
  show "a \<noteq> NULL" if "sys_mmap boot_env fd len (r, s) = (Inr a, r', s')" for fd len r s a r' s'
    using that by (auto simp: boot_env_def or_eq_0_iff split: prod.splits)
qed (auto simp: boot_env_def split: prod.splits)

lemma boot_ctrl_released: "released boot_ctrl"
  by (simp add: released_def boot_ctrl_def controller_zero_def)

lemma sys_dma_mem_clear [simp]: "sys (dma_mem_clear m w) = sys w"
  by (simp add: dma_mem_clear_def)

lemma boot_read32:
  "bar0 \<noteq> NULL \<Longrightarrow> offset AND 3 = 0 \<Longrightarrow> controller_reg_read32 boot_env bar0 offset w =
     (Some (if (bar0 + ucast offset) AND 0xfff = 0 then 0x010003ff
            else if (bar0 + ucast offset) AND 0xfff = 0x1c then 1 else 0), w)"
  by (simp add: controller_reg_read32_def mmio_read32_def hw_act_def boot_env_def)

lemma boot_bar0_map:
  "controller_bar0_map boot_env 1 0 0 NVME_BAR0_MAP_SIZE boot_world =
     (0x10000, boot_world\<lparr>trace := [Ev_Open 3, Ev_Mmap 3 0x10000 0x4000, Ev_Close 3], sys := (0x4000, 0x4000)\<rparr>)"
  by (simp add: controller_bar0_map_def open_pci_bar0_valid pci_bdf_is_valid_def c_open_def c_mmap_def c_close_def
      hw_act_def emit_def boot_env_def boot_world_def MAP_FAILED_def)

lemma boot_dma_open:
  "dma_open boot_env 1 0 0 w = (3, w\<lparr>trace := trace w @ [Ev_Open 3]\<rparr>)"
  by (simp add: dma_open_def dma_open_domain_def boot_env_def hw_act_def is_genpci_name_def PATH_MAX_def Let_def
      c_open_def c_ioctl_get_bdf_def bdf_matches_def bdf_zero_def emit_def)

lemma boot_alloc:
  "len \<noteq> 0 \<Longrightarrow> sys w = (l, a) \<Longrightarrow> a OR 0x10000 \<noteq> MAP_FAILED \<Longrightarrow> alloc_dma boot_env fd len w =
     (\<lparr>mem_fd = fd, kernel_virtaddr = 0, user_virtaddr = a OR 0x10000, dma_addr = 0x70000000 + (a + len), mem_size = len\<rparr>,
      w\<lparr>trace := trace w @ [Ev_Mmap fd (a OR 0x10000) len], sys := (len, a + len)\<rparr>)"
  by (simp add: alloc_dma_def c_mmap_def c_ioctl_get_meminfo_def hw_act_def emit_def boot_env_def mem_zero_def)

lemma boot_write32:
  "bar0 \<noteq> NULL \<Longrightarrow> offset AND 3 = 0 \<Longrightarrow> controller_reg_write32 boot_env bar0 offset v w =
     (0, w\<lparr>trace := trace w @ [Ev_Mmio_Write (bar0 + ucast offset) v]\<rparr>)"
  by (simp add: controller_reg_write32_def mmio_write32_def emit_def boot_env_def)

lemma boot_wait_ready: "wait_ready boot_env 0x10000 True 500 w = (True, w)"
  by (simp add: wait_ready_def wait_ready_loop.simps boot_read32)

lemma boot_init_ok: "fst (controller_init boot_env (Some boot_ctrl) boot_world) = True"
  by (simp add: controller_init_def boot_ctrl_def controller_zero_def boot_bar0_map init_mapped_def
      nvme_reg_read64_def boot_read32 ready_timeout_ms_def round_up_page_def nvme_alloc_dma_mem_def
      nvme_dma_open_controller_def boot_dma_open boot_alloc MAP_FAILED_def mem_zero_def
      init_disable_def init_enable_def boot_write32 nvme_reg_write64_def boot_wait_ready)

theorem controller_init_accounts_witness:
  "\<exists>c' w'. controller_init boot_env (Some boot_ctrl) boot_world = (True, Some c', w')
     \<and> map_balance w' (0x10000, 0x4000) = ctrl_maps c' (0x10000, 0x4000)"
proof -
  obtain ok cp w' where run: "controller_init boot_env (Some boot_ctrl) boot_world = (ok, cp, w')"
    by (rule prod_cases3)
  with boot_init_ok have ok by simp
  have "map_balance boot_world y = 0" for y by (simp add: map_balance_def boot_world_def)
  with \<open>ok\<close> run controller_init_accounts [OF boot.dma_service_axioms boot_ctrl_released run] show ?thesis
    by auto
qed

theorem controller_init_programs_admin_queues_witness:
  "\<exists>c' cap w'. controller_init boot_env (Some boot_ctrl) boot_world = (True, Some c', w') \<and> admin_ready c' cap"
proof -
  obtain ok cp w' where run: "controller_init boot_env (Some boot_ctrl) boot_world = (ok, cp, w')"
    by (rule prod_cases3)
  with boot_init_ok have "controller_init boot_env (Some boot_ctrl) boot_world = (True, cp, w')" by simp
  with controller_init_programs_admin_queues [OF boot.dma_service_axioms boot_ctrl_released this]
  show ?thesis by blast
qed

theorem controller_deinit_releases_witness:
  "\<exists>c' w'. controller_deinit boot_env (Some (boot_ctrl\<lparr>dma_fd := 3, dma_fd_opened := True\<rparr>))
        (boot_world\<lparr>trace := [Ev_Open 3]\<rparr>) = (Some c', w') \<and> released c' \<and> fd_balance w' 3 = 0"
proof -
  let ?c = "boot_ctrl\<lparr>dma_fd := 3, dma_fd_opened := True\<rparr>" and ?w = "boot_world\<lparr>trace := [Ev_Open 3]\<rparr>"
  obtain cp w' where run: "controller_deinit boot_env (Some ?c) ?w = (cp, w')" by (rule prod.exhaust)
  from controller_deinit_releases [OF run] run show ?thesis
    by (auto simp: fd_balance_def [of ?w] ctrl_fds_def one_fd_def)
qed

theorem wait_ready_iff_witness: "fst (wait_ready boot_env 0x10000 True 1 boot_world)"
proof -
  have "csts_done 1 (csts_at boot_env 0x10000 0 boot_world)"
    by (simp add: csts_done_def csts_at_def boot_read32)
  then show ?thesis unfolding wait_ready_iff by (intro exI [of _ 0]) simp
qed

end
