(* ===== verification/Nvme_Admin.thy ===== *)
theory Nvme_Admin
  imports Nvme_Cq Nvme_Ctrl
begin

text \<open>
  The admin queue of \<^verbatim>\<open>tools/nvme.c\<close> and what is done through it: \<^verbatim>\<open>submit_admin_command\<close>,
  \<^verbatim>\<open>submit_identify_namespace\<close>, \<^verbatim>\<open>wait_admin_completion\<close>, \<^verbatim>\<open>create_io_queue_pair\<close>, \<^verbatim>\<open>delete_io_queue_pair\<close>
  and \<^verbatim>\<open>nvme_get_file_size\<close>. The pointer arguments that the code compares with \<^verbatim>\<open>NULL\<close> are options; the
  controller that \<^verbatim>\<open>nvme_ctrl(n)\<close> returns is an argument of its own and part of the result.
\<close>

unbundle bit_operations_syntax

section \<open>The admin queue\<close>

text \<open>\<^verbatim>\<open>c->admin_sq_tail++\<close> and \<^verbatim>\<open>c->admin_cq_head++\<close> with their wraps.\<close>

definition admin_sq_advance :: "controller_data \<Rightarrow> controller_data" where
  "admin_sq_advance c =
     (let c = c\<lparr>admin_sq_tail := admin_sq_tail c + 1\<rparr> in
      if admin_sq_tail c = admin_sq_depth c then c\<lparr>admin_sq_tail := 0\<rparr> else c)"

definition admin_cq_advance :: "controller_data \<Rightarrow> controller_data" where
  "admin_cq_advance c =
     (let c = c\<lparr>admin_cq_head := admin_cq_head c + 1\<rparr> in
      if admin_cq_head c = admin_cq_depth c
      then c\<lparr>admin_cq_head := 0, admin_cq_phase := admin_cq_phase c XOR 1\<rparr> else c)"

text \<open>The end of both submit functions: advance the tail, barrier, doorbell.\<close>

definition admin_ring_doorbell :: "'s env \<Rightarrow> controller_data \<Rightarrow> 's world \<Rightarrow> bool \<times> controller_data \<times> 's world" where
  "admin_ring_doorbell E c w =
     (let c = admin_sq_advance c in
      case controller_reg_write32 E (bar0_virt c) (admin_sq_tail_db c) (ucast (admin_sq_tail c)) (emit Ev_Barrier w) of
        (r, w) \<Rightarrow> if r < 0 then (False, c, w) else (True, c, w))"

definition submit_identify_namespace ::
  "'s env \<Rightarrow> controller_data \<Rightarrow> u64 \<Rightarrow> u16 \<Rightarrow> 's world \<Rightarrow> bool \<times> controller_data \<times> 's world" where
  "submit_identify_namespace E c identify_phys cmd_id w =
     (let cmd = admin_sq_virt_addr c + ucast (admin_sq_tail c) * 64;
          r = memset0 (ram w) cmd 64;
          r = store_dwords r cmd
                [(0, NVME_ADMIN_IDENTIFY_OPCODE OR push_bit 16 (ucast cmd_id)),
                 (1, ucast (c_nsid c)),
                 (6, ucast identify_phys),
                 (7, ucast (drop_bit 32 identify_phys)),
                 (10, 0)]
      in admin_ring_doorbell E c (w\<lparr>ram := r\<rparr>))"

definition submit_admin_command ::
  "'s env \<Rightarrow> controller_data \<Rightarrow> u8 \<Rightarrow> u32 \<Rightarrow> u64 \<Rightarrow> u32 \<Rightarrow> u32 \<Rightarrow> u16 \<Rightarrow> 's world
     \<Rightarrow> bool \<times> controller_data \<times> 's world" where
  "submit_admin_command E c opcode nsid prp1 cdw10 cdw11 cmd_id w =
     (let cmd = admin_sq_virt_addr c + ucast (admin_sq_tail c) * 64;
          r = memset0 (ram w) cmd 64;
          r = store_dwords r cmd
                [(0, ucast opcode OR push_bit 16 (ucast cmd_id)),
                 (1, nsid),
                 (6, ucast prp1),
                 (7, ucast (drop_bit 32 prp1)),
                 (10, cdw10),
                 (11, cdw11)]
      in admin_ring_doorbell E c (w\<lparr>ram := r\<rparr>))"

text \<open>The bit fields of the volatile entry are read one access at a time.\<close>

function wait_admin_loop ::
  "'s env \<Rightarrow> u16 \<Rightarrow> u32 \<Rightarrow> u32 \<Rightarrow> controller_data \<Rightarrow> 's world \<Rightarrow> bool \<times> controller_data \<times> 's world" where
  "wait_admin_loop E cmd_id elapsed timeout_ms c w =
     (if elapsed < timeout_ms then
        let cqe = admin_cq_virt_addr c + ucast (admin_cq_head c) * 16 in
        case vload16 E (cqe + 14) w of (psf, w) \<Rightarrow>
        if psf_p psf = ucast (admin_cq_phase c) then
          case vload16 E (cqe + 12) w of (cid, w) \<Rightarrow>
          case vload16 E (cqe + 14) w of (psf, w) \<Rightarrow> let sc = psf_sc psf in
          case vload16 E (cqe + 14) w of (psf, w) \<Rightarrow> let sct = psf_sct psf in
          if cid \<noteq> cmd_id then (False, c, w\<lparr>errno := EIO\<rparr>)
          else
            let c = admin_cq_advance c in
            case controller_reg_write32 E (bar0_virt c) (admin_cq_head_db c) (ucast (admin_cq_head c)) w of (r, w) \<Rightarrow>
            if r < 0 then (False, c, w)
            else if sct \<noteq> 0 \<or> sc \<noteq> 0 then (False, c, w\<lparr>errno := EIO\<rparr>)
            else (True, c, w)
        else wait_admin_loop E cmd_id (elapsed + 1) timeout_ms c (sleep_1ms E w)
      else (False, c, w\<lparr>errno := ETIMEDOUT\<rparr>))"
  by pat_completeness auto
termination
  by (relation "measure (\<lambda>(E, cmd_id, elapsed, timeout_ms, c, w). unat timeout_ms - unat elapsed)")
    (auto simp: word_less_nat_alt unat_Suc_u32)

declare wait_admin_loop.simps [simp del]

definition wait_admin_completion ::
  "'s env \<Rightarrow> controller_data \<Rightarrow> u16 \<Rightarrow> u32 \<Rightarrow> 's world \<Rightarrow> bool \<times> controller_data \<times> 's world" where
  "wait_admin_completion E c cmd_id timeout_ms w = wait_admin_loop E cmd_id 0 timeout_ms c w"

text \<open>\<^verbatim>\<open>cmd_id = c->admin_cmd_id++\<close>, submit, and wait for the completion: the sequence of each command.\<close>

definition admin_command ::
  "'s env \<Rightarrow> controller_data \<Rightarrow> u8 \<Rightarrow> u64 \<Rightarrow> u32 \<Rightarrow> u32 \<Rightarrow> 's world \<Rightarrow> bool \<times> controller_data \<times> 's world" where
  "admin_command E c opcode prp1 cdw10 cdw11 w =
     (let cmd_id = admin_cmd_id c; c = c\<lparr>admin_cmd_id := admin_cmd_id c + 1\<rparr> in
      case submit_admin_command E c opcode 0 prp1 cdw10 cdw11 cmd_id w of (ok, c, w) \<Rightarrow>
      if \<not> ok then (False, c, w)
      else wait_admin_completion E c cmd_id 60000 w)"

section \<open>I/O queue pairs\<close>

text \<open>The fields of a queue pair that both commands created.\<close>

definition create_fields :: "u64 \<Rightarrow> u16 \<Rightarrow> u32 \<Rightarrow> u32 \<Rightarrow> nvme_data \<Rightarrow> nvme_data" where
  "create_fields cap qid sq_depth cq_depth n =
     n\<lparr>io_sq_head := 0, io_sq_tail := 0, ic_cq_head := 0, io_cq_pahse := 1,
       io_sq_phys_addr := dma_addr (io_sq_mem n), io_cq_phys_addr := dma_addr (io_cq_mem n),
       io_prp_list_phys_addr := dma_addr (io_prp_list_mem n),
       io_sq_virt_addr := user_virtaddr (io_sq_mem n), io_cq_virt_addr := user_virtaddr (io_cq_mem n),
       io_prp_list_virt_addr := user_virtaddr (io_prp_list_mem n),
       io_sq_depth := sq_depth, io_cq_depth := cq_depth,
       io_sq_tail_db := io_sq_tail_doorbell cap qid, io_cq_head_db := io_cq_head_doorbell cap qid\<rparr>"

definition create_commands ::
  "'s env \<Rightarrow> u64 \<Rightarrow> u16 \<Rightarrow> u32 \<Rightarrow> u32 \<Rightarrow> controller_data \<Rightarrow> nvme_data \<Rightarrow> 's world
     \<Rightarrow> bool \<times> controller_data \<times> nvme_data \<times> 's world" where
  "create_commands E cap qid sq_depth cq_depth c n w =
     (case admin_command E c NVME_ADMIN_CREATE_IO_CQ_OPCODE (dma_addr (io_cq_mem n))
             (ucast qid OR push_bit 16 (cq_depth - 1)) NVME_QUEUE_PHYS_CONTIGUOUS w of (ok, c, w) \<Rightarrow>
      if \<not> ok then (False, c, n, w) else
      case admin_command E c NVME_ADMIN_CREATE_IO_SQ_OPCODE (dma_addr (io_sq_mem n))
             (ucast qid OR push_bit 16 (sq_depth - 1))
             (push_bit 16 (ucast qid) OR NVME_QUEUE_PHYS_CONTIGUOUS) w of (ok, c, w) \<Rightarrow>
      if \<not> ok then (False, c, n, w)
      else (True, c, create_fields cap qid sq_depth cq_depth n, w))"

definition create_alloc ::
  "'s env \<Rightarrow> u32 \<Rightarrow> u32 \<Rightarrow> controller_data \<Rightarrow> nvme_data \<Rightarrow> 's world
     \<Rightarrow> bool \<times> controller_data \<times> nvme_data \<times> 's world" where
  "create_alloc E sq_depth cq_depth c n w =
     (let io_sq_size = round_up_page (64 * ucast sq_depth);
          io_cq_size = round_up_page (16 * ucast cq_depth);
          io_prp_list_size = 4096 * ucast sq_depth
      in case nvme_alloc_dma_mem E c io_cq_size (io_cq_mem n) w of (ok, m, c, w) \<Rightarrow>
      let n = n\<lparr>io_cq_mem := m\<rparr> in
      if \<not> ok then (False, c, n, w) else
      case nvme_alloc_dma_mem E c io_sq_size (io_sq_mem n) w of (ok, m, c, w) \<Rightarrow>
      let n = n\<lparr>io_sq_mem := m\<rparr> in
      if \<not> ok then
        (case free_dma E (io_cq_mem n) w of (m, w) \<Rightarrow> (False, c, n\<lparr>io_cq_mem := m\<rparr>, w))
      else
      case nvme_alloc_dma_mem E c io_prp_list_size (io_prp_list_mem n) w of (ok, m, c, w) \<Rightarrow>
      let n = n\<lparr>io_prp_list_mem := m\<rparr> in
      if \<not> ok then
        (case free_dma E (io_sq_mem n) w of (m, w) \<Rightarrow> let n = n\<lparr>io_sq_mem := m\<rparr> in
         case free_dma E (io_cq_mem n) w of (m, w) \<Rightarrow> (False, c, n\<lparr>io_cq_mem := m\<rparr>, w))
      else (True, c, n,
        dma_mem_clear (io_prp_list_mem n) (dma_mem_clear (io_sq_mem n) (dma_mem_clear (io_cq_mem n) w))))"

definition create_io_queue_pair ::
  "'s env \<Rightarrow> controller_data \<Rightarrow> nvme_data option \<Rightarrow> 's world
     \<Rightarrow> bool \<times> controller_data \<times> nvme_data option \<times> 's world" where
  "create_io_queue_pair E c np w =
     (case np of None \<Rightarrow> (False, c, None, w\<lparr>errno := EINVAL\<rparr>) | Some n \<Rightarrow>
      if bar0_virt c = NULL then (False, c, Some n, w\<lparr>errno := EINVAL\<rparr>)
      else if admin_sq_virt_addr c = NULL then (False, c, Some n, w\<lparr>errno := EINVAL\<rparr>)
      else if admin_cq_virt_addr c = NULL then (False, c, Some n, w\<lparr>errno := EINVAL\<rparr>)
      else if \<not> dma_fd_opened c then (False, c, Some n, w\<lparr>errno := EINVAL\<rparr>)
      else case nvme_reg_read64 E (bar0_virt c) NVME_REG_CAP w of
        (None, w) \<Rightarrow> (False, c, Some n, w)
      | (Some cap, w) \<Rightarrow>
        let qid = nvme_io_qid n; timeout_ms = ready_timeout_ms cap in
        if timeout_ms = 0 then (False, c, Some n, w\<lparr>errno := EIO\<rparr>)
        else let max_io_depth = cap_mqes_entries cap;
                 sq_depth = (if io_sq_depth n = 0 then max_io_depth else io_sq_depth n)
        in if sq_depth > max_io_depth then (False, c, Some n, w\<lparr>errno := EINVAL\<rparr>)
        else let cq_depth = (if io_cq_depth n = 0 then max_io_depth else io_cq_depth n)
        in if cq_depth > max_io_depth then (False, c, Some n, w\<lparr>errno := EINVAL\<rparr>)
        else case create_alloc E sq_depth cq_depth c n w of (ok, c, n, w) \<Rightarrow>
        if \<not> ok then (False, c, Some n, w)
        else case create_commands E cap qid sq_depth cq_depth c n w of (ok, c, n, w) \<Rightarrow> (ok, c, Some n, w))"

text \<open>The end of \<^verbatim>\<open>delete_io_queue_pair\<close>: forget the addresses, free the buffers, forget the geometry.\<close>

definition delete_release :: "'s env \<Rightarrow> nvme_data \<Rightarrow> 's world \<Rightarrow> nvme_data \<times> 's world" where
  "delete_release E n w =
     (let n = n\<lparr>io_sq_head := 0, io_sq_tail := 0, ic_cq_head := 0, io_cq_pahse := 0,
               io_sq_phys_addr := 0, io_cq_phys_addr := 0, io_prp_list_phys_addr := 0, io_u_data_phys_addr := 0,
               io_sq_virt_addr := NULL, io_cq_virt_addr := NULL, io_prp_list_virt_addr := NULL,
               io_u_data_virt_addr := NULL\<rparr>
      in case free_dma E (io_sq_mem n) w of (m, w) \<Rightarrow> let n = n\<lparr>io_sq_mem := m\<rparr> in
      case free_dma E (io_cq_mem n) w of (m, w) \<Rightarrow> let n = n\<lparr>io_cq_mem := m\<rparr> in
      case free_dma E (io_prp_list_mem n) w of (m, w) \<Rightarrow> let n = n\<lparr>io_prp_list_mem := m\<rparr> in
      case free_dma E (io_u_data_mem n) w of (m, w) \<Rightarrow> let n = n\<lparr>io_u_data_mem := m\<rparr> in
      (n\<lparr>io_sq_depth := 0, io_cq_depth := 0, io_sq_tail_db := 0, io_cq_head_db := 0\<rparr>, w))"

definition delete_commands ::
  "'s env \<Rightarrow> u16 \<Rightarrow> controller_data \<Rightarrow> nvme_data \<Rightarrow> 's world \<Rightarrow> bool \<times> controller_data \<times> 's world" where
  "delete_commands E qid c n w =
     (case (if io_sq_virt_addr n \<noteq> NULL
            then admin_command E c NVME_ADMIN_DELETE_IO_SQ_OPCODE 0 (ucast qid) 0 w else (True, c, w)) of (ok, c, w) \<Rightarrow>
      if \<not> ok then (False, c, w)
      else if io_cq_virt_addr n \<noteq> NULL
           then admin_command E c NVME_ADMIN_DELETE_IO_CQ_OPCODE 0 (ucast qid) 0 w else (True, c, w))"

definition delete_io_queue_pair ::
  "'s env \<Rightarrow> controller_data \<Rightarrow> nvme_data option \<Rightarrow> 's world
     \<Rightarrow> bool \<times> controller_data \<times> nvme_data option \<times> 's world" where
  "delete_io_queue_pair E c np w =
     (case np of None \<Rightarrow> (False, c, None, w\<lparr>errno := EINVAL\<rparr>) | Some n \<Rightarrow>
      if bar0_virt c = NULL then (False, c, Some n, w\<lparr>errno := EINVAL\<rparr>)
      else if admin_sq_virt_addr c = NULL then (False, c, Some n, w\<lparr>errno := EINVAL\<rparr>)
      else if admin_cq_virt_addr c = NULL then (False, c, Some n, w\<lparr>errno := EINVAL\<rparr>)
      else if io_sq_virt_addr n = NULL \<and> io_cq_virt_addr n = NULL \<and>
              io_u_data_virt_addr n = NULL \<and> io_u_data_phys_addr n = 0 then (True, c, Some n, w)
      else case nvme_reg_read64 E (bar0_virt c) NVME_REG_CAP w of
        (None, w) \<Rightarrow> (False, c, Some n, w)
      | (Some cap, w) \<Rightarrow>
        let qid = nvme_io_qid n; timeout_ms = ready_timeout_ms cap in
        if timeout_ms = 0 then (False, c, Some n, w\<lparr>errno := EIO\<rparr>)
        else case delete_commands E qid c n w of (ok, c, w) \<Rightarrow>
        if \<not> ok then (False, c, Some n, w)
        else case delete_release E n w of (n, w) \<Rightarrow> (True, c, Some n, w))"

section \<open>The size of the namespace\<close>

text \<open>What the code reads from the Identify Namespace data at address \<open>data\<close>.\<close>

definition identify_nsze :: "ram \<Rightarrow> u64 \<Rightarrow> u64" where
  "identify_nsze r data = load_le64 r (data + 0)"

definition identify_lba_shift :: "ram \<Rightarrow> u64 \<Rightarrow> u8" where
  "identify_lba_shift r data =
     (let flbas = load8 r (data + 26);
          lbaf_index = flbas AND 0x0f;
          lbaf_offset = 128 + 4 * ucast lbaf_index
      in load8 r (data + lbaf_offset + 2))"

definition file_size_result ::
  "'s env \<Rightarrow> controller_data \<Rightarrow> mem \<Rightarrow> 's world \<Rightarrow> u64 \<times> controller_data \<times> 's world" where
  "file_size_result E c identify w =
     (let data = user_virtaddr identify;
          nsze = identify_nsze (ram w) data;
          shift = identify_lba_shift (ram w) data
      in if shift \<ge> 64 then (0, c, snd (free_dma E identify (w\<lparr>errno := EIO\<rparr>)))
      else let c = c\<lparr>lba_shift := unat shift, ns_size := push_bit (unat shift) nsze\<rparr>
      in (ns_size c, c, snd (free_dma E identify w)))"

definition nvme_get_file_size ::
  "'s env \<Rightarrow> controller_data option \<Rightarrow> 's world \<Rightarrow> u64 \<times> controller_data option \<times> 's world" where
  "nvme_get_file_size E cp w =
     (case cp of None \<Rightarrow> (0, None, w\<lparr>errno := EINVAL\<rparr>) | Some c \<Rightarrow>
      if bar0_virt c = NULL \<or> admin_sq_virt_addr c = NULL \<or> admin_cq_virt_addr c = NULL
      then (0, Some c, w\<lparr>errno := EINVAL\<rparr>)
      else if \<not> dma_fd_opened c then (0, Some c, w\<lparr>errno := EINVAL\<rparr>)
      else case nvme_reg_read64 E (bar0_virt c) NVME_REG_CAP w of
        (None, w) \<Rightarrow> (0, Some c, w)
      | (Some cap, w) \<Rightarrow>
        let timeout_ms = ready_timeout_ms cap in
        if timeout_ms = 0 then (0, Some c, w\<lparr>errno := EIO\<rparr>)
        else case nvme_alloc_dma_mem E c 4096 mem_zero w of (ok, identify, c, w) \<Rightarrow>
        if \<not> ok then (0, Some c, w)
        else let w = dma_mem_clear identify w;
                 cmd_id = admin_cmd_id c;
                 c = c\<lparr>admin_cmd_id := admin_cmd_id c + 1\<rparr>
        in case submit_identify_namespace E c (dma_addr identify) cmd_id w of (ok, c, w) \<Rightarrow>
        if \<not> ok then (0, Some c, snd (free_dma E identify w))
        else case wait_admin_completion E c cmd_id 60000 w of (ok, c, w) \<Rightarrow>
        if \<not> ok then (0, Some c, snd (free_dma E identify w))
        else case file_size_result E c identify w of (sz, c, w) \<Rightarrow> (sz, Some c, w))"

section \<open>The admin rings\<close>

interpretation asq: ring admin_sq_advance "\<lambda>c. unat (admin_sq_tail c)" "\<lambda>c. unat (admin_sq_depth c)"
  by unfold_locales
    (auto simp: admin_sq_advance_def Let_def Suc_unat_eq_iff unat_Suc_less word_less_nat_alt [symmetric])

interpretation acq: phase_ring admin_cq_advance "\<lambda>c. unat (admin_cq_head c)" "\<lambda>c. unat (admin_cq_depth c)"
  admin_cq_phase "\<lambda>p. p XOR (1 :: u8)"
  by unfold_locales
    (auto simp: admin_cq_advance_def Let_def Suc_unat_eq_iff unat_Suc_less word_less_nat_alt [symmetric] xor.assoc)

text \<open>Commands move the rings and the command counter of a controller and nothing else of it.\<close>

definition admin_frame :: "controller_data \<Rightarrow> controller_data \<Rightarrow> bool" where
  "admin_frame c c' \<longleftrightarrow> (\<exists>t h p i. c' = c\<lparr>admin_sq_tail := t, admin_cq_head := h, admin_cq_phase := p, admin_cmd_id := i\<rparr>)"

lemma admin_frame_trans: "admin_frame c c' \<Longrightarrow> admin_frame c' c'' \<Longrightarrow> admin_frame c c''"
  unfolding admin_frame_def by (elim exE) (simp, blast)

lemma admin_frameI:
  "admin_frame c (c\<lparr>admin_sq_tail := t, admin_cq_head := h, admin_cq_phase := p, admin_cmd_id := i\<rparr>)"
  unfolding admin_frame_def by blast

lemma admin_frame_refl: "admin_frame c c"
  using admin_frameI [where c = c and t = "admin_sq_tail c" and h = "admin_cq_head c" and p = "admin_cq_phase c" and i = "admin_cmd_id c"] by simp

lemma admin_frame_cmd_id: "admin_frame c (c\<lparr>admin_cmd_id := i\<rparr>)"
  using admin_frameI [where c = c and t = "admin_sq_tail c" and h = "admin_cq_head c" and p = "admin_cq_phase c" and i = i] by simp

lemma admin_advance_simps:
  "admin_sq_advance c =
     c\<lparr>admin_sq_tail := if admin_sq_tail c + 1 = admin_sq_depth c then 0 else admin_sq_tail c + 1\<rparr>"
  "admin_cq_advance c =
     c\<lparr>admin_cq_head := if admin_cq_head c + 1 = admin_cq_depth c then 0 else admin_cq_head c + 1,
       admin_cq_phase := if admin_cq_head c + 1 = admin_cq_depth c then admin_cq_phase c XOR 1 else admin_cq_phase c\<rparr>"
  by (simp_all add: admin_sq_advance_def admin_cq_advance_def Let_def)

lemma admin_frame_advance: "admin_frame c (admin_sq_advance c)" "admin_frame c (admin_cq_advance c)"
  unfolding admin_advance_simps
  using admin_frameI [where c = c and h = "admin_cq_head c" and p = "admin_cq_phase c" and i = "admin_cmd_id c"]
    admin_frameI [where c = c and t = "admin_sq_tail c" and i = "admin_cmd_id c"]
  by simp_all

lemma admin_frame_fields:
  assumes "admin_frame c c'"
  shows "bar0_virt c' = bar0_virt c" "admin_sq_virt_addr c' = admin_sq_virt_addr c"
    "admin_cq_virt_addr c' = admin_cq_virt_addr c" "dma_fd_opened c' = dma_fd_opened c" "dma_fd c' = dma_fd c"
    "admin_sq_depth c' = admin_sq_depth c" "admin_cq_depth c' = admin_cq_depth c"
    "ctrl_fds c' = ctrl_fds c" "ctrl_maps c' = ctrl_maps c" "c_nsid c' = c_nsid c" "lba_shift c' = lba_shift c"
  using assms unfolding admin_frame_def by (elim exE; simp add: fun_eq_iff ctrl_fds_def ctrl_maps_def)+

lemma admin_frame_accounts: "admin_frame c c' \<Longrightarrow> quiet w w' \<Longrightarrow> accounts c w c' w'"
  by (simp add: accounts_def quiet_def admin_frame_fields)

section \<open>Commands keep the resources\<close>

lemma quiet_ram [simp]: "quiet w (w'\<lparr>ram := r\<rparr>) \<longleftrightarrow> quiet w w'" "quiet (w\<lparr>ram := r\<rparr>) w' \<longleftrightarrow> quiet w w'"
  by (simp_all add: quiet_def balance_defs fun_eq_iff)

lemma quiet_emit_barrier [simp]: "quiet (emit Ev_Barrier w) w' \<longleftrightarrow> quiet w w'"
  by (simp add: quiet_def balance_defs fun_eq_iff)

lemma quiet_vload16 [quiet_intros]: "vload16 E a w = (v, w') \<Longrightarrow> quiet w w'"
  by (rule quiet_trace_eq) (rule trace_vload)

lemma quiet_sleep: "quiet w (sleep_1ms E w)"
  by (rule quiet_trace_eq) (simp add: sleep_1ms_def)

lemma admin_ring_doorbell_keeps:
  "admin_ring_doorbell E c w = (ok, c', w') \<Longrightarrow> c' = admin_sq_advance c \<and> quiet w w'"
  by (auto simp: admin_ring_doorbell_def Let_def dest!: quiet_write32 split: prod.splits if_splits)

lemma submit_keeps:
  "submit_admin_command E c opcode nsid prp1 cdw10 cdw11 cmd_id w = (ok, c', w') \<Longrightarrow> admin_frame c c' \<and> quiet w w'"
  "submit_identify_namespace E c phys cmd_id w = (ok, c', w') \<Longrightarrow> admin_frame c c' \<and> quiet w w'"
  by (auto simp: submit_admin_command_def submit_identify_namespace_def Let_def admin_frame_advance
      dest!: admin_ring_doorbell_keeps)

lemma wait_admin_loop_keeps:
  "wait_admin_loop E cmd_id elapsed timeout_ms c w = (ok, c', w') \<Longrightarrow> admin_frame c c' \<and> quiet w w'"
proof (induction E cmd_id elapsed timeout_ms c w rule: wait_admin_loop.induct)
  case (1 E cmd_id elapsed timeout_ms c w)
  let ?a = "admin_cq_virt_addr c + ucast (admin_cq_head c) * 16"
  obtain psf w1 where v1: "vload16 E (?a + 14) w = (psf, w1)" by (rule prod.exhaust)
  obtain cid w2 where v2: "vload16 E (?a + 12) w1 = (cid, w2)" by (rule prod.exhaust)
  obtain psf3 w3 where v3: "vload16 E (?a + 14) w2 = (psf3, w3)" by (rule prod.exhaust)
  obtain psf4 w4 where v4: "vload16 E (?a + 14) w3 = (psf4, w4)" by (rule prod.exhaust)
  let ?c = "admin_cq_advance c"
  obtain r w5 where v5: "controller_reg_write32 E (bar0_virt ?c) (admin_cq_head_db ?c) (ucast (admin_cq_head ?c)) w4 = (r, w5)"
    by (rule prod.exhaust)
  have q: "quiet w w1" "quiet w w4" "quiet w w5"
    using quiet_vload16 [OF v1] quiet_vload16 [OF v2] quiet_vload16 [OF v3] quiet_vload16 [OF v4] quiet_write32 [OF v5]
    by (blast intro: quiet_trans)+
  note loop = wait_admin_loop.simps [of E cmd_id elapsed timeout_ms c w]
  show ?case
  proof (cases "elapsed < timeout_ms \<and> psf_p psf \<noteq> ucast (admin_cq_phase c)")
    case True
    then have "admin_frame c c' \<and> quiet (sleep_1ms E w1) w'"
      using 1 v1 by (auto simp: loop)
    then show ?thesis using quiet_trans [OF quiet_trans [OF q(1) quiet_sleep]] by blast
  next
    case False
    then show ?thesis
      using "1.prems" v1 v2 v3 v4 v5 q
      by (auto simp: loop Let_def admin_frame_refl admin_frame_advance split: if_splits)
  qed
qed

lemma admin_command_keeps:
  assumes "admin_command E c opcode prp1 cdw10 cdw11 w = (ok, c', w')"
  shows "admin_frame c c'" and "quiet w w'"
proof -
  let ?c = "c\<lparr>admin_cmd_id := admin_cmd_id c + 1\<rparr>"
  obtain ok1 c1 w1 where s: "submit_admin_command E ?c opcode 0 prp1 cdw10 cdw11 (admin_cmd_id c) w = (ok1, c1, w1)"
    by (rule prod_cases3)
  have f: "admin_frame c c1" "quiet w w1"
    using submit_keeps(1) [OF s] admin_frame_trans [OF admin_frame_cmd_id] by blast+
  have "ok1 \<Longrightarrow> wait_admin_loop E (admin_cmd_id c) 0 60000 c1 w1 = (ok, c', w')" "\<not> ok1 \<Longrightarrow> c' = c1 \<and> w' = w1"
    using assms s by (simp_all add: admin_command_def wait_admin_completion_def)
  then show "admin_frame c c'" "quiet w w'"
    using f wait_admin_loop_keeps admin_frame_trans quiet_trans by (cases ok1; blast)+
qed

section \<open>Commands that the controller has executed\<close>

lemma submit_admin_writes:
  assumes "bar0_virt c \<noteq> NULL" and "admin_sq_tail_db c AND 3 = 0"
  shows "\<exists>r. submit_admin_command E c opcode nsid prp1 cdw10 cdw11 cmd_id w =
      (True, admin_sq_advance c,
       mmio_write32 E (bar0_virt c + ucast (admin_sq_tail_db c)) (ucast (admin_sq_tail (admin_sq_advance c)))
         (emit Ev_Barrier (w\<lparr>ram := r\<rparr>)))
    \<and> load_command r (admin_sq_virt_addr c + ucast (admin_sq_tail c) * 64) =
        \<lparr>cmd_opcode = opcode, cmd_flags = 0, command_id = cmd_id, cmd_nsid = nsid, cmd_reserved2 = 0,
         cmd_metadata = 0, cmd_prp1 = prp1, cmd_prp2 = 0, cmd_slba = ucast cdw10 OR push_bit 32 (ucast cdw11),
         cmd_length = 0, cmd_dsmgmt = 0, cmd_reftag = 0, cmd_apptag = 0, cmd_appmask = 0\<rparr>
    \<and> (\<forall>x. 64 \<le> unat (x - (admin_sq_virt_addr c + ucast (admin_sq_tail c) * 64)) \<longrightarrow> r x = ram w x)"
proof -
  let ?a = "admin_sq_virt_addr c + ucast (admin_sq_tail c) * 64"
  let ?vs = "[(0, ucast opcode OR push_bit 16 (ucast cmd_id)), (1, nsid), (6, ucast prp1),
    (7, ucast (drop_bit 32 prp1)), (10, cdw10), (11, cdw11)]"
  define r where "r = store_dwords (memset0 (ram w) ?a 64) ?a ?vs"
  have "r x = ram w x" if "64 \<le> unat (x - ?a)" for x
    unfolding r_def using that by (subst store_dwords_frame) (auto simp: store_frame)
  moreover have "submit_admin_command E c opcode nsid prp1 cdw10 cdw11 cmd_id w =
      (True, admin_sq_advance c, mmio_write32 E (bar0_virt c + ucast (admin_sq_tail_db c))
         (ucast (admin_sq_tail (admin_sq_advance c))) (emit Ev_Barrier (w\<lparr>ram := r\<rparr>)))"
    using assms
    by (simp add: submit_admin_command_def Let_def admin_ring_doorbell_def r_def controller_reg_write32_ok
        admin_advance_simps)
  moreover have "load_command r ?a =
        \<lparr>cmd_opcode = opcode, cmd_flags = 0, command_id = cmd_id, cmd_nsid = nsid, cmd_reserved2 = 0,
         cmd_metadata = 0, cmd_prp1 = prp1, cmd_prp2 = 0, cmd_slba = ucast cdw10 OR push_bit 32 (ucast cdw11),
         cmd_length = 0, cmd_dsmgmt = 0, cmd_reftag = 0, cmd_apptag = 0, cmd_appmask = 0\<rparr>"
    unfolding r_def load_command_dwords using cmd0_fields [of opcode cmd_id] by (simp add: split_join_u64)
  ultimately show ?thesis by blast
qed

lemma load_command_identify:
  "load_command (store_dwords (memset0 r a 64) a [(0, d0), (1, d1), (6, d6), (7, d7), (10, d10)]) a =
     \<lparr>cmd_opcode = ucast d0, cmd_flags = ucast (drop_bit 8 d0), command_id = ucast (drop_bit 16 d0),
      cmd_nsid = d1, cmd_reserved2 = 0, cmd_metadata = 0,
      cmd_prp1 = ucast d6 OR push_bit 32 (ucast d7), cmd_prp2 = 0, cmd_slba = ucast d10,
      cmd_length = 0, cmd_dsmgmt = 0, cmd_reftag = 0, cmd_apptag = 0, cmd_appmask = 0\<rparr>"
  using load8_of_load32 [of 0 _ a] load8_of_load32 [of 1 _ a]
  by (simp add: load_command_def load16_of_load32 [of _ a] load64_of_load32 ram_simps add.assoc)

text \<open>An admin command as the controller sees it: what the fields that it does not use hold is zero.\<close>

definition admin_cmd :: "u8 \<Rightarrow> u16 \<Rightarrow> u32 \<Rightarrow> u64 \<Rightarrow> u32 \<Rightarrow> u32 \<Rightarrow> nvme_command" where
  "admin_cmd opcode cid nsid addr cdw10 cdw11 =
     \<lparr>cmd_opcode = opcode, cmd_flags = 0, command_id = cid, cmd_nsid = nsid, cmd_reserved2 = 0,
      cmd_metadata = 0, cmd_prp1 = addr, cmd_prp2 = 0, cmd_slba = ucast cdw10 OR push_bit 32 (ucast cdw11),
      cmd_length = 0, cmd_dsmgmt = 0, cmd_reftag = 0, cmd_apptag = 0, cmd_appmask = 0\<rparr>"

text \<open>
  \<open>admin_done E c cmd w c' w'\<close>: with controller \<open>c\<close> and from world \<open>w\<close> on, the command \<open>cmd\<close> was written to the
  tail of the admin submission queue and nothing else, the doorbell was rung after a barrier, and the wait
  for its completion ended with success in \<open>w'\<close> and left the controller structure \<open>c'\<close>.
\<close>

definition admin_done :: "'s env \<Rightarrow> controller_data \<Rightarrow> nvme_command \<Rightarrow> 's world \<Rightarrow> controller_data \<Rightarrow> 's world \<Rightarrow> bool" where
  "admin_done E c cmd w c' w' \<longleftrightarrow>
     (\<exists>r. load_command r (admin_sq_virt_addr c + ucast (admin_sq_tail c) * 64) = cmd
        \<and> (\<forall>x. 64 \<le> unat (x - (admin_sq_virt_addr c + ucast (admin_sq_tail c) * 64)) \<longrightarrow> r x = ram w x)
        \<and> wait_admin_completion E ((admin_sq_advance c)\<lparr>admin_cmd_id := admin_cmd_id c + 1\<rparr>) (command_id cmd) 60000
             (mmio_write32 E (bar0_virt c + ucast (admin_sq_tail_db c)) (ucast (admin_sq_tail (admin_sq_advance c)))
               (emit Ev_Barrier (w\<lparr>ram := r\<rparr>))) = (True, c', w'))"

text \<open>The doorbell write fails only for a missing register map or an unaligned offset.\<close>

lemma admin_ring_doorbell_ok:
  assumes "admin_ring_doorbell E c w = (True, c', w')"
  shows "bar0_virt c \<noteq> NULL" "admin_sq_tail_db c AND 3 = 0"
  using assms by (auto simp: admin_ring_doorbell_def Let_def controller_reg_write32_def admin_advance_simps split: if_splits)

lemma sq_advance_cmd_id: "admin_sq_advance (c\<lparr>admin_cmd_id := i\<rparr>) = (admin_sq_advance c)\<lparr>admin_cmd_id := i\<rparr>"
  by (simp add: admin_advance_simps)

lemma admin_command_done:
  assumes "admin_command E c opcode prp1 cdw10 cdw11 w = (True, c', w')"
  shows "admin_done E c (admin_cmd opcode (admin_cmd_id c) 0 prp1 cdw10 cdw11) w c' w'"
proof -
  let ?c = "c\<lparr>admin_cmd_id := admin_cmd_id c + 1\<rparr>"
  obtain ok c1 w1 where s: "submit_admin_command E ?c opcode 0 prp1 cdw10 cdw11 (admin_cmd_id c) w = (ok, c1, w1)"
    by (rule prod_cases3)
  have w: "ok" "wait_admin_completion E c1 (admin_cmd_id c) 60000 w1 = (True, c', w')"
    using assms s by (auto simp: admin_command_def split: if_splits)
  have "submit_admin_command E ?c opcode 0 prp1 cdw10 cdw11 (admin_cmd_id c) w = (True, c1, w1)" using s w(1) by simp
  note db = admin_ring_doorbell_ok [OF this [unfolded submit_admin_command_def Let_def]]
  from submit_admin_writes [OF db, of E opcode 0 prp1 cdw10 cdw11 "admin_cmd_id c" w] s w show ?thesis
    unfolding admin_done_def by (auto simp: admin_cmd_def sq_advance_cmd_id)
qed

lemma submit_identify_done:
  assumes s: "submit_identify_namespace E (c\<lparr>admin_cmd_id := admin_cmd_id c + 1\<rparr>) phys (admin_cmd_id c) w = (True, c1, w1)"
    and w: "wait_admin_completion E c1 (admin_cmd_id c) 60000 w1 = (True, c', w')"
  shows "admin_done E c (admin_cmd 6 (admin_cmd_id c) (ucast (c_nsid c)) phys 0 0) w c' w'"
proof -
  let ?a = "admin_sq_virt_addr c + ucast (admin_sq_tail c) * 64" and ?c = "c\<lparr>admin_cmd_id := admin_cmd_id c + 1\<rparr>"
  let ?vs = "[(0, NVME_ADMIN_IDENTIFY_OPCODE OR push_bit 16 (ucast (admin_cmd_id c))), (1, ucast (c_nsid c)), (6, ucast phys),
    (7, ucast (drop_bit 32 phys)), (10, 0)]"
  define r where "r = store_dwords (memset0 (ram w) ?a 64) ?a ?vs"
  have "r x = ram w x" if "64 \<le> unat (x - ?a)" for x
    unfolding r_def using that by (subst store_dwords_frame) (auto simp: store_frame)
  moreover have "load_command r ?a = admin_cmd 6 (admin_cmd_id c) (ucast (c_nsid c)) phys 0 0"
    unfolding r_def load_command_identify using cmd0_fields [of 6 "admin_cmd_id c"] by (simp add: split_join_u64 admin_cmd_def)
  moreover have "bar0_virt c \<noteq> NULL" "admin_sq_tail_db c AND 3 = 0"
    using admin_ring_doorbell_ok [OF s [unfolded submit_identify_namespace_def Let_def]] by simp_all
  then have "c1 = (admin_sq_advance c)\<lparr>admin_cmd_id := admin_cmd_id c + 1\<rparr>"
    "w1 = mmio_write32 E (bar0_virt c + ucast (admin_sq_tail_db c)) (ucast (admin_sq_tail (admin_sq_advance c)))
       (emit Ev_Barrier (w\<lparr>ram := r\<rparr>))"
    using s by (auto simp: submit_identify_namespace_def Let_def admin_ring_doorbell_def controller_reg_write32_ok
        admin_advance_simps r_def)
  ultimately show ?thesis using w unfolding admin_done_def by (auto simp: admin_cmd_def)
qed

section \<open>The buffers of a queue pair\<close>

definition depth_ok :: "u32 \<Rightarrow> bool" where
  "depth_ok d \<longleftrightarrow> 0 < unat d \<and> unat d \<le> 65536"

lemma unat_ucast_u32_u64 [simp]: "unat (ucast (x :: u32) :: u64) = unat x"
  using unat_less_2p32 [of x] by (simp add: unsigned_ucast_eq take_bit_nat_eq_self)

lemma unat_scaled_depth:
  assumes "depth_ok d" and "k \<le> 4096"
  shows "unat (of_nat k * ucast d :: u64) = k * unat d"
proof -
  have "k * unat d \<le> 4096 * 65536" using assms by (intro mult_mono) (auto simp: depth_ok_def)
  moreover have "unat (of_nat k :: u64) = k" using assms(2) by (intro unat_of_nat_u64) simp
  ultimately show ?thesis by (simp add: unat_word_ariths)
qed

lemma page_length_round_up:
  assumes "0 < unat sz" and "unat sz \<le> 2 ^ 32 - 4096"
  shows "page_length (round_up_page sz)" and "unat sz \<le> unat (round_up_page sz)"
proof -
  have u: "unat (round_up_page sz) = (unat sz + 4095) div 4096 * 4096" by (rule unat_round_up_page [OF assms(2)])
  have "1 \<le> (unat sz + 4095) div 4096" using assms(1) by simp
  moreover have "(unat sz + 4095) div 4096 * 4096 < 2 ^ 63"
    using assms(2) le_less_trans [of "(unat sz + 4095) div 4096 * 4096" "unat sz + 4095" "2 ^ 63"] by simp
  ultimately show "page_length (round_up_page sz)"
    unfolding page_length_def u by (intro conjI dvd_triv_right) simp_all
  show "unat sz \<le> unat (round_up_page sz)"
    unfolding u using div_mult_mod_eq [of "unat sz + 4095" 4096] mod_less_divisor [of 4096 "unat sz + 4095"] by linarith
qed

lemma queue_sizes:
  assumes "depth_ok d"
  shows "page_length (round_up_page (64 * ucast d))" "64 * unat d \<le> unat (round_up_page (64 * ucast d))"
    "page_length (round_up_page (16 * ucast d))" "16 * unat d \<le> unat (round_up_page (16 * ucast d))"
    "page_length (4096 * ucast d)" "unat (4096 * ucast d :: u64) = 4096 * unat d"
proof -
  have d: "0 < unat d" "unat d \<le> 65536" using assms by (auto simp: depth_ok_def)
  have u: "unat (64 * ucast d :: u64) = 64 * unat d" "unat (16 * ucast d :: u64) = 16 * unat d"
    "unat (4096 * ucast d :: u64) = 4096 * unat d"
    using unat_scaled_depth [OF assms, of 64] unat_scaled_depth [OF assms, of 16] unat_scaled_depth [OF assms, of 4096]
    by simp_all
  show "page_length (round_up_page (64 * ucast d))" "64 * unat d \<le> unat (round_up_page (64 * ucast d))"
    using page_length_round_up [of "64 * ucast d"] d unfolding u by auto
  show "page_length (round_up_page (16 * ucast d))" "16 * unat d \<le> unat (round_up_page (16 * ucast d))"
    using page_length_round_up [of "16 * ucast d"] d unfolding u by auto
  show "page_length (4096 * ucast d)" using d unfolding page_length_def u by simp
  show "unat (4096 * ucast d :: u64) = 4096 * unat d" by (rule u(3))
qed

definition data_maps :: "nvme_data \<Rightarrow> u64 \<times> u64 \<Rightarrow> int" where
  "data_maps n y = mem_maps (io_sq_mem n) y + mem_maps (io_cq_mem n) y + mem_maps (io_prp_list_mem n) y
     + mem_maps (io_u_data_mem n) y"

lemma alloc_opened:
  "dma_fd_opened c \<Longrightarrow> nvme_alloc_dma_mem E c sz m w = (ok, m', c', w') \<Longrightarrow> c' = c"
  by (auto simp: nvme_alloc_dma_mem_def nvme_dma_open_controller_def split: prod.splits if_splits)

context dma_service
begin

text \<open>One allocation on an open controller.\<close>

lemma alloc_opened_balance:
  assumes "nvme_alloc_dma_mem E c sz m w = (ok, m', c', w')" and "page_length sz" and "\<not> mem_valid m"
    and "dma_fd_opened c"
  shows "c' = c" and "fd_balance w' x = fd_balance w x" and "map_balance w' y = map_balance w y + mem_maps m' y"
    and "ok \<longleftrightarrow> mem_valid m'" and "mem_valid m' \<Longrightarrow> mem_size m' = sz"
proof -
  show c': "c' = c" by (rule alloc_opened [OF assms(4,1)])
  note a = alloc_dma_mem_accounts [OF assms(1-3)]
  show "fd_balance w' x = fd_balance w x" using a(1) [of x] by (simp add: c')
  show "map_balance w' y = map_balance w y + mem_maps m' y" "ok \<longleftrightarrow> mem_valid m'" by (fact a)+
  show "mem_valid m' \<Longrightarrow> mem_size m' = sz" using a(4) by blast
qed

end

context dma_service
begin

lemma create_alloc_outcome:
  assumes run: "create_alloc E sq_depth cq_depth c n w = (ok, c', n', w')"
    and d: "depth_ok sq_depth" "depth_ok cq_depth" and c: "dma_fd_opened c"
    and inv: "\<not> mem_valid (io_sq_mem n)" "\<not> mem_valid (io_cq_mem n)" "\<not> mem_valid (io_prp_list_mem n)"
  obtains m1 m2 m3 where "c' = c" "n' = n\<lparr>io_cq_mem := m1, io_sq_mem := m2, io_prp_list_mem := m3\<rparr>"
    "fd_balance w' = fd_balance w"
    "\<forall>y. map_balance w' y = map_balance w y + mem_maps m1 y + mem_maps m2 y + mem_maps m3 y"
    "ok \<longrightarrow> mem_valid m1 \<and> mem_valid m2 \<and> mem_valid m3 \<and> mem_size m1 = round_up_page (16 * ucast cq_depth)
       \<and> mem_size m2 = round_up_page (64 * ucast sq_depth) \<and> mem_size m3 = 4096 * ucast sq_depth"
    "\<not> ok \<longrightarrow> \<not> mem_valid m1 \<and> \<not> mem_valid m2 \<and> \<not> mem_valid m3"
proof -
  note qs = queue_sizes [OF d(1)] queue_sizes [OF d(2)]
  obtain ok1 m1 c1 w1 where 1: "nvme_alloc_dma_mem E c (round_up_page (16 * ucast cq_depth)) (io_cq_mem n) w = (ok1, m1, c1, w1)"
    by (rule prod_cases4)
  note a1 = alloc_opened_balance [OF 1 qs(9) inv(2) c]
  obtain ok2 m2 c2 w2 where 2: "nvme_alloc_dma_mem E c (round_up_page (64 * ucast sq_depth)) (io_sq_mem n) w1 = (ok2, m2, c2, w2)"
    by (rule prod_cases4)
  note a2 = alloc_opened_balance [OF 2 qs(1) inv(1) c]
  obtain ok3 m3 c3 w3 where 3: "nvme_alloc_dma_mem E c (4096 * ucast sq_depth) (io_prp_list_mem n) w2 = (ok3, m3, c3, w3)"
    by (rule prod_cases4)
  note a3 = alloc_opened_balance [OF 3 qs(5) inv(3) c]
  obtain m4 w4 where 4: "free_dma E m1 w2 = (m4, w4)" by (rule prod.exhaust)
  note a4 = free_dma_balance [OF 4]
  obtain m5 w5 where 5: "free_dma E m2 w3 = (m5, w5)" by (rule prod.exhaust)
  note a5 = free_dma_balance [OF 5]
  obtain m6 w6 where 6: "free_dma E m1 w5 = (m6, w6)" by (rule prod.exhaust)
  note a6 = free_dma_balance [OF 6]
  note unfold = create_alloc_def Let_def
  have e: "c1 = c" "c2 = c" "c3 = c" using a1(1) a2(1) a3(1) by simp_all
  consider "\<not> ok1" | "ok1" "\<not> ok2" | "ok1" "ok2" "\<not> ok3" | "ok1" "ok2" "ok3" by blast
  then show thesis
  proof cases
    case k: 1
    then have r: "ok = False" "c' = c" "n' = n\<lparr>io_cq_mem := m1\<rparr>" "w' = w1"
      using run 1 e by (auto simp: unfold)
    show ?thesis
      by (rule that [of "io_prp_list_mem n" "io_sq_mem n" m1])
        (simp_all add: r k a1(2,3) inv fun_eq_iff a1(4) [symmetric])
  next
    case k: 2
    then have r: "ok = False" "c' = c" "n' = n\<lparr>io_cq_mem := m4, io_sq_mem := m2\<rparr>" "w' = w4"
      using run 1 2 4 e by (auto simp: unfold)
    show ?thesis
      by (rule that [of "io_prp_list_mem n" m2 m4])
        (simp_all add: r k a1(2,3) a2(2,3) a4 inv fun_eq_iff a2(4) [symmetric])
  next
    case k: 3
    then have r: "ok = False" "c' = c" "n' = n\<lparr>io_cq_mem := m6, io_sq_mem := m5, io_prp_list_mem := m3\<rparr>" "w' = w6"
      using run 1 2 3 5 6 e by (auto simp: unfold)
    show ?thesis
      by (rule that [of m3 m5 m6])
        (simp_all add: r k a1(2,3) a2(2,3) a3(2,3) a5 a6 fun_eq_iff a3(4) [symmetric])
  next
    case k: 4
    let ?w = "dma_mem_clear m3 (dma_mem_clear m2 (dma_mem_clear m1 w3))"
    have r: "ok = True" "c' = c" "n' = n\<lparr>io_cq_mem := m1, io_sq_mem := m2, io_prp_list_mem := m3\<rparr>" "w' = ?w"
      using run 1 2 3 e k by (auto simp: unfold)
    have "quiet w3 ?w" by (blast intro: quiet_trans quiet_dma_mem_clear)
    then have q: "fd_balance ?w = fd_balance w3" "map_balance ?w = map_balance w3" by (simp_all add: quiet_def)
    have v: "mem_valid m1" "mem_valid m2" "mem_valid m3" using k a1(4) a2(4) a3(4) by simp_all
    show ?thesis
      by (rule that [of m3 m2 m1])
        (simp_all add: r q v a1(2,3) a2(2,3) a3(2,3) a1(5) [OF v(1)] a2(5) [OF v(2)] a3(5) [OF v(3)] fun_eq_iff)
  qed
qed

end

lemma unat_cap_mqes: "unat (cap_mqes_entries cap) = unat cap mod 65536 + 1"
proof -
  have "cap AND 0xffff = take_bit 16 cap" by (simp add: take_bit_eq_mask mask_eq_exp_minus_1)
  then have "unat (cap AND 0xffff) = take_bit 16 (unat cap)" by (simp only: unsigned_take_bit_eq)
  then have u: "unat (cap AND 0xffff) = unat cap mod 65536" by (simp add: take_bit_eq_mod)
  then have "unat (cap AND 0xffff) < 65536" by simp
  then have "unat (ucast (cap AND 0xffff) :: u32) = unat cap mod 65536"
    using u by (simp add: unsigned_ucast_eq take_bit_nat_eq_self)
  then show ?thesis by (simp add: cap_mqes_entries_def unat_word_ariths)
qed

lemma create_commands_outcome:
  assumes "create_commands E cap qid sq_depth cq_depth c n w = (ok, c', n', w')"
  shows "admin_frame c c' \<and> quiet w w' \<and> n' = (if ok then create_fields cap qid sq_depth cq_depth n else n)"
    and "ok \<Longrightarrow> \<exists>c2 w2.
      admin_done E c (admin_cmd 5 (admin_cmd_id c) 0 (dma_addr (io_cq_mem n)) (ucast qid OR push_bit 16 (cq_depth - 1)) 1) w c2 w2
    \<and> admin_done E c2 (admin_cmd 1 (admin_cmd_id c2) 0 (dma_addr (io_sq_mem n)) (ucast qid OR push_bit 16 (sq_depth - 1))
        (push_bit 16 (ucast qid) OR 1)) w2 c' w'"
proof -
  obtain ok1 c1 w1 where 1: "admin_command E c NVME_ADMIN_CREATE_IO_CQ_OPCODE (dma_addr (io_cq_mem n))
      (ucast qid OR push_bit 16 (cq_depth - 1)) NVME_QUEUE_PHYS_CONTIGUOUS w = (ok1, c1, w1)" by (rule prod_cases3)
  obtain ok2 c2 w2 where 2: "admin_command E c1 NVME_ADMIN_CREATE_IO_SQ_OPCODE (dma_addr (io_sq_mem n))
      (ucast qid OR push_bit 16 (sq_depth - 1)) (push_bit 16 (ucast qid) OR NVME_QUEUE_PHYS_CONTIGUOUS) w1 = (ok2, c2, w2)"
    by (rule prod_cases3)
  note k1 = admin_command_keeps [OF 1] and k2 = admin_command_keeps [OF 2]
  have "admin_frame c c2" "quiet w w2" using admin_frame_trans [OF k1(1) k2(1)] quiet_trans [OF k1(2) k2(2)] .
  then show "admin_frame c c' \<and> quiet w w' \<and> n' = (if ok then create_fields cap qid sq_depth cq_depth n else n)"
    using assms k1 unfolding create_commands_def 1 prod.case 2 by (auto split: if_splits)
  assume ok
  then have "ok1" "ok2" "c2 = c'" "w2 = w'"
    using assms unfolding create_commands_def 1 prod.case 2 by (auto split: if_splits)
  then show "\<exists>c2 w2.
      admin_done E c (admin_cmd 5 (admin_cmd_id c) 0 (dma_addr (io_cq_mem n)) (ucast qid OR push_bit 16 (cq_depth - 1)) 1) w c2 w2
    \<and> admin_done E c2 (admin_cmd 1 (admin_cmd_id c2) 0 (dma_addr (io_sq_mem n)) (ucast qid OR push_bit 16 (sq_depth - 1))
        (push_bit 16 (ucast qid) OR 1)) w2 c' w'"
    using 1 2 by (intro exI [of _ c1] exI [of _ w1] conjI) (simp_all add: admin_command_done)
qed

text \<open>The three buffers are all zero when the commands are issued.\<close>

definition mem_cleared :: "mem \<Rightarrow> ram \<Rightarrow> bool" where
  "mem_cleared m r \<longleftrightarrow> (\<forall>x. unat (x - user_virtaddr m) < unat (mem_size m) \<longrightarrow> r x = 0)"

lemma create_alloc_cleared:
  assumes "create_alloc E sq_depth cq_depth c n w = (True, c', n', w')"
  shows "mem_cleared (io_cq_mem n') (ram w')" "mem_cleared (io_sq_mem n') (ram w')" "mem_cleared (io_prp_list_mem n') (ram w')"
  using assms
  by (auto simp: create_alloc_def Let_def mem_cleared_def dma_mem_clear_def memset0_def split: prod.splits if_splits)

text \<open>A queue pair that can be used: buffers large enough for the rings, empty rings, own doorbells.\<close>

definition pair_ready :: "u64 \<Rightarrow> nvme_data \<Rightarrow> bool" where
  "pair_ready cap n \<longleftrightarrow>
     depth_ok (io_sq_depth n) \<and> unat (io_sq_depth n) \<le> unat cap mod 65536 + 1
   \<and> depth_ok (io_cq_depth n) \<and> unat (io_cq_depth n) \<le> unat cap mod 65536 + 1
   \<and> mem_valid (io_sq_mem n) \<and> 64 * unat (io_sq_depth n) \<le> unat (mem_size (io_sq_mem n))
   \<and> mem_valid (io_cq_mem n) \<and> 16 * unat (io_cq_depth n) \<le> unat (mem_size (io_cq_mem n))
   \<and> mem_valid (io_prp_list_mem n) \<and> unat (mem_size (io_prp_list_mem n)) = 4096 * unat (io_sq_depth n)
   \<and> io_sq_virt_addr n = user_virtaddr (io_sq_mem n) \<and> io_sq_phys_addr n = dma_addr (io_sq_mem n)
   \<and> io_cq_virt_addr n = user_virtaddr (io_cq_mem n) \<and> io_cq_phys_addr n = dma_addr (io_cq_mem n)
   \<and> io_prp_list_virt_addr n = user_virtaddr (io_prp_list_mem n)
   \<and> io_prp_list_phys_addr n = dma_addr (io_prp_list_mem n)
   \<and> io_sq_head n = 0 \<and> io_sq_tail n = 0 \<and> ic_cq_head n = 0 \<and> io_cq_pahse n = 1
   \<and> io_sq_tail_db n = io_sq_tail_doorbell cap (nvme_io_qid n)
   \<and> io_cq_head_db n = io_cq_head_doorbell cap (nvme_io_qid n)"

definition pair_buffers :: "nvme_data \<Rightarrow> bool list" where
  "pair_buffers n = [mem_valid (io_sq_mem n), mem_valid (io_cq_mem n), mem_valid (io_prp_list_mem n)]"

definition effective_depth :: "u64 \<Rightarrow> u32 \<Rightarrow> u32" where
  "effective_depth cap d = (if d = 0 then cap_mqes_entries cap else d)"

lemma depth_ok_effective:
  assumes "\<not> effective_depth cap d > cap_mqes_entries cap"
  shows "depth_ok (effective_depth cap d)" and "unat (effective_depth cap d) \<le> unat cap mod 65536 + 1"
proof -
  have le: "unat (effective_depth cap d) \<le> unat cap mod 65536 + 1"
    using assms by (simp add: word_less_nat_alt unat_cap_mqes)
  moreover have "unat cap mod 65536 + 1 \<le> 65536" by (simp add: Suc_le_eq)
  moreover have "effective_depth cap d \<noteq> 0"
    using unat_cap_mqes [of cap] by (auto simp: effective_depth_def)
  then have "0 < unat (effective_depth cap d)" by (simp add: unat_gt_0)
  ultimately show "depth_ok (effective_depth cap d)" "unat (effective_depth cap d) \<le> unat cap mod 65536 + 1"
    by (simp_all add: depth_ok_def)
qed

text \<open>
  How a pair was created: with the value of \<^verbatim>\<open>CAP\<close> that the run has read, buffers that it allocated and
  cleared, and then two commands that the controller executed in this order. Create I/O Completion Queue
  (opcode 5) and Create I/O Submission Queue (opcode 1) carry the bus address of their buffer, the queue
  identifier with the size minus one above it, and the flag \<^emph>\<open>physically contiguous\<close>; the submission queue also
  names the completion queue that it reports to.
\<close>

definition pair_created ::
  "'s env \<Rightarrow> controller_data \<Rightarrow> nvme_data \<Rightarrow> 's world \<Rightarrow> controller_data \<Rightarrow> nvme_data \<Rightarrow> 's world \<Rightarrow> bool" where
  "pair_created E c n w c' n' w' \<longleftrightarrow>
     (\<exists>cap w0 n1 w1 c2 w2.
        nvme_reg_read64 E (bar0_virt c) NVME_REG_CAP w = (Some cap, w0) \<and> pair_ready cap n'
      \<and> io_sq_depth n' = effective_depth cap (io_sq_depth n) \<and> io_cq_depth n' = effective_depth cap (io_cq_depth n)
      \<and> create_alloc E (io_sq_depth n') (io_cq_depth n') c n w0 = (True, c, n1, w1)
      \<and> io_cq_mem n' = io_cq_mem n1 \<and> io_sq_mem n' = io_sq_mem n1 \<and> io_prp_list_mem n' = io_prp_list_mem n1
      \<and> mem_cleared (io_cq_mem n') (ram w1) \<and> mem_cleared (io_sq_mem n') (ram w1) \<and> mem_cleared (io_prp_list_mem n') (ram w1)
      \<and> admin_done E c (admin_cmd 5 (admin_cmd_id c) 0 (dma_addr (io_cq_mem n'))
          (ucast (nvme_io_qid n') OR push_bit 16 (io_cq_depth n' - 1)) 1) w1 c2 w2
      \<and> admin_done E c2 (admin_cmd 1 (admin_cmd_id c2) 0 (dma_addr (io_sq_mem n'))
          (ucast (nvme_io_qid n') OR push_bit 16 (io_sq_depth n' - 1)) (push_bit 16 (ucast (nvme_io_qid n')) OR 1)) w2 c' w')"

text \<open>The early returns of \<^verbatim>\<open>create_io_queue_pair\<close> change nothing but \<^verbatim>\<open>errno\<close>.\<close>

lemma create_pair_cases:
  assumes "create_io_queue_pair E c (Some n) w = (ok, c', np, w')"
  obtains (early) "\<not> ok" "c' = c" "np = Some n" "quiet w w'"
  | (main) cap w1 where "nvme_reg_read64 E (bar0_virt c) NVME_REG_CAP w = (Some cap, w1)" "quiet w w1" "dma_fd_opened c"
      "\<not> effective_depth cap (io_sq_depth n) > cap_mqes_entries cap"
      "\<not> effective_depth cap (io_cq_depth n) > cap_mqes_entries cap"
      "(case create_alloc E (effective_depth cap (io_sq_depth n)) (effective_depth cap (io_cq_depth n)) c n w1 of
          (ok, c, n1, w) \<Rightarrow>
        if \<not> ok then (False, c, Some n1, w)
        else case create_commands E cap (nvme_io_qid n) (effective_depth cap (io_sq_depth n))
               (effective_depth cap (io_cq_depth n)) c n1 w of
          (ok, c, n1, w) \<Rightarrow> (ok, c, Some n1, w)) = (ok, c', np, w')"
proof -
  obtain v w1 where 1: "nvme_reg_read64 E (bar0_virt c) NVME_REG_CAP w = (v, w1)" by (rule prod.exhaust)
  have q1: "quiet w w1" by (rule quiet_read64 [OF 1])
  show thesis
  proof (cases v)
    case None
    with assms 1 q1 show ?thesis
      by (intro early) (auto simp: create_io_queue_pair_def split: if_splits)
  next
    case (Some cap)
    show ?thesis
    proof (cases "bar0_virt c = NULL \<or> admin_sq_virt_addr c = NULL \<or> admin_cq_virt_addr c = NULL \<or> \<not> dma_fd_opened c
        \<or> ready_timeout_ms cap = 0 \<or> effective_depth cap (io_sq_depth n) > cap_mqes_entries cap
        \<or> effective_depth cap (io_cq_depth n) > cap_mqes_entries cap")
      case True
      with assms 1 Some q1 show ?thesis
        by (intro early) (auto simp: create_io_queue_pair_def Let_def effective_depth_def split: if_splits)
    next
      case False
      have "(case create_alloc E (effective_depth cap (io_sq_depth n)) (effective_depth cap (io_cq_depth n)) c n w1 of
          (ok, c, n1, w) \<Rightarrow>
        if \<not> ok then (False, c, Some n1, w)
        else case create_commands E cap (nvme_io_qid n) (effective_depth cap (io_sq_depth n))
               (effective_depth cap (io_cq_depth n)) c n1 w of
          (ok, c, n1, w) \<Rightarrow> (ok, c, Some n1, w)) = (ok, c', np, w')"
        using assms 1 Some False
        unfolding create_io_queue_pair_def Let_def option.case effective_depth_def [symmetric] by simp
      with False q1 1 Some show ?thesis by (intro main [of cap w1]) simp_all
    qed
  qed
qed

context dma_service
begin

lemma create_pair_outcome:
  assumes run: "create_io_queue_pair E c (Some n) w = (ok, c', np, w')"
    and inv: "pair_buffers n = [False, False, False]"
  obtains n' where "np = Some n'" "admin_frame c c'" "fd_balance w' = fd_balance w"
    "\<forall>y. map_balance w' y - data_maps n' y = map_balance w y - data_maps n y"
    "ok \<longrightarrow> (\<exists>cap. pair_ready cap n')" "ok \<longrightarrow> pair_created E c n w c' n' w'"
    "\<not> ok \<longrightarrow> pair_buffers n' = [False, False, False] \<or> pair_buffers n' = [True, True, True]"
    "ctrl n' = ctrl n" "io_qid n' = io_qid n" "cmd_io_u n' = cmd_io_u n" "io_u_data_mem n' = io_u_data_mem n"
proof -
  have inv': "\<not> mem_valid (io_sq_mem n)" "\<not> mem_valid (io_cq_mem n)" "\<not> mem_valid (io_prp_list_mem n)"
    using inv by (simp_all add: pair_buffers_def)
  show thesis
  proof (cases rule: create_pair_cases [OF run])
    case early: 1
    then show ?thesis using inv by (intro that [of n]) (auto simp: quiet_def admin_frame_refl)
  next
    case main: (2 cap w1)
    define sd cd where "sd = effective_depth cap (io_sq_depth n)" and "cd = effective_depth cap (io_cq_depth n)"
    note d = depth_ok_effective [OF main(4), folded sd_def] depth_ok_effective [OF main(5), folded cd_def]
    obtain ok2 c2 n2 w2 where 2: "create_alloc E sd cd c n w1 = (ok2, c2, n2, w2)" by (rule prod_cases4)
    obtain m1 m2 m3 where a: "c2 = c" "n2 = n\<lparr>io_cq_mem := m1, io_sq_mem := m2, io_prp_list_mem := m3\<rparr>"
      "fd_balance w2 = fd_balance w1"
      "\<forall>y. map_balance w2 y = map_balance w1 y + mem_maps m1 y + mem_maps m2 y + mem_maps m3 y"
      "ok2 \<longrightarrow> mem_valid m1 \<and> mem_valid m2 \<and> mem_valid m3 \<and> mem_size m1 = round_up_page (16 * ucast cd)
         \<and> mem_size m2 = round_up_page (64 * ucast sd) \<and> mem_size m3 = 4096 * ucast sd"
      "\<not> ok2 \<longrightarrow> \<not> mem_valid m1 \<and> \<not> mem_valid m2 \<and> \<not> mem_valid m3"
      by (rule create_alloc_outcome [OF 2 d(1) d(3) main(3) inv']) blast
    have bal: "fd_balance w2 = fd_balance w" "map_balance w2 y - data_maps n2 y = map_balance w y - data_maps n y" for y
      using main(2) a(3) a(4) [THEN spec, of y] inv' by (simp_all add: quiet_def a(2) data_maps_def)
    show ?thesis
    proof (cases ok2)
      case False
      then have r: "ok = False" "c' = c" "np = Some n2" "w' = w2"
        using main(6) 2 a(1) by (simp_all add: sd_def cd_def)
      show ?thesis
        using a(6) False by (intro that [of n2]) (simp_all add: r bal bal(2) [unfolded a(2)] admin_frame_refl pair_buffers_def a(2))
    next
      case True
      obtain ok3 c3 n3 w3 where 3: "create_commands E cap (nvme_io_qid n) sd cd c n2 w2 = (ok3, c3, n3, w3)"
        by (rule prod_cases4)
      have r: "ok = ok3" "c' = c3" "np = Some n3" "w' = w3"
        using main(6) 2 3 a(1) True by (simp_all add: sd_def cd_def)
      note k = create_commands_outcome(1) [OF 3]
      note m = a(5) [THEN mp, OF True]
      have n3: "n3 = (if ok3 then create_fields cap (nvme_io_qid n) sd cd n2 else n2)" using k by simp
      have dm: "data_maps n3 = data_maps n2" "pair_buffers n3 = [True, True, True]" "io_u_data_mem n3 = io_u_data_mem n"
        "ctrl n3 = ctrl n" "io_qid n3 = io_qid n" "cmd_io_u n3 = cmd_io_u n"
        using m by (simp_all add: n3 fun_eq_iff data_maps_def create_fields_def pair_buffers_def a(2))
      have ready: "pair_ready cap n3" if ok3
        using that m d queue_sizes [OF d(1)] queue_sizes [OF d(3)]
        by (simp add: n3 pair_ready_def create_fields_def a(2) nvme_io_qid_def)
      have "pair_created E c n w c3 n3 w3" if ok: ok3
      proof -
        have al: "create_alloc E sd cd c n w1 = (True, c, n2, w2)" using 2 True a(1) by simp
        have f: "io_sq_depth n3 = sd" "io_cq_depth n3 = cd" "nvme_io_qid n3 = nvme_io_qid n" "io_cq_mem n3 = io_cq_mem n2"
          "io_sq_mem n3 = io_sq_mem n2" "io_prp_list_mem n3 = io_prp_list_mem n2"
          using ok by (simp_all add: n3 create_fields_def nvme_io_qid_def a(2))
        show ?thesis
          unfolding pair_created_def f
          using main(1) ready [OF ok] al create_alloc_cleared [OF al] create_commands_outcome(2) [OF 3 ok] sd_def cd_def by blast
      qed
      moreover note ready
      moreover have "admin_frame c c3" "fd_balance w3 = fd_balance w2" "map_balance w3 = map_balance w2"
        using k by (simp_all add: quiet_def)
      ultimately show ?thesis
        using bal by (intro that [of n3]) (auto simp: r dm)
    qed
  qed
qed

end

section \<open>Deleting a queue pair\<close>

lemma delete_release_outcome:
  assumes "delete_release E n w = (n', w')"
  shows "fd_balance w' = fd_balance w" and "map_balance w' y = map_balance w y - data_maps n y"
    and "data_maps n' = (\<lambda>_. 0)" and "pair_buffers n' = [False, False, False]" and "\<not> mem_valid (io_u_data_mem n')"
    and "io_sq_virt_addr n' = NULL" and "io_cq_virt_addr n' = NULL" and "ctrl n' = ctrl n"
proof -
  obtain m1 w1 where 1: "free_dma E (io_sq_mem n) w = (m1, w1)" by (rule prod.exhaust)
  obtain m2 w2 where 2: "free_dma E (io_cq_mem n) w1 = (m2, w2)" by (rule prod.exhaust)
  obtain m3 w3 where 3: "free_dma E (io_prp_list_mem n) w2 = (m3, w3)" by (rule prod.exhaust)
  obtain m4 w4 where 4: "free_dma E (io_u_data_mem n) w3 = (m4, w4)" by (rule prod.exhaust)
  note b = free_dma_balance [OF 1] free_dma_balance [OF 2] free_dma_balance [OF 3] free_dma_balance [OF 4]
  have w': "w' = w4" using assms by (simp add: delete_release_def Let_def 1 2 3 4)
  show "fd_balance w' = fd_balance w" "map_balance w' y = map_balance w y - data_maps n y"
    by (simp_all add: w' b fun_eq_iff data_maps_def)
  show "data_maps n' = (\<lambda>_. 0)" "pair_buffers n' = [False, False, False]" "\<not> mem_valid (io_u_data_mem n')"
    "io_sq_virt_addr n' = NULL" "io_cq_virt_addr n' = NULL" "ctrl n' = ctrl n"
    using assms b(3,6,9,12) by (auto simp: delete_release_def Let_def 1 2 3 4 fun_eq_iff data_maps_def pair_buffers_def)
qed

text \<open>
  What a successful deletion has made the controller execute: Delete I/O Submission Queue (opcode 0)
  before Delete I/O Completion Queue (opcode 4), each if the structure has such a queue.
\<close>

definition pair_deleted :: "'s env \<Rightarrow> nvme_data \<Rightarrow> controller_data \<Rightarrow> 's world \<Rightarrow> controller_data \<Rightarrow> 's world \<Rightarrow> bool" where
  "pair_deleted E n c w c' w' \<longleftrightarrow>
     (\<exists>c1 w1.
        (if io_sq_virt_addr n = NULL then c1 = c \<and> w1 = w
         else admin_done E c (admin_cmd 0 (admin_cmd_id c) 0 0 (ucast (nvme_io_qid n)) 0) w c1 w1)
      \<and> (if io_cq_virt_addr n = NULL then c' = c1 \<and> w' = w1
         else admin_done E c1 (admin_cmd 4 (admin_cmd_id c1) 0 0 (ucast (nvme_io_qid n)) 0) w1 c' w'))"

text \<open>The test of \<^verbatim>\<open>delete_io_queue_pair\<close> for a pair that was never created.\<close>

definition no_pair :: "nvme_data \<Rightarrow> bool" where
  "no_pair n \<longleftrightarrow> io_sq_virt_addr n = NULL \<and> io_cq_virt_addr n = NULL \<and> io_u_data_virt_addr n = NULL \<and> io_u_data_phys_addr n = 0"

lemma delete_commands_keeps:
  assumes "delete_commands E qid c n w = (ok, c', w')"
  shows "admin_frame c c'" and "quiet w w'" and "ok \<Longrightarrow> qid = nvme_io_qid n \<Longrightarrow> pair_deleted E n c w c' w'"
proof -
  obtain ok1 c1 w1 where 1: "(if io_sq_virt_addr n \<noteq> NULL
      then admin_command E c NVME_ADMIN_DELETE_IO_SQ_OPCODE 0 (ucast qid) 0 w else (True, c, w)) = (ok1, c1, w1)"
    by (rule prod_cases3)
  have k1: "admin_frame c c1" "quiet w w1"
    using 1 by (auto simp: admin_frame_refl dest: admin_command_keeps split: if_splits)
  have "admin_frame c1 c' \<and> quiet w1 w'"
    using assms unfolding delete_commands_def 1 prod.case
    by (auto simp: admin_frame_refl dest: admin_command_keeps split: if_splits)
  then show "admin_frame c c'" "quiet w w'" using k1 admin_frame_trans quiet_trans by blast+
  assume ok and q: "qid = nvme_io_qid n"
  then have "ok1" and 2: "(if io_cq_virt_addr n \<noteq> NULL
      then admin_command E c1 NVME_ADMIN_DELETE_IO_CQ_OPCODE 0 (ucast qid) 0 w1 else (True, c1, w1)) = (True, c', w')"
    using assms unfolding delete_commands_def 1 prod.case by (auto split: if_splits)
  with 1 show "pair_deleted E n c w c' w'"
    unfolding pair_deleted_def q
    by (intro exI [of _ c1] exI [of _ w1]) (auto simp: admin_command_done split: if_splits)
qed

lemma delete_pair_outcome:
  assumes "delete_io_queue_pair E c (Some n) w = (ok, c', np, w')"
  obtains (kept) "np = Some n" "admin_frame c c'" "quiet w w'"
      "ok \<longrightarrow> no_pair n"
  | (freed) n' cap w0 w1 where "ok" "np = Some n'" "admin_frame c c'" "quiet w w1" "delete_release E n w1 = (n', w')"
      "\<not> no_pair n" "nvme_reg_read64 E (bar0_virt c) NVME_REG_CAP w = (Some cap, w0)" "pair_deleted E n c w0 c' w1"
proof -
  obtain v w1 where 1: "nvme_reg_read64 E (bar0_virt c) NVME_REG_CAP w = (v, w1)" by (rule prod.exhaust)
  have q1: "quiet w w1" by (rule quiet_read64 [OF 1])
  obtain ok2 c2 w2 where 2: "delete_commands E (nvme_io_qid n) c n w1 = (ok2, c2, w2)" by (rule prod_cases3)
  note k2 = delete_commands_keeps [OF 2]
  have q2: "quiet w w2" using quiet_trans [OF q1 k2(2)] .
  obtain n3 w3 where 3: "delete_release E n w2 = (n3, w3)" by (rule prod.exhaust)
  show thesis
  proof (cases "np = Some n \<and> admin_frame c c' \<and> quiet w w' \<and> (ok \<longrightarrow> no_pair n)")
    case True
    then show ?thesis by (intro kept) auto
  next
    case False
    then have r: "ok" "np = Some n3" "c' = c2" "w' = w3" "ok2" "\<not> no_pair n" "\<exists>cap. v = Some cap"
      using assms 1 2 3 q1 q2 k2(1)
      by (auto simp: delete_io_queue_pair_def Let_def admin_frame_refl no_pair_def split: if_splits option.splits)
    then show ?thesis using freed [of n3 w2 _ w1] k2 q2 1 3 by auto
  qed
qed

section \<open>Waiting for the completion of a command\<close>

text \<open>
  The contract of the device is that of the I/O completion queue (\<open>cq_device\<close>), for the one entry \<open>e\<close>
  that answers the command in flight. While the code waits, every poll and every sleep is one step of
  the device, so the state that the \<open>i\<close>-th poll sees is the one after \<open>2 * i + 1\<close> steps.
\<close>

definition admin_synced :: "controller_data \<Rightarrow> nat \<Rightarrow> nat \<Rightarrow> bool" where
  "admin_synced c D k0 \<longleftrightarrow> 0 < D \<and> unat (admin_cq_depth c) = D
     \<and> unat (admin_cq_head c) = k0 mod D \<and> admin_cq_phase c = phase_tag_at D k0"

lemma admin_synced_advance:
  assumes "admin_synced c D k0"
  shows "admin_synced (admin_cq_advance c) D (Suc k0)"
proof -
  have D: "0 < D" "unat (admin_cq_depth c) = D" "unat (admin_cq_head c) = k0 mod D" "admin_cq_phase c = phase_tag_at D k0"
    using assms by (simp_all add: admin_synced_def)
  then have lt: "unat (admin_cq_head c) < unat (admin_cq_depth c)" by simp
  show ?thesis
    using acq.depth_step [of c] acq.pos_mod [OF lt, of k0] acq.phase_mod [OF lt, of k0 1] D
    by (simp add: admin_synced_def)
qed

lemma admin_cqe_addr:
  assumes "admin_synced c D k0"
  shows "admin_cq_virt_addr c + ucast (admin_cq_head c) * 16 = cqe_addr (admin_cq_virt_addr c) D k0"
proof -
  have "k0 mod D = unat (admin_cq_head c)" using assms by (simp add: admin_synced_def)
  then show ?thesis by (simp add: cqe_addr_def)
qed

lemma vload16_eq: "vload16 E a w = (load16 (ram (hw_run E w)) a, hw_run E w)"
  by (simp add: vload16_def Let_def)

lemma hw_run_ring:
  assumes "cq_device E b D k0 log" and "cq_ring b D k0 log p (ram w)"
  obtains p' where "p \<le> p'" "cq_ring b D k0 log p' (ram (hw_run E w))"
  using vload16_ring [OF assms vload16_eq [of E 0]] by blast

lemma cq_ring_one_cases:
  assumes "cq_ring b D k0 [e] p r"
  shows "p = 0 \<or> p = 1"
  using assms by (auto simp: cq_ring_def)

lemma cq_ring_one_unique:
  assumes "cq_ring b D k0 [e] 0 r" and "cq_ring b D k0 [e] 1 r" and "0 < D"
  shows False
  using cq_ring_empty [OF assms(1,3)] cq_ring_posted(1,4) [OF assms(2), of 0] by simp

lemma wait_admin_posted:
  assumes dev: "cq_device E (admin_cq_virt_addr c) D k0 [e]" and sync: "admin_synced c D k0"
    and posted: "cq_ring (admin_cq_virt_addr c) D k0 [e] 1 (ram (hw_run E w))"
    and reg: "bar0_virt c \<noteq> NULL" "admin_cq_head_db c AND 3 = 0"
    and lt: "elapsed < timeout_ms" and cid: "cqe_cid e = cmd_id"
  shows "\<exists>w'. wait_admin_loop E cmd_id elapsed timeout_ms c w
      = (psf_sct (cqe_psf e) = 0 \<and> psf_sc (cqe_psf e) = 0, admin_cq_advance c, w')
    \<and> trace w' = trace w @ [Ev_Mmio_Write (bar0_virt c + ucast (admin_cq_head_db c)) (ucast (admin_cq_head (admin_cq_advance c)))]"
proof -
  let ?a = "cqe_addr (admin_cq_virt_addr c) D k0" and ?b = "admin_cq_virt_addr c"
  define v2 where "v2 = hw_run E (hw_run E w)"
  define v3 where "v3 = hw_run E v2"
  define v4 where "v4 = hw_run E v3"
  have keep: "cq_ring ?b D k0 [e] 1 (ram (hw_run E u))" if "cq_ring ?b D k0 [e] 1 (ram u)" for u
    using hw_run_ring [OF dev that] cq_ring_one_cases by (metis not_one_le_zero)
  have r: "cq_ring ?b D k0 [e] 1 (ram v2)" "cq_ring ?b D k0 [e] 1 (ram v3)" "cq_ring ?b D k0 [e] 1 (ram v4)"
    using posted keep by (simp_all add: v2_def v3_def v4_def)
  note e = cq_ring_posted [where i = 0, simplified]
  have ph: "psf_p (cqe_psf e) = ucast (admin_cq_phase c)"
    using e(4) [OF posted] sync by (simp add: psf_p_def admin_synced_def)
  let ?c = "admin_cq_advance c"
  have c': "bar0_virt ?c = bar0_virt c" "admin_cq_head_db ?c = admin_cq_head_db c"
    by (simp_all add: admin_advance_simps)
  have "trace v4 = trace w" by (simp add: v4_def v3_def v2_def)
  then show ?thesis
    unfolding wait_admin_loop.simps [of E cmd_id elapsed] admin_cqe_addr [OF sync] vload16_eq
    using lt ph cid reg e(1) [OF posted] e(2) [OF r(1)] e(1) [OF r(2)] e(1) [OF r(3)]
    by (auto simp: Let_def v2_def [symmetric] v3_def [symmetric] v4_def [symmetric] c' controller_reg_write32_ok)
qed

lemma wait_admin_polls:
  assumes dev: "cq_device E (admin_cq_virt_addr c) D k0 [e]" and sync: "admin_synced c D k0"
    and reg: "bar0_virt c \<noteq> NULL" "admin_cq_head_db c AND 3 = 0" and cid: "cqe_cid e = cmd_id"
    and "cq_ring (admin_cq_virt_addr c) D k0 [e] p (ram w)"
    and "unat elapsed + i < unat timeout_ms"
    and "cq_ring (admin_cq_virt_addr c) D k0 [e] 1 (ram ((hw_run E ^^ (2 * i + 1)) w))"
  shows "\<exists>w'. wait_admin_loop E cmd_id elapsed timeout_ms c w
      = (psf_sct (cqe_psf e) = 0 \<and> psf_sc (cqe_psf e) = 0, admin_cq_advance c, w')
    \<and> trace w' = trace w @ [Ev_Mmio_Write (bar0_virt c + ucast (admin_cq_head_db c)) (ucast (admin_cq_head (admin_cq_advance c)))]"
  using assms(6-)
proof (induction i arbitrary: elapsed w p)
  case 0
  then show ?case
    using wait_admin_posted [OF dev sync _ reg _ cid] by (simp add: word_less_nat_alt)
next
  case (Suc i)
  have lt: "elapsed < timeout_ms" using Suc.prems(2) by (simp add: word_less_nat_alt)
  obtain p1 where p1: "cq_ring (admin_cq_virt_addr c) D k0 [e] p1 (ram (hw_run E w))"
    using hw_run_ring [OF dev Suc.prems(1)] by blast
  show ?case
  proof (cases "p1 = 1")
    case True
    then show ?thesis using wait_admin_posted [OF dev sync _ reg lt cid] p1 by blast
  next
    case False
    then have p0: "cq_ring (admin_cq_virt_addr c) D k0 [e] 0 (ram (hw_run E w))"
      using p1 cq_ring_one_cases [OF p1] by auto
    let ?w = "hw_run E (hw_run E w)"
    have "load16 (ram (hw_run E w)) (cqe_addr (admin_cq_virt_addr c) D k0 + 14) AND 1 \<noteq> ucast (phase_tag_at D k0)"
      using cq_ring_empty [OF p0] sync by (simp add: admin_synced_def)
    then have step: "wait_admin_loop E cmd_id elapsed timeout_ms c w = wait_admin_loop E cmd_id (elapsed + 1) timeout_ms c ?w"
      unfolding wait_admin_loop.simps [of E cmd_id elapsed timeout_ms c w] admin_cqe_addr [OF sync] vload16_eq
      using lt sync by (simp add: Let_def psf_p_def admin_synced_def sleep_1ms_def)
    obtain p2 where p2: "cq_ring (admin_cq_virt_addr c) D k0 [e] p2 (ram ?w)"
      using hw_run_ring [OF dev p1] by blast
    have "(hw_run E ^^ (2 * Suc i + 1)) w = (hw_run E ^^ (2 * i + 1)) ?w"
      by (simp add: funpow_swap1)
    then have "cq_ring (admin_cq_virt_addr c) D k0 [e] 1 (ram ((hw_run E ^^ (2 * i + 1)) ?w))"
      using Suc.prems(3) by simp
    moreover have "unat (elapsed + 1) + i < unat timeout_ms" using Suc.prems(2) lt by (simp add: unat_Suc_less)
    ultimately show ?thesis
      using Suc.IH [OF p2, of "elapsed + 1"] unfolding step by simp
  qed
qed

section \<open>The identify command\<close>

lemma ctrl_size_fields:
  "ctrl_fds (c\<lparr>lba_shift := l, ns_size := z\<rparr>) = ctrl_fds c" "ctrl_maps (c\<lparr>lba_shift := l, ns_size := z\<rparr>) = ctrl_maps c"
  by (simp_all add: fun_eq_iff ctrl_fds_def ctrl_maps_def)

lemma file_size_result_outcome:
  assumes "file_size_result E c m w = (sz, c', w')"
  shows "fd_balance w' = fd_balance w" and "map_balance w' y = map_balance w y - mem_maps m y"
    and "ctrl_fds c' = ctrl_fds c" and "ctrl_maps c' = ctrl_maps c"
    and "sz \<noteq> 0 \<Longrightarrow> sz = push_bit (lba_shift c') (identify_nsze (ram w) (user_virtaddr m))
       \<and> lba_shift c' = unat (identify_lba_shift (ram w) (user_virtaddr m)) \<and> lba_shift c' < 64 \<and> ns_size c' = sz"
    and "sz \<noteq> 0 \<Longrightarrow> c' = c\<lparr>lba_shift := lba_shift c', ns_size := sz\<rparr> \<and> w' = snd (free_dma E m w)"
proof -
  define e where "e = (if identify_lba_shift (ram w) (user_virtaddr m) \<ge> 64 then EIO else errno w)"
  obtain m' w1 where f: "free_dma E m (w\<lparr>errno := e\<rparr>) = (m', w1)" by (rule prod.exhaust)
  have w': "w' = w1"
    using assms f by (auto simp: file_size_result_def Let_def e_def split: if_splits)
  show "fd_balance w' = fd_balance w" "map_balance w' y = map_balance w y - mem_maps m y"
    using free_dma_balance(1,2) [OF f] by (simp_all add: w' fun_eq_iff)
  show "ctrl_fds c' = ctrl_fds c" "ctrl_maps c' = ctrl_maps c"
  proof -
    have "ctrl_fds c' = ctrl_fds c \<and> ctrl_maps c' = ctrl_maps c"
    proof (cases "64 \<le> identify_lba_shift (ram w) (user_virtaddr m)")
      case True
      then have "c' = c" using assms by (simp add: file_size_result_def Let_def)
      then show ?thesis by simp
    next
      case False
      then have "c' = c\<lparr>lba_shift := unat (identify_lba_shift (ram w) (user_virtaddr m)), ns_size := sz\<rparr>"
        using assms by (auto simp: file_size_result_def Let_def)
      then show ?thesis by (simp add: ctrl_size_fields)
    qed
    then show "ctrl_fds c' = ctrl_fds c" "ctrl_maps c' = ctrl_maps c" by simp_all
  qed
  show "sz \<noteq> 0 \<Longrightarrow> sz = push_bit (lba_shift c') (identify_nsze (ram w) (user_virtaddr m))
       \<and> lba_shift c' = unat (identify_lba_shift (ram w) (user_virtaddr m)) \<and> lba_shift c' < 64 \<and> ns_size c' = sz"
    using assms by (auto simp: file_size_result_def Let_def not_le word_less_nat_alt split: if_splits)
  show "sz \<noteq> 0 \<Longrightarrow> c' = c\<lparr>lba_shift := lba_shift c', ns_size := sz\<rparr> \<and> w' = snd (free_dma E m w)"
    using assms by (auto simp: file_size_result_def Let_def split: if_splits)
qed

text \<open>A query of the size moves the admin rings and sets the block size and the size, and nothing else.\<close>

definition sized_frame :: "controller_data \<Rightarrow> controller_data \<Rightarrow> bool" where
  "sized_frame c c' \<longleftrightarrow> admin_frame c (c'\<lparr>lba_shift := lba_shift c, ns_size := ns_size c\<rparr>)"

lemma admin_frame_sizes: "admin_frame c c' \<Longrightarrow> admin_frame (c\<lparr>lba_shift := l, ns_size := z\<rparr>) (c'\<lparr>lba_shift := l, ns_size := z\<rparr>)"
  unfolding admin_frame_def by (elim exE, rule_tac x = t in exI, rule_tac x = h in exI, rule_tac x = p in exI, rule_tac x = i in exI) simp

lemma admin_frame_sized: "admin_frame c c' \<Longrightarrow> sized_frame c (c'\<lparr>lba_shift := l, ns_size := z\<rparr>)"
  unfolding sized_frame_def by (drule admin_frame_sizes [where l = "lba_shift c" and z = "ns_size c"]) simp

lemma sized_frame_refl: "sized_frame c c"
  by (simp add: sized_frame_def admin_frame_refl)

lemma sized_frame_admin: "admin_frame c c' \<Longrightarrow> sized_frame c c'"
  using admin_frame_sized [of c c' "ns_size c'" "lba_shift c'"] by simp

lemma sized_frame_trans:
  assumes "sized_frame c c'" and "sized_frame c' c''"
  shows "sized_frame c c''"
  using admin_frame_trans [OF assms(1) [unfolded sized_frame_def]
      admin_frame_sizes [OF assms(2) [unfolded sized_frame_def], where l = "lba_shift c" and z = "ns_size c", simplified]]
  by (simp add: sized_frame_def)

lemma sized_frame_fields:
  assumes "sized_frame c c'"
  shows "ctrl_fds c' = ctrl_fds c" "ctrl_maps c' = ctrl_maps c" "bar0_virt c' = bar0_virt c"
  using admin_frame_fields [OF assms [unfolded sized_frame_def]] by (simp_all add: ctrl_size_fields)

lemma file_size_result_sized:
  assumes "file_size_result E c m w = (sz, c', w')"
  shows "sized_frame c c'" and "sz \<noteq> 0 \<Longrightarrow> ns_size c' = sz"
  using assms admin_frame_sized [OF admin_frame_refl, of c] sized_frame_refl
  by (auto simp: file_size_result_def Let_def split: if_splits)

text \<open>
  Where a non-zero size comes from, along the run from \<open>w\<close> to \<open>w'\<close>: a page \<open>m\<close> was allocated and cleared, the
  controller executed Identify (opcode 6, CNS 0) for the namespace with the bus address of that page, and in
  memory at that moment the page holds, in the layout of the Identify Namespace structure, the number of blocks
  in its first eight bytes and, for the format that byte 26 selects, the binary logarithm of the block size
  in the table of formats at byte 128. Then the page was freed.
\<close>

definition size_from_identify ::
  "'s env \<Rightarrow> controller_data \<Rightarrow> 's world \<Rightarrow> u64 \<Rightarrow> controller_data \<Rightarrow> 's world \<Rightarrow> bool" where
  "size_from_identify E c w sz c' w' \<longleftrightarrow>
     (\<exists>cap w0 m w1 c2 w2.
        nvme_reg_read64 E (bar0_virt c) NVME_REG_CAP w = (Some cap, w0)
      \<and> nvme_alloc_dma_mem E c 4096 mem_zero w0 = (True, m, c, w1)
      \<and> admin_done E c (admin_cmd 6 (admin_cmd_id c) (ucast (c_nsid c)) (dma_addr m) 0 0) (dma_mem_clear m w1) c2 w2
      \<and> sz = push_bit (lba_shift c') (load64 (ram w2) (user_virtaddr m))
      \<and> lba_shift c' = unat (load8 (ram w2)
           (user_virtaddr m + (128 + 4 * ucast (load8 (ram w2) (user_virtaddr m + 26) AND 0x0f)) + 2))
      \<and> lba_shift c' < 64 \<and> c' = c2\<lparr>lba_shift := lba_shift c', ns_size := sz\<rparr> \<and> w' = snd (free_dma E m w2))"

context dma_service
begin

lemma get_file_size_outcome:
  assumes run: "nvme_get_file_size E (Some c) w = (sz, cp, w')"
  obtains c' where "cp = Some c'" "fd_balance w' = fd_balance w" "map_balance w' = map_balance w"
    "ctrl_fds c' = ctrl_fds c" "ctrl_maps c' = ctrl_maps c" "sz \<noteq> 0 \<longrightarrow> size_from_identify E c w sz c' w'"
    "sized_frame c c'" "sz \<noteq> 0 \<longrightarrow> ns_size c' = sz"
proof (cases "bar0_virt c = NULL \<or> admin_sq_virt_addr c = NULL \<or> admin_cq_virt_addr c = NULL \<or> \<not> dma_fd_opened c")
  case True
  then have "sz = 0" "cp = Some c" "quiet w w'" using run by (auto simp: nvme_get_file_size_def split: if_splits)
  then show thesis using that [of c] by (simp add: quiet_def sized_frame_refl)
next
  case False
  then have op: "dma_fd_opened c" by simp
  obtain v w1 where 1: "nvme_reg_read64 E (bar0_virt c) NVME_REG_CAP w = (v, w1)" by (rule prod.exhaust)
  have q1: "quiet w w1" by (rule quiet_read64 [OF 1])
  obtain ok2 m c2 w2 where 2: "nvme_alloc_dma_mem E c 4096 mem_zero w1 = (ok2, m, c2, w2)" by (rule prod_cases4)
  note a2 = alloc_opened_balance [OF 2 page_length_4096 mem_zero_not_valid op]
  let ?c = "c\<lparr>admin_cmd_id := admin_cmd_id c + 1\<rparr>"
  obtain ok3 c3 w3 where 3: "submit_identify_namespace E ?c (dma_addr m) (admin_cmd_id c) (dma_mem_clear m w2) = (ok3, c3, w3)"
    by (rule prod_cases3)
  note k3 = submit_keeps(2) [OF 3]
  obtain ok4 c4 w4 where 4: "wait_admin_completion E c3 (admin_cmd_id c) 60000 w3 = (ok4, c4, w4)" by (rule prod_cases3)
  have k4: "admin_frame c3 c4" "quiet w3 w4" using wait_admin_loop_keeps [OF 4 [unfolded wait_admin_completion_def]] by simp_all
  obtain m3 f3 where f3: "free_dma E m w3 = (m3, f3)" by (rule prod.exhaust)
  obtain m4 f4 where f4: "free_dma E m w4 = (m4, f4)" by (rule prod.exhaust)
  obtain sz5 c5 w5 where 5: "file_size_result E c4 m w4 = (sz5, c5, w5)" by (rule prod_cases3)
  note r5 = file_size_result_outcome [OF 5]
  have "quiet w2 w3" using quiet_trans [OF quiet_dma_mem_clear] k3 by blast
  then have q3: "fd_balance w3 = fd_balance w" "map_balance w3 y = map_balance w y + mem_maps m y" for y
    using a2(2,3) q1 by (auto simp: quiet_def)
  then have q4: "fd_balance w4 = fd_balance w" "map_balance w4 y = map_balance w y + mem_maps m y" for y
    using k4(2) by (simp_all add: quiet_def)
  have fr: "admin_frame c c3" "admin_frame c c4"
    using admin_frame_trans [OF admin_frame_cmd_id conjunct1 [OF k3]] k4(1) admin_frame_trans by blast+
  consider "sz = 0" "cp = Some c" "quiet w w'" | "sz = 0" "cp = Some c" "w' = w2" "\<not> ok2"
    | "sz = 0" "cp = Some c3" "w' = f3" | "sz = 0" "cp = Some c4" "w' = f4"
    | cap where "v = Some cap" "ok2" "ok3" "ok4" "sz = sz5" "cp = Some c5" "w' = w5"
    using run 1 2 3 4 5 f3 f4 False q1 a2(1)
    by (auto simp: nvme_get_file_size_def Let_def split: if_splits option.splits)
  then show thesis
  proof cases
    case k: 1
    then show ?thesis using that [of c] by (simp add: quiet_def sized_frame_refl)
  next
    case k: 2
    then show ?thesis using that [of c] a2 q1 by (simp add: quiet_def fun_eq_iff sized_frame_refl)
  next
    case k: 3
    then show ?thesis
      using that [of c3] free_dma_balance(1,2) [OF f3] q3 admin_frame_fields [OF fr(1)] sized_frame_admin [OF fr(1)] by (simp add: fun_eq_iff)
  next
    case k: 4
    then show ?thesis
      using that [of c4] free_dma_balance(1,2) [OF f4] q4 admin_frame_fields [OF fr(2)] sized_frame_admin [OF fr(2)] by (simp add: fun_eq_iff)
  next
    case k: (5 cap)
    have "admin_done E c (admin_cmd 6 (admin_cmd_id c) (ucast (c_nsid c)) (dma_addr m) 0 0) (dma_mem_clear m w2) c4 w4"
      using submit_identify_done [of E c "dma_addr m" "dma_mem_clear m w2" c3 w3 c4 w4] 3 4 k(3,4) by simp
    then have "sz \<noteq> 0 \<longrightarrow> size_from_identify E c w sz c5 w'"
      using 1 2 k r5(5,6) a2(1) unfolding size_from_identify_def
      by (intro impI exI [of _ cap] exI [of _ w1] exI [of _ m] exI [of _ w2] exI [of _ c4] exI [of _ w4])
        (auto simp: identify_nsze_def identify_lba_shift_def Let_def load_le64_eq_load64)
    then show ?thesis
      using that [of c5] k r5(1-4) q4 admin_frame_fields [OF fr(2)] file_size_result_sized [OF 5]
        sized_frame_trans [OF sized_frame_admin [OF fr(2)]] by (simp add: fun_eq_iff)
  qed
qed

end

section \<open>Properties\<close>

text \<open>
  C12: \<^verbatim>\<open>submit_admin_command\<close> writes exactly one submission queue entry, at the tail, with the opcode,
  command identifier, namespace, PRP1, \<^verbatim>\<open>cdw10\<close> and \<^verbatim>\<open>cdw11\<close> it was given and every other field zero; no
  other byte of memory changes, and only after a barrier is the advanced tail written to the doorbell.
\<close>

theorem submit_admin_command_correct:
  assumes "bar0_virt c \<noteq> NULL" and "admin_sq_tail_db c AND 3 = 0"
  shows "\<exists>r. submit_admin_command E c opcode nsid prp1 cdw10 cdw11 cmd_id w =
      (True, admin_sq_advance c,
       mmio_write32 E (bar0_virt c + ucast (admin_sq_tail_db c)) (ucast (admin_sq_tail (admin_sq_advance c)))
         (emit Ev_Barrier (w\<lparr>ram := r\<rparr>)))
    \<and> load_command r (admin_sq_virt_addr c + ucast (admin_sq_tail c) * 64) =
        \<lparr>cmd_opcode = opcode, cmd_flags = 0, command_id = cmd_id, cmd_nsid = nsid, cmd_reserved2 = 0,
         cmd_metadata = 0, cmd_prp1 = prp1, cmd_prp2 = 0, cmd_slba = ucast cdw10 OR push_bit 32 (ucast cdw11),
         cmd_length = 0, cmd_dsmgmt = 0, cmd_reftag = 0, cmd_apptag = 0, cmd_appmask = 0\<rparr>
    \<and> (\<forall>x. 64 \<le> unat (x - (admin_sq_virt_addr c + ucast (admin_sq_tail c) * 64)) \<longrightarrow> r x = ram w x)"
  by (rule submit_admin_writes [OF assms])

text \<open>
  C13: If the controller posts the completion of the command in flight before the timeout, counted in
  polls of one millisecond, then \<^verbatim>\<open>wait_admin_completion\<close> finds it and returns true exactly for the status
  \<^emph>\<open>success\<close>. It consumes that one entry: head and phase are those of the next position, and the head
  doorbell is the only register written.
\<close>

theorem wait_admin_completion_takes_entry:
  assumes "cq_device E (admin_cq_virt_addr c) D k0 [e]" and "admin_synced c D k0"
    and "bar0_virt c \<noteq> NULL" and "admin_cq_head_db c AND 3 = 0" and "cqe_cid e = cmd_id"
    and "cq_ring (admin_cq_virt_addr c) D k0 [e] p (ram w)"
    and "i < unat timeout_ms"
    and "cq_ring (admin_cq_virt_addr c) D k0 [e] 1 (ram ((hw_run E ^^ (2 * i + 1)) w))"
  shows "\<exists>c' w'. wait_admin_completion E c cmd_id timeout_ms w
      = (psf_sct (cqe_psf e) = 0 \<and> psf_sc (cqe_psf e) = 0, c', w')
    \<and> admin_synced c' D (Suc k0) \<and> admin_frame c c'
    \<and> trace w' = trace w @ [Ev_Mmio_Write (bar0_virt c + ucast (admin_cq_head_db c)) (ucast (admin_cq_head c'))]"
proof -
  have "unat (0 :: u32) + i < unat timeout_ms" using assms(7) by simp
  from wait_admin_polls [OF assms(1-6) this assms(8)] admin_synced_advance [OF assms(2)] admin_frame_advance(2) [of c]
  show ?thesis unfolding wait_admin_completion_def by blast
qed

text \<open>
  C14: \<^verbatim>\<open>create_io_queue_pair\<close> accounts for the buffers it allocates: what it mapped is exactly what the
  queue structure then names. After success the pair is usable: for the value of \<^verbatim>\<open>CAP\<close> that the run has read,
  the rings fit in their buffers and in the controller's limit, there is one PRP page per entry, both
  rings are empty and the doorbells are those of the queue identifier; the buffers were cleared, and then
  the controller has executed the commands Create I/O Completion Queue and Create I/O Submission Queue
  with the bus addresses, sizes and identifier that the structure names. After failure it either holds no buffer or, when an admin
  command failed, all three of them.
\<close>

theorem create_io_queue_pair_accounts:
  assumes "dma_service E" and "pair_buffers n = [False, False, False]"
    and "create_io_queue_pair E c (Some n) w = (ok, c', np, w')"
  shows "\<exists>n'. np = Some n' \<and> admin_frame c c' \<and> fd_balance w' = fd_balance w
    \<and> (\<forall>y. map_balance w' y - data_maps n' y = map_balance w y - data_maps n y)
    \<and> (ok \<longrightarrow> pair_created E c n w c' n' w')
    \<and> (\<not> ok \<longrightarrow> pair_buffers n' = [False, False, False] \<or> pair_buffers n' = [True, True, True])
    \<and> io_qid n' = io_qid n \<and> cmd_io_u n' = cmd_io_u n \<and> ctrl n' = ctrl n"
  by (rule dma_service.create_pair_outcome [OF assms(1,3,2)]) blast

lemma delete_pair_accounts:
  assumes "delete_io_queue_pair E c (Some n) w = (ok, c', np, w')"
  shows "admin_frame c c' \<and> fd_balance w' = fd_balance w \<and> (\<exists>n'. np = Some n' \<and> ctrl n' = ctrl n
    \<and> (ok \<and> \<not> no_pair n \<longrightarrow> data_maps n' = (\<lambda>_. 0) \<and> io_sq_virt_addr n' = NULL \<and> io_cq_virt_addr n' = NULL
         \<and> (\<forall>y. map_balance w' y = map_balance w y - data_maps n y)
         \<and> (\<exists>cap w0 w1. nvme_reg_read64 E (bar0_virt c) NVME_REG_CAP w = (Some cap, w0) \<and> pair_deleted E n c w0 c' w1))
    \<and> (\<not> ok \<or> no_pair n \<longrightarrow> n' = n \<and> map_balance w' = map_balance w))"
proof (cases rule: delete_pair_outcome [OF assms(1)])
  case 1
  then show ?thesis by (auto simp: quiet_def)
next
  case (2 n' cap w0 w1)
  have b: "fd_balance w1 = fd_balance w" "map_balance w1 = map_balance w" using 2(4) by (simp_all add: quiet_def)
  show ?thesis
    using 2(1-3,6-8) delete_release_outcome(1,3,6,7,8) [OF 2(5)] delete_release_outcome(2) [OF 2(5)]
    unfolding b by blast
qed

text \<open>
  C15: \<^verbatim>\<open>delete_io_queue_pair\<close> returns true in two cases. If the structure has a queue address or a data
  buffer address, the controller has executed Delete I/O Submission Queue and Delete I/O Completion Queue
  for the queues that are there, in this order, and all buffers are given back. If all these addresses are
  null, nothing is freed and the structure is kept, even if it holds buffers, as it does after a
  \<^verbatim>\<open>create_io_queue_pair\<close> whose admin command failed. When it returns false, the structure and every buffer
  are untouched, so that the caller can still free them.
\<close>

theorem delete_io_queue_pair_accounts:
  assumes "delete_io_queue_pair E c (Some n) w = (ok, c', np, w')"
  shows "admin_frame c c' \<and> fd_balance w' = fd_balance w \<and> (\<exists>n'. np = Some n' \<and> ctrl n' = ctrl n
    \<and> (ok \<and> \<not> no_pair n \<longrightarrow> data_maps n' = (\<lambda>_. 0) \<and> io_sq_virt_addr n' = NULL \<and> io_cq_virt_addr n' = NULL
         \<and> (\<forall>y. map_balance w' y = map_balance w y - data_maps n y)
         \<and> (\<exists>cap w0 w1. nvme_reg_read64 E (bar0_virt c) NVME_REG_CAP w = (Some cap, w0) \<and> pair_deleted E n c w0 c' w1))
    \<and> (\<not> ok \<or> no_pair n \<longrightarrow> n' = n \<and> map_balance w' = map_balance w))"
  by (rule delete_pair_accounts [OF assms])

text \<open>
  C16: \<^verbatim>\<open>nvme_get_file_size\<close> never leaks its Identify buffer, on any path. A non-zero result comes from an
  Identify command that the controller executed in this run into the buffer of this run: it is the
  number of blocks that the buffer held when the command completed, shifted by the block size of the
  active format, below 64 bits of shift, and it is recorded in the controller structure.
\<close>

theorem nvme_get_file_size_outcome:
  assumes "dma_service E" and "nvme_get_file_size E (Some c) w = (sz, cp, w')"
  shows "\<exists>c'. cp = Some c' \<and> fd_balance w' = fd_balance w \<and> map_balance w' = map_balance w
    \<and> ctrl_fds c' = ctrl_fds c \<and> ctrl_maps c' = ctrl_maps c \<and> (sz \<noteq> 0 \<longrightarrow> size_from_identify E c w sz c' w')"
  by (rule dma_service.get_file_size_outcome [OF assms]) blast

section \<open>A controller that answers\<close>

text \<open>
  A controller behind the kernel of \<open>boot_env\<close> that completes every admin command when its doorbell
  rings, with the queue index as command identifier, and stores the Identify data of a 4096-block
  namespace with 512-byte blocks at the address \<open>data\<close>.
\<close>

definition admin_env :: "u64 \<Rightarrow> (u64 \<times> u64) env" where
  "admin_env data = boot_env\<lparr>mmio_wr := (\<lambda>a v (m, s).
     if a = 0x11000
     then (store16 (store16 (store8 (store64 m data 0x1000) (data + 130) 9)
             (0x30000 + ucast (v - 1) * 16 + 12) (ucast (v - 1))) (0x30000 + ucast (v - 1) * 16 + 14) 1, s)
     else (m, s))\<rparr>"

definition admin_ctrl :: controller_data where
  "admin_ctrl = boot_ctrl\<lparr>bar0_virt := 0x10000, admin_sq_virt_addr := 0x20000, admin_cq_virt_addr := 0x30000,
     admin_sq_depth := 32, admin_cq_depth := 32, admin_cq_phase := 1, admin_sq_tail_db := 0x1000,
     admin_cq_head_db := 0x1004, dma_fd := 3, dma_fd_opened := True\<rparr>"

definition admin_world :: "(u64 \<times> u64) world" where
  "admin_world = boot_world\<lparr>sys := (0, 0x100000)\<rparr>"

interpretation answering: dma_service "admin_env data" for data
  using boot.mmap_not_null boot.meminfo_after_mmap by unfold_locales (auto simp: admin_env_def)

lemma answering_doorbell:
  assumes "t = 0 \<or> t = 1" and "w' = mmio_write32 (admin_env data) 0x11000 (t + 1) w"
  shows "load16 (ram w') (0x30000 + ucast t * 16 + 14) = 1" "load16 (ram w') (0x30000 + ucast t * 16 + 12) = ucast t"
    "sys w' = sys w"
  using assms by (auto simp: mmio_write32_def admin_env_def emit_def ram_simps)

definition admin_ctrl_at :: "u16 \<Rightarrow> controller_data" where
  "admin_ctrl_at t = admin_ctrl\<lparr>admin_sq_tail := t, admin_cq_head := t, admin_cmd_id := t\<rparr>"

lemma admin_ctrl_at_fields:
  "bar0_virt (admin_ctrl_at t) = 0x10000" "admin_sq_tail_db (admin_ctrl_at t) = 0x1000"
  "admin_cq_head_db (admin_ctrl_at t) = 0x1004" "admin_cq_virt_addr (admin_ctrl_at t) = 0x30000"
  "admin_sq_virt_addr (admin_ctrl_at t) = 0x20000" "dma_fd_opened (admin_ctrl_at t)" "dma_fd (admin_ctrl_at t) = 3"
  "admin_cq_phase (admin_ctrl_at t) = 1" "admin_cmd_id (admin_ctrl_at t) = t" "admin_cq_head (admin_ctrl_at t) = t"
  "admin_sq_tail (admin_ctrl_at t) = t" "admin_sq_depth (admin_ctrl_at t) = 32"
  by (simp_all add: admin_ctrl_at_def admin_ctrl_def)

lemma hw_run_answering: "hw_run (admin_env data) w = w"
  by (simp add: hw_run_def admin_env_def boot_env_def)

lemma answering_wait:
  fixes t :: u16
  assumes "load16 (ram w) (0x30000 + ucast t * 16 + 14) = 1" "load16 (ram w) (0x30000 + ucast t * 16 + 12) = t"
    and "c = (admin_ctrl_at t)\<lparr>admin_cmd_id := i, admin_sq_tail := j\<rparr>"
  shows "wait_admin_completion (admin_env data) c t 60000 w =
     (True, admin_cq_advance c, mmio_write32 (admin_env data) 0x11004 (ucast (admin_cq_head (admin_cq_advance c))) w)"
  unfolding wait_admin_completion_def wait_admin_loop.simps [of _ _ 0] assms(3)
  using assms(1,2)
  by (simp add: admin_ctrl_at_fields vload16_eq hw_run_answering psf_p_def psf_sc_def psf_sct_def
      controller_reg_write32_ok admin_advance_simps)

lemma answering_command:
  assumes "t = 0 \<or> t = 1"
  obtains w' where "admin_command (admin_env data) (admin_ctrl_at t) opcode prp1 cdw10 cdw11 w = (True, admin_ctrl_at (t + 1), w')"
    "sys w' = sys w"
proof -
  let ?E = "admin_env data" and ?c = "(admin_ctrl_at t)\<lparr>admin_cmd_id := t + 1\<rparr>"
  have c: "bar0_virt ?c \<noteq> NULL" "admin_sq_tail_db ?c AND 3 = 0" by (simp_all add: admin_ctrl_at_fields)
  obtain r where sub: "submit_admin_command ?E ?c opcode 0 prp1 cdw10 cdw11 t w =
      (True, admin_sq_advance ?c,
       mmio_write32 ?E (bar0_virt ?c + ucast (admin_sq_tail_db ?c)) (ucast (admin_sq_tail (admin_sq_advance ?c)))
         (emit Ev_Barrier (w\<lparr>ram := r\<rparr>)))"
    by (simp add: submit_admin_command_def Let_def admin_ring_doorbell_def controller_reg_write32_ok admin_advance_simps
        admin_ctrl_at_fields)
  let ?w = "mmio_write32 ?E 0x11000 (ucast t + 1) (emit Ev_Barrier (w\<lparr>ram := r\<rparr>))"
  have adv: "admin_sq_advance ?c = (admin_ctrl_at t)\<lparr>admin_cmd_id := t + 1, admin_sq_tail := t + 1\<rparr>"
    "admin_cq_advance ((admin_ctrl_at t)\<lparr>admin_cmd_id := t + 1, admin_sq_tail := t + 1\<rparr>) = admin_ctrl_at (t + 1)"
    using assms by (auto simp: admin_advance_simps admin_ctrl_at_def admin_ctrl_def)
  have "load16 (ram ?w) (0x30000 + ucast t * 16 + 14) = 1" "load16 (ram ?w) (0x30000 + ucast t * 16 + 12) = t" "sys ?w = sys w"
    using answering_doorbell [of "ucast t" ?w data "emit Ev_Barrier (w\<lparr>ram := r\<rparr>)"] assms
    by (auto simp: emit_def)
  then show thesis
    using sub answering_wait [of ?w t _ "t + 1" "t + 1" data] assms
    by (intro that [of "mmio_write32 ?E 0x11004 (ucast t + 1) ?w"])
      (auto simp: admin_command_def Let_def adv admin_ctrl_at_fields mmio_write32_def emit_def admin_env_def)
qed

lemma answering_calls:
  "c_mmap (admin_env data) = c_mmap boot_env" "c_ioctl_get_meminfo (admin_env data) = c_ioctl_get_meminfo boot_env"
  "c_munmap (admin_env data) = c_munmap boot_env"
  by (simp_all add: fun_eq_iff admin_env_def c_mmap_def c_ioctl_get_meminfo_def c_munmap_def)

lemma answering_alloc: "alloc_dma (admin_env data) fd len w = alloc_dma boot_env fd len w"
  unfolding alloc_dma_def answering_calls ..

lemma answering_cap: "nvme_reg_read64 (admin_env data) 0x10000 NVME_REG_CAP w = (Some 0x010003ff, w)"
  by (simp add: nvme_reg_read64_def controller_reg_read32_def mmio_read32_def hw_act_def admin_env_def boot_env_def)

definition admin_pair :: nvme_data where
  "admin_pair = nvme_data_init\<lparr>ctrl := Some 0, io_sq_depth := 4, io_cq_depth := 4, io_qid := 2\<rparr>"

lemma answering_create_ok:
  "fst (create_io_queue_pair (admin_env 0) admin_ctrl (Some admin_pair) admin_world)"
proof -
  let ?E = "admin_env 0" and ?c = "admin_ctrl_at 0"
  obtain n w1 where a: "create_alloc ?E 4 4 ?c admin_pair admin_world = (True, ?c, n, w1)"
    by (simp add: create_alloc_def admin_pair_def nvme_data_init_def nvme_alloc_dma_mem_def nvme_dma_open_controller_def
        admin_ctrl_at_fields round_up_page_def answering_alloc boot_alloc MAP_FAILED_def mem_zero_def
        admin_world_def boot_world_def)
  let ?q = "2 :: u16" and ?cap = "0x010003ff :: u64"
  obtain w2 where 1: "admin_command ?E ?c NVME_ADMIN_CREATE_IO_CQ_OPCODE (dma_addr (io_cq_mem n))
      (ucast ?q OR push_bit 16 (4 - 1)) NVME_QUEUE_PHYS_CONTIGUOUS w1 = (True, admin_ctrl_at (0 + 1), w2)"
    by (rule answering_command) auto
  obtain w3 where 2: "admin_command ?E (admin_ctrl_at 1) NVME_ADMIN_CREATE_IO_SQ_OPCODE (dma_addr (io_sq_mem n))
      (ucast ?q OR push_bit 16 (4 - 1)) (push_bit 16 (ucast ?q) OR NVME_QUEUE_PHYS_CONTIGUOUS) w2
      = (True, admin_ctrl_at (1 + 1), w3)"
    by (rule answering_command [of 1]) auto
  have c: "create_commands ?E ?cap ?q 4 4 ?c n w1 = (True, admin_ctrl_at 2, create_fields ?cap ?q 4 4 n, w3)"
    unfolding create_commands_def 1 using 2 by simp
  have e: "admin_ctrl = ?c" by (simp add: admin_ctrl_at_def admin_ctrl_def boot_ctrl_def controller_zero_def)
  have "io_sq_depth admin_pair = 4" "io_cq_depth admin_pair = 4" "nvme_io_qid admin_pair = 2"
    by (simp_all add: admin_pair_def nvme_io_qid_def)
  then show ?thesis
    unfolding e using a c by (simp add: create_io_queue_pair_def answering_cap admin_ctrl_at_fields ready_timeout_ms_def
        cap_mqes_entries_def)
qed

theorem submit_admin_command_correct_witness:
  "\<exists>r. trace (snd (snd (submit_admin_command (admin_env 0) admin_ctrl 5 0 0x7000 0x30002 1 0 admin_world)))
       = [Ev_Barrier, Ev_Mmio_Write 0x11000 1]
     \<and> cmd_opcode (load_command r 0x20000) = 5 \<and> cmd_slba (load_command r 0x20000) = 0x100030002"
proof -
  have c: "bar0_virt admin_ctrl \<noteq> NULL" "admin_sq_tail_db admin_ctrl AND 3 = 0" by (simp_all add: admin_ctrl_def)
  show ?thesis
    using submit_admin_command_correct [OF c, where E = "admin_env 0" and opcode = 5 and nsid = 0 and ?prp1.0 = "0x7000"
        and ?cdw10.0 = "0x30002" and ?cdw11.0 = 1 and cmd_id = 0 and w = admin_world]
    by (elim exE) (rule_tac x = r in exI, simp add: admin_advance_simps admin_ctrl_def boot_ctrl_def controller_zero_def admin_world_def boot_world_def)
qed

theorem create_io_queue_pair_accounts_witness:
  "\<exists>c' n' w'. create_io_queue_pair (admin_env 0) admin_ctrl (Some admin_pair) admin_world = (True, c', Some n', w')
     \<and> pair_created (admin_env 0) admin_ctrl admin_pair admin_world c' n' w' \<and> map_balance w' (0x110000, 0x1000) = data_maps n' (0x110000, 0x1000)"
proof -
  let ?y = "(0x110000, 0x1000) :: u64 \<times> u64"
  obtain ok c' np w' where run: "create_io_queue_pair (admin_env 0) admin_ctrl (Some admin_pair) admin_world = (ok, c', np, w')"
    by (rule prod_cases4)
  have ok: ok using answering_create_ok run by simp
  have b: "pair_buffers admin_pair = [False, False, False]" "data_maps admin_pair ?y = 0" "map_balance admin_world ?y = 0"
    by (simp_all add: pair_buffers_def data_maps_def admin_pair_def nvme_data_init_def map_balance_def admin_world_def
        boot_world_def)
  from create_io_queue_pair_accounts [OF answering.dma_service_axioms b(1) run] obtain n' where
    "np = Some n'" "map_balance w' ?y - data_maps n' ?y = map_balance admin_world ?y - data_maps admin_pair ?y"
    "pair_created (admin_env 0) admin_ctrl admin_pair admin_world c' n' w'"
    using ok by blast
  with run ok b show ?thesis by auto
qed

theorem wait_admin_completion_takes_entry_witness:
  "\<exists>c' w'. wait_admin_completion idle_env (admin_ctrl\<lparr>admin_cq_depth := 2\<rparr>) 7 60000
       (idle_world\<lparr>ram := (\<lambda>_. 0)(0x3000c := 7, 0x3000e := 1)\<rparr>) = (True, c', w') \<and> admin_synced c' 2 1"
proof -
  let ?r = "(\<lambda>_. 0)(0x3000c := 7, 0x3000e := 1) :: ram" and ?c = "admin_ctrl\<lparr>admin_cq_depth := 2\<rparr>"
  let ?w = "idle_world\<lparr>ram := ?r\<rparr>" and ?e = "load_cqe ?r 0x30000"
  have e: "cqe_cid ?e = 7" "cqe_psf ?e = 1"
    by (simp_all add: load_cqe_def load16_def load_bytes_def upt_rec)
  have "psf_p (load16 ?r (cqe_addr 0x30000 2 i + 14)) \<noteq> ucast (phase_tag_at 2 i)" if "i < 2" "1 \<le> i" for i
  proof -
    from that have "i = 1" by simp
    then show ?thesis by (simp add: psf_p_def phase_at_def cqe_addr_def load16_def load_bytes_def upt_rec)
  qed
  then have ring: "cq_ring 0x30000 2 0 [?e] 1 ?r"
    using e by (simp add: cq_ring_def psf_p_def phase_at_def cqe_addr_def)
  have h: "hw_run idle_env w = w" for w by (simp add: hw_run_def idle_env_def)
  have "admin_synced ?c 2 0"
    by (simp add: admin_synced_def admin_ctrl_def phase_at_def boot_ctrl_def controller_zero_def)
  with ring e wait_admin_completion_takes_entry [of idle_env ?c 2 0 ?e 7 1 ?w 0 60000]
  show ?thesis
    by (auto simp: idle_cq_device admin_ctrl_def h psf_sct_def psf_sc_def)
qed

definition admin_used_pair :: nvme_data where
  "admin_used_pair = admin_pair\<lparr>io_sq_virt_addr := 0x110000,
     io_sq_mem := mem_zero\<lparr>mem_fd := 3, user_virtaddr := 0x110000, mem_size := 0x1000\<rparr>\<rparr>"

theorem delete_io_queue_pair_accounts_witness:
  "\<exists>c' n' w'. delete_io_queue_pair (admin_env 0) admin_ctrl (Some admin_used_pair)
       (admin_world\<lparr>trace := [Ev_Mmap 3 0x110000 0x1000]\<rparr>) = (True, c', Some n', w')
     \<and> map_balance w' (0x110000, 0x1000) = 0"
proof -
  let ?n = admin_used_pair and ?w = "admin_world\<lparr>trace := [Ev_Mmap 3 0x110000 0x1000]\<rparr>" and ?E = "admin_env 0"
  have e: "admin_ctrl = admin_ctrl_at 0" by (simp add: admin_ctrl_at_def admin_ctrl_def boot_ctrl_def controller_zero_def)
  have n: "io_sq_virt_addr ?n = 0x110000" "io_cq_virt_addr ?n = NULL" "nvme_io_qid ?n = 2"
    by (simp_all add: admin_used_pair_def admin_pair_def nvme_data_init_def nvme_io_qid_def)
  obtain w1 where 1: "admin_command ?E admin_ctrl NVME_ADMIN_DELETE_IO_SQ_OPCODE 0 (ucast (2 :: u16)) 0 ?w = (True, admin_ctrl_at (0 + 1), w1)"
    unfolding e by (rule answering_command) auto
  obtain n' w' where 2: "delete_release ?E ?n w1 = (n', w')" by (rule prod.exhaust)
  have run: "delete_io_queue_pair ?E admin_ctrl (Some ?n) ?w = (True, admin_ctrl_at 1, Some n', w')"
    using 1 2 n by (simp add: delete_io_queue_pair_def e admin_ctrl_at_fields answering_cap ready_timeout_ms_def
        delete_commands_def)
  have "mem_valid (io_sq_mem ?n)" by (simp add: admin_used_pair_def mem_valid_def)
  then have "data_maps ?n (0x110000, 0x1000) = 1"
    by (simp add: data_maps_def mem_maps_def admin_used_pair_def admin_pair_def nvme_data_init_def)
  then show ?thesis
    using run delete_io_queue_pair_accounts [OF run] n(1) by (simp add: map_balance_def [of ?w] no_pair_def)
qed

theorem nvme_get_file_size_outcome_witness:
  "\<exists>c' w'. nvme_get_file_size (admin_env 0x110000) (Some admin_ctrl) admin_world = (0x200000, Some c', w')
     \<and> size_from_identify (admin_env 0x110000) admin_ctrl admin_world 0x200000 c' w' \<and> map_balance w' (0x110000, 0x1000) = 0"
proof -
  let ?E = "admin_env 0x110000"
  have e: "admin_ctrl = admin_ctrl_at 0" by (simp add: admin_ctrl_at_def admin_ctrl_def boot_ctrl_def controller_zero_def)
  obtain sz cp w' where run: "nvme_get_file_size ?E (Some admin_ctrl) admin_world = (sz, cp, w')" by (rule prod_cases3)
  let ?m = "\<lparr>mem_fd = 3, kernel_virtaddr = 0, user_virtaddr = 0x110000, dma_addr = 0x70101000, mem_size = 0x1000\<rparr>"
  let ?c = "(admin_ctrl_at 0)\<lparr>admin_cmd_id := 1\<rparr>"
  obtain w1 where 1: "nvme_alloc_dma_mem ?E (admin_ctrl_at 0) 4096 mem_zero admin_world = (True, ?m, admin_ctrl_at 0, w1)"
    by (simp add: nvme_alloc_dma_mem_def nvme_dma_open_controller_def admin_ctrl_at_fields answering_alloc boot_alloc
        MAP_FAILED_def mem_zero_def admin_world_def boot_world_def)
  define cmds where "cmds = [(0, NVME_ADMIN_IDENTIFY_OPCODE OR push_bit 16 (ucast (0 :: u16))), (1 :: nat, ucast (c_nsid ?c)),
     (6, ucast (dma_addr ?m)), (7, ucast (drop_bit 32 (dma_addr ?m))), (10, 0 :: u32)]"
  define r where "r = store_dwords (memset0 (ram (dma_mem_clear ?m w1)) 0x20000 64) 0x20000 cmds"
  have "r 0x11001a = ram (dma_mem_clear ?m w1) 0x11001a"
    unfolding r_def cmds_def by (subst store_dwords_frame) (auto simp: store_frame)
  then have r: "load8 r 0x11001a = 0" by (simp add: load8_def dma_mem_clear_def memset0_def)
  define w2 where "w2 = mmio_write32 ?E 0x11000 1 (emit Ev_Barrier ((dma_mem_clear ?m w1)\<lparr>ram := r\<rparr>))"
  have 2: "submit_identify_namespace ?E ?c (dma_addr ?m) 0 (dma_mem_clear ?m w1) = (True, ?c\<lparr>admin_sq_tail := 1\<rparr>, w2)"
    by (simp add: submit_identify_namespace_def Let_def admin_ring_doorbell_def controller_reg_write32_ok
        admin_advance_simps admin_ctrl_at_fields w2_def r_def cmds_def)
  have ram: "load_le64 (ram w2) 0x110000 = 0x1000" "load8 (ram w2) 0x110082 = 9" "load8 (ram w2) 0x11001a = 0"
    using r by (simp_all add: w2_def mmio_write32_def admin_env_def emit_def load_le64_eq_load64 ram_simps)
  obtain c3 v where 3: "wait_admin_completion ?E (?c\<lparr>admin_sq_tail := 1\<rparr>) 0 60000 w2 = (True, c3, mmio_write32 ?E 0x11004 v w2)"
    using answering_doorbell [of 0 w2 "0x110000"] answering_wait [of w2 0 _ 1 1 "0x110000"] by (simp add: w2_def)
  have "ram (mmio_write32 ?E 0x11004 v w2) = ram w2" by (simp add: mmio_write32_def admin_env_def emit_def)
  then have 4: "fst (file_size_result ?E c3 ?m (mmio_write32 ?E 0x11004 v w2)) = 0x200000"
    using ram by (simp add: file_size_result_def identify_nsze_def identify_lba_shift_def)
  have "sz = 0x200000"
    using run 1 2 3 4 by (auto simp: nvme_get_file_size_def e admin_ctrl_at_fields answering_cap ready_timeout_ms_def
        split: prod.splits)
  have "map_balance admin_world y = 0" for y by (simp add: map_balance_def admin_world_def boot_world_def)
  then show ?thesis
    using run nvme_get_file_size_outcome [OF answering.dma_service_axioms run] \<open>sz = 0x200000\<close> by auto
qed

end
