(* ===== verification/Nvme_Parse.thy ===== *)
theory Nvme_Parse
  imports Nvme_Defs C_Format
begin

text \<open>
  Parsing of the target name (\<^verbatim>\<open>tools/nvme.c\<close>): \<^verbatim>\<open>bus:dev.func,nsid\<close> with three hexadecimal fields and a
  decimal one. A C string is the list of its characters before the terminating zero. \<^verbatim>\<open>strtoul\<close> is
  modelled as the C standard describes it: leading white space, an optional sign, for base 16 an
  optional \<^verbatim>\<open>0x\<close>, then the longest run of digits; a value out of range sets \<^verbatim>\<open>ERANGE\<close>, a string without
  digits is left where it is, and a minus sign negates in \<^verbatim>\<open>unsigned long\<close>.
\<close>

abbreviation (input) ERANGE :: int where "ERANGE \<equiv> 34"

section \<open>The standard library function\<close>

definition is_space :: "char \<Rightarrow> bool" where
  "is_space c \<longleftrightarrow> (let n = of_char c :: nat in n = 32 \<or> 9 \<le> n \<and> n \<le> 13)"

definition is_digit :: "nat \<Rightarrow> char \<Rightarrow> bool" where
  "is_digit b c \<longleftrightarrow> (case digit_val c of None \<Rightarrow> False | Some d \<Rightarrow> d < b)"

fun strip_sign :: "string \<Rightarrow> bool \<times> string" where
  "strip_sign [] = (False, [])"
| "strip_sign (c # s) = (if c = CHR ''-'' then (True, s) else if c = CHR ''+'' then (False, s) else (False, c # s))"

fun strip_0x :: "string \<Rightarrow> string" where
  "strip_0x (z # x # d # s) =
     (if z = CHR ''0'' \<and> (x = CHR ''x'' \<or> x = CHR ''X'') \<and> is_digit 16 d then d # s else z # x # d # s)"
| "strip_0x s = s"

definition digits_val :: "nat \<Rightarrow> string \<Rightarrow> nat" where
  "digits_val b ds = foldl (\<lambda>a c. a * b + the (digit_val c)) 0 ds"

definition strtoul :: "nat \<Rightarrow> string \<Rightarrow> 's world \<Rightarrow> u64 \<times> string \<times> 's world" where
  "strtoul base s w =
     (case strip_sign (dropWhile is_space s) of (neg, t) \<Rightarrow>
      let t = (if base = 16 then strip_0x t else t);
          ds = takeWhile (is_digit base) t
      in if ds = [] then (0, s, w)
      else let v = digits_val base ds; rest = dropWhile (is_digit base) t in
        if v \<ge> 2 ^ 64 then (- 1, rest, w\<lparr>errno := ERANGE\<rparr>)
        else (if neg then - of_nat v else of_nat v, rest, w))"

section \<open>Operations\<close>

text \<open>The delimiter \<open>None\<close> is the terminating zero. The result is the value and the new position.\<close>

definition parse_ulong_field ::
  "string \<Rightarrow> nat \<Rightarrow> u64 \<Rightarrow> char option \<Rightarrow> 's world \<Rightarrow> (u64 \<times> string) option \<times> 's world" where
  "parse_ulong_field p base max_v delimiter w =
     (let w = w\<lparr>errno := 0\<rparr> in
      case strtoul base p w of (parsed, end_p, w) \<Rightarrow>
      if errno w \<noteq> 0 \<or> end_p = p \<or> parsed > max_v then (None, w)
      else case delimiter of
        Some d \<Rightarrow> (case end_p of [] \<Rightarrow> (None, w) | c # q \<Rightarrow> if c \<noteq> d then (None, w) else (Some (parsed, q), w))
      | None \<Rightarrow> if end_p \<noteq> [] then (None, w) else (Some (parsed, end_p), w))"

definition parse_target :: "'s env \<Rightarrow> string option \<Rightarrow> 's world \<Rightarrow> controller_data option \<times> 's world" where
  "parse_target E filename w =
     (case filename of None \<Rightarrow> (None, w) | Some p \<Rightarrow>
      case parse_ulong_field p 16 0xffff (Some CHR '':'') w of (None, w) \<Rightarrow> (None, w) | (Some (bus, p), w) \<Rightarrow>
      case parse_ulong_field p 16 31 (Some CHR ''.'') w of (None, w) \<Rightarrow> (None, w) | (Some (dev, p), w) \<Rightarrow>
      case parse_ulong_field p 16 7 (Some CHR '','') w of (None, w) \<Rightarrow> (None, w) | (Some (func, p), w) \<Rightarrow>
      case parse_ulong_field p 10 0xffff None w of (None, w) \<Rightarrow> (None, w) | (Some (nsid, p), w) \<Rightarrow>
      if nsid = 0 then (None, w)
      else case hw_act (sys_calloc E) w of (ok, w) \<Rightarrow>
        if \<not> ok then (None, w)
        else (Some (controller_zero\<lparr>c_bus := ucast bus, c_dev := ucast dev, c_func := ucast func, c_nsid := ucast nsid\<rparr>), w))"

section \<open>Reading back a printed number\<close>

lemma is_digit_hex_digit: "d < 16 \<Longrightarrow> is_digit b (hex_digit d) \<longleftrightarrow> d < b"
  by (simp add: is_digit_def)

lemma printed_char:
  assumes "c \<in> set (fmt_base b n)" and "2 \<le> b" and "b \<le> 16"
  shows "is_digit b c" and "c \<notin> {CHR ''-'', CHR ''+'', CHR ''x'', CHR ''X''}" and "\<not> is_space c"
proof -
  obtain d where d: "d < b" "c = hex_digit d" using fmt_base_digits [OF assms(2,3)] assms(1) by (auto simp: list_all_iff)
  then have code: "(of_char c :: nat) = (if d < 10 then 48 + d else 87 + d)" and d16: "d < 16"
    using assms(3) of_char_hex_digit [of d] by auto
  show "is_digit b c" using d d16 by (simp add: is_digit_hex_digit)
  show "\<not> is_space c" using code d16 by (simp add: is_space_def Let_def)
  have "(of_char c :: nat) \<noteq> 45" "(of_char c :: nat) \<noteq> 43" "(of_char c :: nat) \<noteq> 120" "(of_char c :: nat) \<noteq> 88"
    using code d16 by auto
  then show "c \<notin> {CHR ''-'', CHR ''+'', CHR ''x'', CHR ''X''}" by auto
qed

lemma digits_val_append: "digits_val b (ds @ [c]) = digits_val b ds * b + the (digit_val c)"
  by (simp add: digits_val_def)

lemma digits_val_fmt_base: "2 \<le> b \<Longrightarrow> b \<le> 16 \<Longrightarrow> digits_val b (fmt_base b n) = n"
proof (induction b n rule: fmt_base.induct)
  case (1 b n)
  show ?case
  proof (cases "n < b")
    case True
    then show ?thesis using "1.prems" by (simp add: fmt_base_small digits_val_def)
  next
    case False
    have "n mod b < 16" using "1.prems" by (meson less_le_trans mod_less_divisor zero_less_numeral)
    with 1 False show ?thesis by (subst fmt_base.simps) (simp add: digits_val_append)
  qed
qed

lemma strip_0x_id: "length s < 2 \<or> s ! 1 \<noteq> CHR ''x'' \<and> s ! 1 \<noteq> CHR ''X'' \<Longrightarrow> strip_0x s = s"
  by (cases s rule: strip_0x.cases) auto

lemma strtoul_printed:
  assumes b: "b = 10 \<or> b = 16" and n: "n < 2 ^ 64"
    and rest: "rest = [] \<or> \<not> is_digit b (hd rest) \<and> hd rest \<notin> {CHR ''x'', CHR ''X''}"
  shows "strtoul b (fmt_base b n @ rest) w = (of_nat n, rest, w)"
proof -
  have b': "2 \<le> b" "b \<le> 16" using b by auto
  note pc = printed_char [OF _ b', of _ n]
  obtain c cs where f: "fmt_base b n = c # cs" using fmt_base_nonempty [of b n] by (cases "fmt_base b n") auto
  have c: "\<not> is_space c" "c \<noteq> CHR ''-''" "c \<noteq> CHR ''+''" using pc(2,3) [of c] f by auto
  have sp: "strip_sign (dropWhile is_space (fmt_base b n @ rest)) = (False, fmt_base b n @ rest)"
    using c by (simp add: f)
  have "length (fmt_base b n @ rest) < 2 \<or> (fmt_base b n @ rest) ! 1 \<notin> {CHR ''x'', CHR ''X''}"
  proof (cases cs)
    case Nil
    then show ?thesis using rest by (cases rest) (auto simp: f)
  next
    case (Cons e es)
    then show ?thesis using pc(2) [of e] by (simp add: f)
  qed
  then have x: "(if b = 16 then strip_0x (fmt_base b n @ rest) else fmt_base b n @ rest) = fmt_base b n @ rest"
    using strip_0x_id [of "fmt_base b n @ rest"] by auto
  have "takeWhile (is_digit b) (fmt_base b n @ rest) = fmt_base b n @ takeWhile (is_digit b) rest"
    "dropWhile (is_digit b) (fmt_base b n @ rest) = dropWhile (is_digit b) rest"
    using pc(1) by (auto intro: takeWhile_append2 dropWhile_append2)
  moreover have "takeWhile (is_digit b) rest = []" "dropWhile (is_digit b) rest = rest"
    using rest by (cases rest; auto)+
  ultimately have "takeWhile (is_digit b) (fmt_base b n @ rest) = fmt_base b n"
    "dropWhile (is_digit b) (fmt_base b n @ rest) = rest" by simp_all
  then show ?thesis
    unfolding strtoul_def sp prod.case Let_def x using n fmt_base_nonempty [of b n] digits_val_fmt_base [OF b', of n]
    by simp
qed

lemma parse_field_printed:
  assumes "b = 10 \<or> b = 16" and "n \<le> unat m"
  shows "\<not> is_digit b d \<Longrightarrow> d \<notin> {CHR ''x'', CHR ''X''} \<Longrightarrow>
      parse_ulong_field (fmt_base b n @ d # rest) b m (Some d) w = (Some (of_nat n, rest), w\<lparr>errno := 0\<rparr>)"
    and "parse_ulong_field (fmt_base b n) b m None w = (Some (of_nat n, []), w\<lparr>errno := 0\<rparr>)"
proof -
  have n: "n < 2 ^ 64" using assms(2) unat_less_2p64 [of m] by simp
  then have le: "\<not> (of_nat n :: u64) > m" using assms(2) by (simp add: word_less_nat_alt unat_of_nat take_bit_nat_eq_self)
  show "\<not> is_digit b d \<Longrightarrow> d \<notin> {CHR ''x'', CHR ''X''} \<Longrightarrow>
      parse_ulong_field (fmt_base b n @ d # rest) b m (Some d) w = (Some (of_nat n, rest), w\<lparr>errno := 0\<rparr>)"
    using strtoul_printed [OF assms(1) n, of "d # rest" "w\<lparr>errno := 0\<rparr>"] le fmt_base_nonempty [of b n]
    by (simp add: parse_ulong_field_def)
  show "parse_ulong_field (fmt_base b n) b m None w = (Some (of_nat n, []), w\<lparr>errno := 0\<rparr>)"
    using strtoul_printed [OF assms(1) n, of "[]" "w\<lparr>errno := 0\<rparr>"] le fmt_base_nonempty [of b n]
    by (simp add: parse_ulong_field_def)
qed

lemma delimiters:
  "\<not> is_digit b CHR '':''" "\<not> is_digit b CHR ''.''" "\<not> is_digit b CHR '',''"
  by (simp_all add: is_digit_def digit_val_def)

definition print_target :: "nat \<Rightarrow> nat \<Rightarrow> nat \<Rightarrow> nat \<Rightarrow> string" where
  "print_target bus dev func nsid =
     fmt_base 16 bus @ CHR '':'' # fmt_base 16 dev @ CHR ''.'' # fmt_base 16 func @ CHR '','' # fmt_base 10 nsid"

lemma parse_field_le: "parse_ulong_field p b m d w = (Some (v, q), w') \<Longrightarrow> v \<le> m"
  by (auto simp: parse_ulong_field_def Let_def not_less split: prod.splits option.splits list.splits if_splits)

lemma unat_ucast_field:
  assumes "v \<le> m" and "unat (m :: u64) \<le> 0xffff"
  shows "unat (ucast v :: u16) = unat v"
proof -
  have "unat v < 65536" using assms by (simp add: word_le_nat_alt)
  then show ?thesis by (simp add: unsigned_ucast_eq take_bit_nat_eq_self)
qed

section \<open>Properties\<close>

text \<open>
  C24: Every target name with a 16-bit bus, a device below 32, a function below 8 and a 16-bit non-zero
  namespace is parsed back to exactly these four numbers, in a structure that is otherwise zero.
\<close>

theorem parse_print_target:
  assumes "bus < 65536" and "dev < 32" and "func < 8" and "0 < nsid" and "nsid < 65536"
    and "hw_act (sys_calloc E) (w\<lparr>errno := 0\<rparr>) = (True, w')"
  shows "parse_target E (Some (print_target bus dev func nsid)) w =
    (Some (controller_zero\<lparr>c_bus := of_nat bus, c_dev := of_nat dev, c_func := of_nat func, c_nsid := of_nat nsid\<rparr>), w')"
proof -
  have u: "(of_nat nsid :: u64) \<noteq> 0" using assms(4,5) by (simp add: word_unat_eq_iff unat_of_nat take_bit_nat_eq_self)
  have t: "(ucast (of_nat n :: u64) :: u16) = of_nat n" for n by (rule bit_word_eqI) (simp add: bit_simps)
  show ?thesis
    using assms
    by (simp add: parse_target_def print_target_def parse_field_printed delimiters u t)
qed

text \<open>
  C25: Whatever the name, a controller that \<^verbatim>\<open>parse_target\<close> returns has a device number below 32, a
  function number below 8 and a non-zero namespace, and every other field is zero.
\<close>

theorem parse_target_range:
  assumes "parse_target E filename w = (Some c, w')"
  shows "c_dev c < 32 \<and> c_func c < 8 \<and> c_nsid c \<noteq> 0
    \<and> c = controller_zero\<lparr>c_bus := c_bus c, c_dev := c_dev c, c_func := c_func c, c_nsid := c_nsid c\<rparr>"
proof -
  obtain p where p: "filename = Some p" using assms by (cases filename) (auto simp: parse_target_def)
  obtain bus p1 w1 where 1: "parse_ulong_field p 16 0xffff (Some CHR '':'') w = (Some (bus, p1), w1)"
    using assms p by (auto simp: parse_target_def split: prod.splits option.splits)
  obtain dev p2 w2 where 2: "parse_ulong_field p1 16 31 (Some CHR ''.'') w1 = (Some (dev, p2), w2)"
    using assms p 1 by (auto simp: parse_target_def split: prod.splits option.splits)
  obtain func p3 w3 where 3: "parse_ulong_field p2 16 7 (Some CHR '','') w2 = (Some (func, p3), w3)"
    using assms p 1 2 by (auto simp: parse_target_def split: prod.splits option.splits)
  obtain nsid p4 w4 where 4: "parse_ulong_field p3 10 0xffff None w3 = (Some (nsid, p4), w4)"
    using assms p 1 2 3 by (auto simp: parse_target_def split: prod.splits option.splits)
  have c: "c = controller_zero\<lparr>c_bus := ucast bus, c_dev := ucast dev, c_func := ucast func, c_nsid := ucast nsid\<rparr>" "nsid \<noteq> 0"
    using assms p 1 2 3 4 by (auto simp: parse_target_def split: prod.splits if_splits)
  note le = parse_field_le [OF 2] parse_field_le [OF 3] parse_field_le [OF 4]
  have u: "unat (ucast dev :: u16) = unat dev" "unat (ucast func :: u16) = unat func" "unat (ucast nsid :: u16) = unat nsid"
    by (rule unat_ucast_field [OF le(1)] unat_ucast_field [OF le(2)] unat_ucast_field [OF le(3)], simp)+
  have "unat dev < 32" "unat func < 8" using le(1,2) by (simp_all add: word_le_nat_alt)
  moreover have "unat nsid \<noteq> 0" using c(2) by (simp add: unat_eq_zero)
  ultimately show ?thesis
    using u by (auto simp: c(1) word_less_nat_alt)
qed

text \<open>An environment whose \<^verbatim>\<open>calloc\<close> succeeds.\<close>

lemma idle_calloc:
  "hw_act (sys_calloc (idle_env\<lparr>sys_calloc := (\<lambda>(m, s). (True, m, s))\<rparr>)) w = (True, w)"
  by (simp add: hw_act_def)

theorem parse_print_target_witness:
  "fst (parse_target (idle_env\<lparr>sys_calloc := (\<lambda>(m, s). (True, m, s))\<rparr>) (Some ''3b:1f.7,12'') idle_world) =
     Some (controller_zero\<lparr>c_bus := 0x3b, c_dev := 0x1f, c_func := 7, c_nsid := 12\<rparr>)"
proof -
  have "print_target 0x3b 0x1f 7 12 = ''3b:1f.7,12''"
    by code_simp
  then show ?thesis
    using parse_print_target [OF _ _ _ _ _ idle_calloc [of "idle_world\<lparr>errno := 0\<rparr>"], of "0x3b" "0x1f" 7 12] by simp
qed

theorem parse_target_range_witness:
  "\<exists>c. fst (parse_target (idle_env\<lparr>sys_calloc := (\<lambda>(m, s). (True, m, s))\<rparr>) (Some '' 0x1:-0.+3,7'') idle_world) = Some c
     \<and> c_dev c < 32 \<and> c_func c < 8"
proof -
  let ?E = "idle_env\<lparr>sys_calloc := (\<lambda>(m, s). (True, m, s))\<rparr>"
  obtain cp w' where run: "parse_target ?E (Some '' 0x1:-0.+3,7'') idle_world = (cp, w')" by (rule prod.exhaust)
  have "cp \<noteq> None"
    using run by (auto simp: parse_target_def parse_ulong_field_def strtoul_def is_space_def is_digit_def digit_val_def
        digits_val_def hw_act_def idle_env_def idle_world_def)
  with run parse_target_range [of ?E "Some '' 0x1:-0.+3,7''" idle_world _ w'] show ?thesis by auto
qed

end
