(* ===== verification/Engine.thy ===== *)
theory Engine
  imports Nvme_Admin Nvme_Io Nvme_Cq Nvme_Parse Driver
begin

text \<open>
  The fio engine \<^verbatim>\<open>newperf.c\<close>: the callbacks of \<^verbatim>\<open>struct ioengine_ops\<close>. Its static variables and the
  controllers that it allocates are the record \<open>engine\<close>; a controller is known by its address, and an
  access to one that was freed is the value \<open>Inl Use_After_Free\<close>, as is one through a null pointer. What the
  engine uses of fio's \<^verbatim>\<open>struct thread_data\<close> and \<^verbatim>\<open>struct fio_file\<close> are records; \<^verbatim>\<open>td_verror\<close> stores the
  error, and \<^verbatim>\<open>td_io_get_file_size\<close> calls the engine's own \<^verbatim>\<open>get_file_size\<close> callback. The compile-time constant
  \<^verbatim>\<open>FIO_HAS_MRT\<close> is an argument.
\<close>

unbundle bit_operations_syntax

section \<open>State\<close>

record fio_file =
  file_name :: "string option"
  real_file_size :: u64
  size_known :: bool

record thread_data =
  o_nr_files :: u32
  o_use_thread :: bool
  o_iodepth :: u32
  o_num_range :: u32
  o_filename :: "string option"
  td_files :: "fio_file list"
  io_ops_data :: "nvme_data option"
  orig_buffer :: u64
  td_error :: int

record engine =
  ctrls :: "nat \<rightharpoonup> controller_data"
  ctrl_brk :: nat
  g_ctrl :: "nat option"
  curr_thread_num :: int
  next_io_qid :: u16

datatype fio_q_status = FIO_Q_COMPLETED | FIO_Q_QUEUED | FIO_Q_BUSY

definition deref_opt :: "(nat \<rightharpoonup> 'a) \<Rightarrow> nat option \<Rightarrow> ('a \<Rightarrow> fault + 'b) \<Rightarrow> fault + 'b" where
  "deref_opt m p f = (case p of None \<Rightarrow> Inl Use_After_Free | Some a \<Rightarrow> deref m a f)"

section \<open>Setting up and tearing down\<close>

definition next_sq_tail :: "nvme_data \<Rightarrow> u32" where
  "next_sq_tail n = (let tail = io_sq_tail n + 1 in if tail = io_sq_depth n then 0 else tail)"

definition target_name :: "thread_data \<Rightarrow> fio_file option \<Rightarrow> string option" where
  "target_name td f =
     (case f of
        Some g \<Rightarrow> (case file_name g of Some s \<Rightarrow> Some s | None \<Rightarrow>
          (case td_files td of h # _ \<Rightarrow> (case file_name h of Some s \<Rightarrow> Some s | None \<Rightarrow> o_filename td) | [] \<Rightarrow> o_filename td))
      | None \<Rightarrow>
          (case td_files td of h # _ \<Rightarrow> (case file_name h of Some s \<Rightarrow> Some s | None \<Rightarrow> o_filename td) | [] \<Rightarrow> o_filename td))"

definition nvme_size ::
  "'s env \<Rightarrow> thread_data \<Rightarrow> fio_file \<Rightarrow> engine \<Rightarrow> 's world \<Rightarrow> fault + int \<times> thread_data \<times> fio_file \<times> engine \<times> 's world" where
  "nvme_size E td f s w =
     (case g_ctrl s of
        None \<Rightarrow> Inr (1, td\<lparr>td_error := EINVAL\<rparr>, f, s, w)
      | Some a \<Rightarrow> deref (ctrls s) a (\<lambda>c.
          case nvme_get_file_size E (Some c) w of (sz, cp, w) \<Rightarrow>
          let s = s\<lparr>ctrls := (ctrls s)(a := cp)\<rparr> in
          if sz = 0 then Inr (1, td\<lparr>td_error := EINVAL\<rparr>, f, s, w)
          else Inr (0, td, f\<lparr>real_file_size := sz, size_known := True\<rparr>, s, w)))"

fun setup_sizes ::
  "'s env \<Rightarrow> thread_data \<Rightarrow> fio_file list \<Rightarrow> engine \<Rightarrow> 's world \<Rightarrow> fault + int \<times> thread_data \<times> fio_file list \<times> engine \<times> 's world" where
  "setup_sizes E td [] s w = Inr (0, td, [], s, w)"
| "setup_sizes E td (f # fs) s w =
     (case nvme_size E td f s w of
        Inl x \<Rightarrow> Inl x
      | Inr (r, td, f, s, w) \<Rightarrow>
          if r \<noteq> 0 then Inr (1, td, f # fs, s, w)
          else (case setup_sizes E td fs s w of
                  Inl x \<Rightarrow> Inl x
                | Inr (r, td, fs, s, w) \<Rightarrow> Inr (r, td, f # fs, s, w)))"

text \<open>The critical section of \<^verbatim>\<open>nvme_setup\<close>: create the controller unless there is one.\<close>

definition setup_ctrl ::
  "'s env \<Rightarrow> thread_data \<Rightarrow> engine \<Rightarrow> 's world \<Rightarrow> bool \<times> thread_data \<times> engine \<times> 's world" where
  "setup_ctrl E td s w =
     (if g_ctrl s \<noteq> None then (True, td, s, w)
      else case parse_target E (target_name td None) w of
        (None, w) \<Rightarrow> (False, td\<lparr>td_error := EINVAL\<rparr>, s, w)
      | (Some c, w) \<Rightarrow>
          let a = ctrl_brk s;
              s = s\<lparr>ctrls := (ctrls s)(a \<mapsto> c), ctrl_brk := a + 1, g_ctrl := Some a\<rparr>
          in case controller_init E (Some c) w of (ok, cp, w) \<Rightarrow>
          if \<not> ok then
            (False, td\<lparr>td_error := EINVAL\<rparr>, s\<lparr>ctrls := (ctrls s)(a := None), g_ctrl := None\<rparr>, w)
          else (True, td, s\<lparr>ctrls := (ctrls s)(a := cp)\<rparr>, w))"

definition nvme_setup ::
  "'s env \<Rightarrow> thread_data \<Rightarrow> engine \<Rightarrow> 's world \<Rightarrow> fault + int \<times> thread_data \<times> engine \<times> 's world" where
  "nvme_setup E td s w =
     (if o_nr_files td > 1 then Inr (1, td, s, w)
      else case setup_ctrl E td s w of (ok, td, s, w) \<Rightarrow>
        if \<not> ok then Inr (1, td, s, w)
        else case setup_sizes E td (td_files td) s w of
          Inl x \<Rightarrow> Inl x
        | Inr (r, td, fs, s, w) \<Rightarrow> Inr (r, td\<lparr>td_files := fs\<rparr>, s, w))"

text \<open>
  \<^verbatim>\<open>controller_deinit(g_ctrl); free(g_ctrl); g_ctrl = NULL; next_io_qid = 1\<close>, when the last thread is gone.
\<close>

definition drop_ctrl :: "'s env \<Rightarrow> engine \<Rightarrow> 's world \<Rightarrow> fault + engine \<times> 's world" where
  "drop_ctrl E s w =
     (if curr_thread_num s \<noteq> 0 then Inr (s, w)
      else case g_ctrl s of
        None \<Rightarrow> (case controller_deinit E None w of (_, w) \<Rightarrow> Inr (s\<lparr>next_io_qid := 1\<rparr>, w))
      | Some a \<Rightarrow> deref (ctrls s) a (\<lambda>c.
          case controller_deinit E (Some c) w of (_, w) \<Rightarrow>
          Inr (s\<lparr>ctrls := (ctrls s)(a := None), g_ctrl := None, next_io_qid := 1\<rparr>, w)))"

definition init_data :: "thread_data \<Rightarrow> nat \<Rightarrow> u16 \<Rightarrow> nvme_data" where
  "init_data td a qid =
     (let n = nvme_data_init\<lparr>ctrl := Some a, io_qid := qid, io_sq_depth := o_iodepth td + 1, io_cq_depth := o_iodepth td + 1\<rparr>
      in if io_sq_depth n < 2 then n\<lparr>io_sq_depth := 2, io_cq_depth := 2\<rparr> else n)"

definition nvme_init ::
  "'s env \<Rightarrow> thread_data \<Rightarrow> engine \<Rightarrow> 's world \<Rightarrow> fault + int \<times> thread_data \<times> engine \<times> 's world" where
  "nvme_init E td s w =
     (if \<not> o_use_thread td then Inr (1, td, s, w)
      else if o_nr_files td > 1 then Inr (1, td, s, w)
      else case hw_act (sys_calloc E) w of (ok, w) \<Rightarrow>
        if \<not> ok then Inr (1, td\<lparr>td_error := ENOMEM\<rparr>, s, w)
        else case g_ctrl s of
          None \<Rightarrow> Inr (1, td\<lparr>td_error := EINVAL\<rparr>, s, w)
        | Some a \<Rightarrow>
          let n = init_data td a (next_io_qid s);
              s = s\<lparr>next_io_qid := next_io_qid s + 1, curr_thread_num := curr_thread_num s + 1\<rparr>
          in deref (ctrls s) a (\<lambda>c.
            case create_io_queue_pair E c (Some n) w of (ret, c, np, w) \<Rightarrow>
            let s = s\<lparr>ctrls := (ctrls s)(a \<mapsto> c)\<rparr> in
            if \<not> ret then
              (case drop_ctrl E (s\<lparr>curr_thread_num := curr_thread_num s - 1\<rparr>) w of
                 Inl x \<Rightarrow> Inl x
               | Inr (s, w) \<Rightarrow> Inr (1, td\<lparr>io_ops_data := None, td_error := EINVAL\<rparr>, s, w))
            else Inr (0, td\<lparr>io_ops_data := np\<rparr>, s, w)))"

definition nvme_cleanup ::
  "'s env \<Rightarrow> thread_data \<Rightarrow> engine \<Rightarrow> 's world \<Rightarrow> fault + thread_data \<times> engine \<times> 's world" where
  "nvme_cleanup E td s w =
     (case io_ops_data td of
        None \<Rightarrow> Inr (td, s, w)
      | Some n \<Rightarrow> deref_opt (ctrls s) (ctrl n) (\<lambda>c.
          case delete_io_queue_pair E c (Some n) w of (_, c, _, w) \<Rightarrow>
          let s = s\<lparr>ctrls := (ctrls s)(the (ctrl n) \<mapsto> c), curr_thread_num := curr_thread_num s - 1\<rparr> in
          case drop_ctrl E s w of
            Inl x \<Rightarrow> Inl x
          | Inr (s, w) \<Rightarrow> Inr (td\<lparr>io_ops_data := None\<rparr>, s, w)))"

definition nvme_open_file :: "thread_data \<Rightarrow> fio_file \<Rightarrow> int" where
  "nvme_open_file td f = 0"

definition nvme_close_file :: "thread_data \<Rightarrow> fio_file \<Rightarrow> int" where
  "nvme_close_file td f = 0"

section \<open>Queueing and reaping\<close>

text \<open>The engine data with the new pointer in \<^verbatim>\<open>cmd_io_u[cid]\<close>; \<open>io_p\<close> is the address of the \<^verbatim>\<open>io_u\<close>.\<close>

definition nvme_queue ::
  "'s env \<Rightarrow> bool \<Rightarrow> thread_data \<Rightarrow> nat \<Rightarrow> io_u \<Rightarrow> engine \<Rightarrow> 's world
     \<Rightarrow> fault + fio_q_status \<times> io_u \<times> thread_data \<times> 's world" where
  "nvme_queue E has_mrt td io_p io s w =
     (case io_ops_data td of None \<Rightarrow> Inl Use_After_Free | Some n \<Rightarrow>
      if next_sq_tail n = io_sq_head n then Inr (FIO_Q_BUSY, io, td, w)
      else let next_cid = io_cmd_id n + 1 in
      if cmd_io_u n next_cid \<noteq> None then Inr (FIO_Q_BUSY, io, td, w)
      else deref_opt (ctrls s) (ctrl n) (\<lambda>c.
        if (io_offset io OR xfer_buflen io) AND (push_bit (lba_shift c) 1 - 1) \<noteq> 0
        then Inr (FIO_Q_COMPLETED, io\<lparr>io_error := EINVAL\<rparr>, td, w)
        else
          let offset = drop_bit (lba_shift c) (io_offset io);
              len = drop_bit (lba_shift c) (xfer_buflen io);
              queued = (\<lambda>(cid, n, w). Inr (FIO_Q_QUEUED, io,
                td\<lparr>io_ops_data := Some (n\<lparr>cmd_io_u := (cmd_io_u n)(cid := Some io_p)\<rparr>)\<rparr>, w))
          in case io_ddir io of
            DDIR_READ \<Rightarrow>
              if len = 0 then Inr (FIO_Q_COMPLETED, io\<lparr>io_error := EINVAL\<rparr>, td, w)
              else queued (nvme_read E c n offset len (io_u_data_phys_addr n + (xfer_buf io - orig_buffer td)) w)
          | DDIR_WRITE \<Rightarrow>
              if len = 0 then Inr (FIO_Q_COMPLETED, io\<lparr>io_error := EINVAL\<rparr>, td, w)
              else queued (nvme_write E c n offset len (io_u_data_phys_addr n + (xfer_buf io - orig_buffer td)) w)
          | DDIR_TRIM \<Rightarrow>
              if len = 0 then Inr (FIO_Q_COMPLETED, io\<lparr>io_error := EINVAL\<rparr>, td, w)
              else if \<not> has_mrt \<or> o_num_range td = 1 then queued (nvme_trim E c n offset len w)
              else queued (nvme_multi_range_trim E c n io w)
          | _ \<Rightarrow> Inr (FIO_Q_COMPLETED, io\<lparr>io_error := EINVAL\<rparr>, td, w)))"

text \<open>
  The loop of \<^verbatim>\<open>nvme_getevents\<close>, which need not end without a timeout. \<^verbatim>\<open>max - completions\<close> is unsigned
  arithmetic whose result \<^verbatim>\<open>poll_cq\<close> takes as an \<^verbatim>\<open>int\<close>; the clock differences become \<^verbatim>\<open>uint64_t\<close>.
\<close>

definition elapsed_ns :: "int \<times> int \<Rightarrow> int \<times> int \<Rightarrow> u64" where
  "elapsed_ns t0 t1 = word_of_int ((fst t1 - fst t0) * 1000000000 + snd t1 - snd t0)"

partial_function (option) getevents_loop ::
  "'s env \<Rightarrow> controller_data \<Rightarrow> u32 \<Rightarrow> u32 \<Rightarrow> (u64 \<times> int \<times> int) option \<Rightarrow> int \<Rightarrow> nvme_data \<Rightarrow> 's world
     \<Rightarrow> (fatal + int \<times> nvme_data \<times> 's world) option" where
  "getevents_loop E c mn mx t completions n w =
     (case poll_cq E c n (sint (mx - word_of_int completions)) w of
        Inl f \<Rightarrow> Some (Inl f)
      | Inr (k, n, w) \<Rightarrow>
          (if completions + uint k \<ge> sint mn then Some (Inr (completions + uint k, n, w))
           else case t of
             None \<Rightarrow> getevents_loop E c mn mx t (completions + uint k) n w
           | Some (timeout, t0) \<Rightarrow>
               (case hw_act (sys_clock_gettime E) w of (t1, w) \<Rightarrow>
                if elapsed_ns t0 t1 > timeout then Some (Inr (completions + uint k, n, w))
                else getevents_loop E c mn mx t (completions + uint k) n w)))"

definition nvme_getevents ::
  "'s env \<Rightarrow> thread_data \<Rightarrow> u32 \<Rightarrow> u32 \<Rightarrow> (int \<times> int) option \<Rightarrow> engine \<Rightarrow> 's world
     \<Rightarrow> fault + (fatal + int \<times> nvme_data \<times> 's world) option" where
  "nvme_getevents E td mn mx t s w =
     (case io_ops_data td of None \<Rightarrow> Inl Use_After_Free | Some n \<Rightarrow>
      deref_opt (ctrls s) (ctrl n) (\<lambda>c.
        let n = n\<lparr>nr_events := 0\<rparr> in
        case t of
          None \<Rightarrow> Inr (getevents_loop E c mn mx None 0 n w)
        | Some tv \<Rightarrow>
            (case hw_act (sys_clock_gettime E) w of (t0, w) \<Rightarrow>
             Inr (getevents_loop E c mn mx (Some (word_of_int (fst tv * 1000000000 + snd tv), t0)) 0 n w))))"

definition nvme_event :: "thread_data \<Rightarrow> int \<Rightarrow> nat option" where
  "nvme_event td event =
     (case io_ops_data td of None \<Rightarrow> None | Some n \<Rightarrow>
      if event < 0 then None
      else if event \<ge> int (nr_events n) then None
      else events n (nat event))"

section \<open>The data buffer\<close>

definition nvme_alloc ::
  "'s env \<Rightarrow> thread_data \<Rightarrow> u64 \<Rightarrow> engine \<Rightarrow> 's world \<Rightarrow> fault + int \<times> thread_data \<times> engine \<times> 's world" where
  "nvme_alloc E td total_sz s w =
     (case io_ops_data td of
        None \<Rightarrow> Inr (1, td\<lparr>td_error := EINVAL\<rparr>, s, w)
      | Some n \<Rightarrow>
          (case ctrl n of
             None \<Rightarrow> Inr (1, td\<lparr>td_error := EINVAL\<rparr>, s, w)
           | Some a \<Rightarrow> deref (ctrls s) a (\<lambda>c.
               case nvme_alloc_dma_mem E c total_sz mem_zero w of (ok, m, c, w) \<Rightarrow>
               let s = s\<lparr>ctrls := (ctrls s)(a \<mapsto> c)\<rparr> in
               if \<not> ok then Inr (1, td, s, w)
               else
                 let n = n\<lparr>io_u_data_phys_addr := dma_addr m, io_u_data_virt_addr := user_virtaddr m, io_u_data_mem := m\<rparr>;
                     td = td\<lparr>io_ops_data := Some n, orig_buffer := user_virtaddr m\<rparr>
                 in Inr (if orig_buffer td = NULL then 1 else 0, td, s, w))))"

definition nvme_free :: "'s env \<Rightarrow> thread_data \<Rightarrow> 's world \<Rightarrow> thread_data \<times> 's world" where
  "nvme_free E td w =
     (case io_ops_data td of
        None \<Rightarrow> (td, w)
      | Some n \<Rightarrow> (case nvme_free_dma_mem E (io_u_data_mem n) w of (m, w) \<Rightarrow>
          (td\<lparr>io_ops_data := Some (n\<lparr>io_u_data_mem := m\<rparr>)\<rparr>, w)))"

section \<open>Queueing\<close>

lemma sq_tail_next: "io_sq_tail (sq_advance n) = next_sq_tail n"
  by (simp add: sq_advance_simps next_sq_tail_def Let_def)

text \<open>What the four submit functions do to the engine data.\<close>

definition submitted :: "nvme_data \<Rightarrow> nvme_data" where
  "submitted n = sq_advance (n\<lparr>io_cmd_id := io_cmd_id n + 1\<rparr>)"

lemma submit_data:
  "nvme_read E c n offset sz dma w = (cid, n', w') \<Longrightarrow> cid = io_cmd_id n + 1 \<and> n' = submitted n"
  "nvme_write E c n offset sz dma w = (cid, n', w') \<Longrightarrow> cid = io_cmd_id n + 1 \<and> n' = submitted n"
  "nvme_trim E c n offset sz w = (cid, n', w') \<Longrightarrow> cid = io_cmd_id n + 1 \<and> n' = submitted n"
  "nvme_multi_range_trim E c n io w = (cid, n', w') \<Longrightarrow> cid = io_cmd_id n + 1 \<and> n' = submitted n"
  by (auto simp: nvme_read_def nvme_write_def submit_rw_command_def nvme_trim_def nvme_multi_range_trim_def Let_def
      submitted_def split: prod.splits)

text \<open>Requests that the engine rejects instead of queueing them.\<close>

definition bad_request :: "controller_data \<Rightarrow> io_u \<Rightarrow> bool" where
  "bad_request c io \<longleftrightarrow> (io_offset io OR xfer_buflen io) AND (push_bit (lba_shift c) 1 - 1) \<noteq> 0
     \<or> io_ddir io = DDIR_OTHER \<or> drop_bit (lba_shift c) (xfer_buflen io) = 0"

definition sq_used :: "nvme_data \<Rightarrow> nat" where
  "sq_used n = (unat (io_sq_tail n) + unat (io_sq_depth n) - unat (io_sq_head n)) mod unat (io_sq_depth n)"

definition sq_ok :: "nvme_data \<Rightarrow> bool" where
  "sq_ok n \<longleftrightarrow> io_sq_tail n < io_sq_depth n \<and> io_sq_head n < io_sq_depth n"

lemma sq_used_next:
  assumes "sq_ok n" and "next_sq_tail n \<noteq> io_sq_head n"
  shows "sq_ok (submitted n)" and "sq_used (submitted n) = sq_used n + 1" and "sq_used (submitted n) < unat (io_sq_depth n)"
proof -
  define D t h where "D = unat (io_sq_depth n)" and "t = unat (io_sq_tail n)" and "h = unat (io_sq_head n)"
  have lt: "t < D" "h < D" using assms(1) by (simp_all add: sq_ok_def word_less_nat_alt D_def t_def h_def)
  have t': "unat (next_sq_tail n) = (if t + 1 = D then 0 else t + 1)"
    using sq.pos_step [of n] lt by (simp add: sq_tail_next D_def t_def)
  have ne: "unat (next_sq_tail n) \<noteq> h" using assms(2) by (simp add: h_def word_unat_eq_iff)
  have f: "io_sq_tail (submitted n) = next_sq_tail n" "io_sq_head (submitted n) = io_sq_head n" "io_sq_depth (submitted n) = io_sq_depth n"
    by (simp_all add: submitted_def sq_advance_simps next_sq_tail_def Let_def)
  show "sq_ok (submitted n)" using lt t' by (simp add: sq_ok_def word_less_nat_alt f D_def [symmetric] h_def [symmetric])
  have "(t + D - h) mod D = (if h \<le> t then t - h else t + D - h)"
    using lt by (auto simp: le_mod_geq)
  moreover have "((if t + 1 = D then 0 else t + 1) + D - h) mod D = (if h \<le> t then t - h else t + D - h) + 1"
    using lt ne [unfolded t'] by (auto simp: le_mod_geq split: if_splits)
  ultimately show "sq_used (submitted n) = sq_used n + 1"
    by (simp add: sq_used_def f t' D_def [symmetric] t_def [symmetric] h_def [symmetric])
  show "sq_used (submitted n) < unat (io_sq_depth n)" using lt by (simp add: sq_used_def f D_def [symmetric])
qed

text \<open>The slot at the tail is not one of those between the head and the tail.\<close>

lemma tail_not_in_flight:
  assumes "sq_ok n" and "j < sq_used n"
  shows "(unat (io_sq_head n) + j) mod unat (io_sq_depth n) \<noteq> unat (io_sq_tail n)"
proof -
  define D t h where "D = unat (io_sq_depth n)" and "t = unat (io_sq_tail n)" and "h = unat (io_sq_head n)"
  have lt: "t < D" "h < D" using assms(1) by (simp_all add: sq_ok_def word_less_nat_alt D_def t_def h_def)
  have u: "sq_used n = (if h \<le> t then t - h else t + D - h)"
    using lt by (auto simp: sq_used_def D_def [symmetric] t_def [symmetric] h_def [symmetric] le_mod_geq)
  have "(h + j) mod D \<noteq> t"
  proof (cases "h + j < D")
    case True
    then show ?thesis using u assms(2) lt by (auto split: if_splits)
  next
    case False
    then have "(h + j) mod D = h + j - D" using assms(2) u lt by (auto simp: le_mod_geq split: if_splits)
    then show ?thesis using u assms(2) lt False by (auto split: if_splits)
  qed
  then show ?thesis by (simp add: D_def t_def h_def)
qed

definition sq_busy :: "nvme_data \<Rightarrow> bool" where
  "sq_busy n \<longleftrightarrow> next_sq_tail n = io_sq_head n \<or> cmd_io_u n (io_cmd_id n + 1) \<noteq> None"

definition queued_data :: "nvme_data \<Rightarrow> nat \<Rightarrow> nvme_data" where
  "queued_data n io_p = (submitted n)\<lparr>cmd_io_u := (cmd_io_u n)(io_cmd_id n + 1 := Some io_p)\<rparr>"

lemma cmd_io_u_submitted: "cmd_io_u (submitted n) = cmd_io_u n"
  by (simp add: submitted_def sq_advance_simps)

lemma nvme_queue_cases:
  assumes "io_ops_data td = Some n" and "ctrl n = Some a" and "ctrls s a = Some c"
  obtains (busy) "sq_busy n" "nvme_queue E has_mrt td io_p io s w = Inr (FIO_Q_BUSY, io, td, w)"
  | (bad) "\<not> sq_busy n" "bad_request c io"
      "nvme_queue E has_mrt td io_p io s w = Inr (FIO_Q_COMPLETED, io\<lparr>io_error := EINVAL\<rparr>, td, w)"
  | (queued) w' where "\<not> sq_busy n" "\<not> bad_request c io"
      "nvme_queue E has_mrt td io_p io s w = Inr (FIO_Q_QUEUED, io, td\<lparr>io_ops_data := Some (queued_data n io_p)\<rparr>, w')"
proof -
  let ?off = "drop_bit (lba_shift c) (io_offset io)" and ?len = "drop_bit (lba_shift c) (xfer_buflen io)"
  let ?dma = "io_u_data_phys_addr n + (xfer_buf io - orig_buffer td)"
  show thesis
  proof (cases "sq_busy n \<or> bad_request c io")
    case True
    note q = nvme_queue_def deref_opt_def deref_def Let_def
    show ?thesis
    proof (cases "sq_busy n")
      case True
      then have "nvme_queue E has_mrt td io_p io s w = Inr (FIO_Q_BUSY, io, td, w)"
        using assms(1) by (cases "next_sq_tail n = io_sq_head n") (simp_all add: q sq_busy_def)
      with True busy show ?thesis by blast
    next
      case False
      with \<open>sq_busy n \<or> bad_request c io\<close> have b: "bad_request c io" by simp
      have "nvme_queue E has_mrt td io_p io s w = Inr (FIO_Q_COMPLETED, io\<lparr>io_error := EINVAL\<rparr>, td, w)"
        using False b assms
        by (cases "(io_offset io OR xfer_buflen io) AND (push_bit (lba_shift c) 1 - 1) = 0"; cases "io_ddir io")
          (simp_all add: q sq_busy_def bad_request_def)
      with False b bad show ?thesis by blast
    qed
  next
    case False
    obtain cid1 n1 w1 where 1: "nvme_read E c n ?off ?len ?dma w = (cid1, n1, w1)" by (rule prod_cases3)
    obtain cid2 n2 w2 where 2: "nvme_write E c n ?off ?len ?dma w = (cid2, n2, w2)" by (rule prod_cases3)
    obtain cid3 n3 w3 where 3: "nvme_trim E c n ?off ?len w = (cid3, n3, w3)" by (rule prod_cases3)
    obtain cid4 n4 w4 where 4: "nvme_multi_range_trim E c n io w = (cid4, n4, w4)" by (rule prod_cases3)
    note d = submit_data(1) [OF 1] submit_data(2) [OF 2] submit_data(3) [OF 3] submit_data(4) [OF 4]
    note q = nvme_queue_def sq_busy_def bad_request_def deref_opt_def deref_def Let_def
    have "\<exists>w'. nvme_queue E has_mrt td io_p io s w = Inr (FIO_Q_QUEUED, io, td\<lparr>io_ops_data := Some (queued_data n io_p)\<rparr>, w')"
    proof (cases "io_ddir io")
      case DDIR_READ
      with False assms 1 d show ?thesis by (simp add: q queued_data_def cmd_io_u_submitted)
    next
      case DDIR_WRITE
      with False assms 2 d show ?thesis by (simp add: q queued_data_def cmd_io_u_submitted)
    next
      case DDIR_TRIM
      with False assms 3 4 d show ?thesis
        by (cases "\<not> has_mrt \<or> o_num_range td = 1") (simp_all add: q queued_data_def cmd_io_u_submitted)
    next
      case DDIR_OTHER
      with False show ?thesis by (simp add: bad_request_def)
    qed
    with False queued show ?thesis by blast
  qed
qed

end
