(* ===== verification/Engine_Queue.thy ===== *)
theory Engine_Queue
  imports Engine
begin

text \<open>
  What fio gets from \<^verbatim>\<open>nvme_queue\<close>: the status on every branch, that a full ring is never overrun, and
  that a queued read or write reaches the device as the command that fio asked for.
\<close>

unbundle bit_operations_syntax

section \<open>Blocks and bytes\<close>

lemma block_mask: "push_bit k 1 - 1 = (mask k :: u64)"
  by (simp add: mask_eq_exp_minus_1 push_bit_eq_mult)

lemma aligned_parts:
  assumes "(a OR b) AND (push_bit k 1 - 1) = (0 :: u64)"
  shows "take_bit k a = 0" and "take_bit k b = 0"
proof -
  have "take_bit k a OR take_bit k b = 0"
    using assms [unfolded block_mask, folded take_bit_eq_mask] by (simp only: take_bit_or)
  then show "take_bit k a = 0" "take_bit k b = 0" by (metis or_eq_0_iff)+
qed

lemma push_drop_aligned: "take_bit k a = 0 \<Longrightarrow> push_bit k (drop_bit k a) = (a :: u64)"
  using bits_ident [of k a] by simp

section \<open>Queued reads and writes\<close>

definition rw_opcode :: "ddir \<Rightarrow> u8" where
  "rw_opcode d = (if d = DDIR_READ then 2 else 1)"

text \<open>The bus address that the engine computes for the buffer of a request.\<close>

definition io_dma :: "thread_data \<Rightarrow> nvme_data \<Rightarrow> io_u \<Rightarrow> u64" where
  "io_dma td n io = io_u_data_phys_addr n + (xfer_buf io - orig_buffer td)"

lemma queue_rw_runs:
  assumes td: "io_ops_data td = Some n" "ctrl n = Some a" "ctrls s a = Some c"
    and ok: "\<not> sq_busy n" "\<not> bad_request c io" and rw: "io_ddir io = DDIR_READ \<or> io_ddir io = DDIR_WRITE"
    and run: "submit_rw_command E c n (rw_opcode (io_ddir io)) (drop_bit (lba_shift c) (io_offset io))
      (drop_bit (lba_shift c) (xfer_buflen io)) (io_dma td n io) w = (cid, n', w')"
  shows "nvme_queue E has_mrt td io_p io s w
    = Inr (FIO_Q_QUEUED, io, td\<lparr>io_ops_data := Some (n'\<lparr>cmd_io_u := (cmd_io_u n')(cid := Some io_p)\<rparr>)\<rparr>, w')"
proof -
  note q = nvme_queue_def sq_busy_def bad_request_def deref_opt_def deref_def Let_def nvme_read_def nvme_write_def
  from rw show ?thesis
    using td ok run by (elim disjE) (simp_all add: q rw_opcode_def io_dma_def)
qed

section \<open>Properties\<close>

text \<open>
  C29: \<^verbatim>\<open>nvme_queue\<close> answers every request in one of three ways. It is \<^verbatim>\<open>FIO_Q_BUSY\<close> exactly if the ring is
  full or the next command identifier is still in use, and then changes nothing. A request that is
  not a multiple of the block size, empty or of another direction is \<^verbatim>\<open>FIO_Q_COMPLETED\<close> with \<^verbatim>\<open>EINVAL\<close>,
  and nothing reaches the device. Every other request is \<^verbatim>\<open>FIO_Q_QUEUED\<close>: the tail and the command
  identifier advance by one and the identifier is bound to the request.
\<close>

theorem nvme_queue_outcome:
  assumes "io_ops_data td = Some n" and "ctrl n = Some a" and "ctrls s a = Some c"
  shows "\<exists>w'. nvme_queue E has_mrt td io_p io s w =
    (if sq_busy n then Inr (FIO_Q_BUSY, io, td, w)
     else if bad_request c io then Inr (FIO_Q_COMPLETED, io\<lparr>io_error := EINVAL\<rparr>, td, w)
     else Inr (FIO_Q_QUEUED, io, td\<lparr>io_ops_data := Some (n\<lparr>
            cmd_io_u := (cmd_io_u n)(io_cmd_id n + 1 := Some io_p), io_cmd_id := io_cmd_id n + 1, io_sq_tail := next_sq_tail n\<rparr>)\<rparr>, w'))"
proof -
  have "queued_data n io_p = n\<lparr>cmd_io_u := (cmd_io_u n)(io_cmd_id n + 1 := Some io_p), io_cmd_id := io_cmd_id n + 1,
      io_sq_tail := next_sq_tail n\<rparr>"
    by (simp add: queued_data_def submitted_def sq_advance_simps next_sq_tail_def Let_def)
  then show ?thesis
    by (cases rule: nvme_queue_cases [OF assms, of E has_mrt io_p io w]) auto
qed

text \<open>
  C30: Queueing never overruns the ring: when \<^verbatim>\<open>nvme_queue\<close> answers \<^verbatim>\<open>FIO_Q_QUEUED\<close>, the slot it wrote was
  not one of the slots between the head and the tail, afterwards one more slot is in use and at
  least one is still free, the command identifier was unused before, and the binding of every
  outstanding command to its request is kept.
\<close>

theorem nvme_queue_never_overruns:
  assumes "io_ops_data td = Some n" and "ctrl n = Some a" and "ctrls s a = Some c" and "sq_ok n"
    and run: "nvme_queue E has_mrt td io_p io s w = Inr (FIO_Q_QUEUED, io', td', w')"
  shows "\<exists>n'. io_ops_data td' = Some n' \<and> sq_ok n' \<and> sq_used n' = sq_used n + 1 \<and> sq_used n' < unat (io_sq_depth n')
    \<and> (\<forall>j < sq_used n. (unat (io_sq_head n) + j) mod unat (io_sq_depth n) \<noteq> unat (io_sq_tail n))
    \<and> cmd_io_u n (io_cmd_id n') = None \<and> cmd_io_u n' (io_cmd_id n') = Some io_p
    \<and> (\<forall>cid u. cmd_io_u n cid = Some u \<longrightarrow> cmd_io_u n' cid = Some u)"
proof (cases rule: nvme_queue_cases [OF assms(1-3), of E has_mrt io_p io w])
  case (3 w1)
  let ?n = "queued_data n io_p"
  have td': "io_ops_data td' = Some ?n" using 3 run by auto
  have free: "next_sq_tail n \<noteq> io_sq_head n" "cmd_io_u n (io_cmd_id n + 1) = None" using 3(1) by (simp_all add: sq_busy_def)
  note u = sq_used_next [OF assms(4) free(1)]
  have "io_cmd_id ?n = io_cmd_id n + 1" "io_sq_depth ?n = io_sq_depth n"
    by (simp_all add: queued_data_def submitted_def sq_advance_simps)
  moreover have "sq_ok ?n" "sq_used ?n = sq_used (submitted n)" using u(1) by (simp_all add: queued_data_def sq_ok_def sq_used_def)
  ultimately show ?thesis
    using td' free(2) u tail_not_in_flight [OF assms(4)] by (auto simp: queued_data_def)
qed (use run in auto)

text \<open>
  C31: A queued read or write reaches the device as fio's request: when the doorbell rings, the queue
  entry at the old tail carries the opcode of the direction, the new command identifier and the byte
  offset and length of the request in blocks; memory outside the entry and the slot's PRP page is
  untouched. Its PRPs cover exactly the bytes of the request's buffer at its bus address (the offset of
  the buffer in fio's memory carried over to the DMA buffer) if and only if that buffer is not both
  page-aligned and longer than a page. The buffer touches at most 513 pages.
\<close>

theorem nvme_queue_rw_end_to_end:
  assumes "io_ops_data td = Some n" and "ctrl n = Some a" and "ctrls s a = Some c"
    and "\<not> sq_busy n" and good: "\<not> bad_request c io" and "io_ddir io = DDIR_READ \<or> io_ddir io = DDIR_WRITE"
    and apart: "sqe_apart n"
    and "unat (io_dma td n io) mod 4096 + unat (xfer_buflen io) \<le> 513 * 4096"
  shows "\<exists>r td' n' cmd. nvme_queue E has_mrt td io_p io s w = Inr (FIO_Q_QUEUED, io, td', ring_sq_doorbell E c n' (w\<lparr>ram := r\<rparr>))
    \<and> io_ops_data td' = Some n' \<and> cmd = load_command r (sqe_addr n)
    \<and> cmd_opcode cmd = rw_opcode (io_ddir io) \<and> command_id cmd = io_cmd_id n + 1
    \<and> cmd_io_u n' (command_id cmd) = Some io_p
    \<and> cmd_nsid cmd = ucast (c_nsid c) \<and> push_bit (lba_shift c) (cmd_slba cmd) = io_offset io
    \<and> cmd_length cmd = ucast (drop_bit (lba_shift c) (xfer_buflen io) - 1)
    \<and> (prp_bytes (prp_device_read n r) (cmd_prp1 cmd) (cmd_prp2 cmd) (unat (xfer_buflen io))
          = byte_run (io_dma td n io) (unat (xfer_buflen io))
        \<longleftrightarrow> nvme_page_offset (io_dma td n io) \<noteq> 0 \<or> unat (xfer_buflen io) \<le> 4096)
    \<and> (\<forall>x. 64 \<le> unat (x - sqe_addr n) \<and> 4096 \<le> unat (x - prp_slot n (io_sq_tail n)) \<longrightarrow> r x = ram w x)"
proof -
  let ?off = "drop_bit (lba_shift c) (io_offset io)" and ?len = "drop_bit (lba_shift c) (xfer_buflen io)"
  have "(io_offset io OR xfer_buflen io) AND (push_bit (lba_shift c) 1 - 1) = 0" and nz: "?len \<noteq> 0"
    using good by (simp_all add: bad_request_def)
  then have bytes: "push_bit (lba_shift c) ?off = io_offset io" "push_bit (lba_shift c) ?len = xfer_buflen io"
    by (simp_all add: aligned_parts push_drop_aligned)
  then have "xfer_buflen io \<noteq> 0" using nz by auto
  then have pos: "0 < unat (xfer_buflen io)" by (simp add: unat_gt_0)
  obtain cid n1 w1 where run: "submit_rw_command E c n (rw_opcode (io_ddir io)) ?off ?len (io_dma td n io) w = (cid, n1, w1)"
    by (rule prod_cases3)
  let ?n = "n1\<lparr>cmd_io_u := (cmd_io_u n1)(cid := Some io_p)\<rparr>"
  have queue: "nvme_queue E has_mrt td io_p io s w = Inr (FIO_Q_QUEUED, io, td\<lparr>io_ops_data := Some ?n\<rparr>, w1)"
    by (rule queue_rw_runs [OF assms(1-6) run])
  have bell: "ring_sq_doorbell E c n1 v = ring_sq_doorbell E c ?n v" for v by (simp add: ring_sq_doorbell_def)
  have len: "unat (xfer_buflen io) = unat (push_bit (lba_shift c) ?len)" by (simp add: bytes(2))
  obtain r prp2 where r: "w1 = ring_sq_doorbell E c n1 (w\<lparr>ram := r\<rparr>)"
    "load_command r (sqe_addr n) =
       \<lparr>cmd_opcode = rw_opcode (io_ddir io), cmd_flags = 0, command_id = cid, cmd_nsid = ucast (c_nsid c),
        cmd_reserved2 = 0, cmd_metadata = 0, cmd_prp1 = io_dma td n io, cmd_prp2 = prp2, cmd_slba = ?off,
        cmd_length = ucast (?len - 1), cmd_dsmgmt = 0, cmd_reftag = 0, cmd_apptag = 0, cmd_appmask = 0\<rparr>"
    "prp_bytes (prp_device_read n r) (io_dma td n io) prp2 (unat (xfer_buflen io)) = byte_run (io_dma td n io) (unat (xfer_buflen io))
       \<longleftrightarrow> nvme_page_offset (io_dma td n io) \<noteq> 0 \<or> unat (xfer_buflen io) \<le> 4096"
    "\<forall>x. 64 \<le> unat (x - sqe_addr n) \<and> 4096 \<le> unat (x - prp_slot n (io_sq_tail n)) \<longrightarrow> r x = ram w x"
    "cid = io_cmd_id n + 1"
    using rw_command_transfer [OF apart len pos assms(8) run] by blast
  show ?thesis
    by (rule exI [of _ r], rule exI [of _ "td\<lparr>io_ops_data := Some ?n\<rparr>"], rule exI [of _ ?n],
        rule exI [of _ "load_command r (sqe_addr n)"])
      (simp only: r(2), simp add: queue r(1,3-5) bell bytes(1))
qed

section \<open>Witnesses\<close>

definition sample_data :: nvme_data where
  "sample_data = sample_queue\<lparr>ctrl := Some 0, io_sq_head := 1, io_u_data_phys_addr := 0x700000\<rparr>"

definition sample_td :: thread_data where
  "sample_td = \<lparr>o_nr_files = 1, o_use_thread = True, o_iodepth = 3, o_num_range = 1, o_filename = None, td_files = [],
     io_ops_data = Some sample_data, orig_buffer = 0x50000000, td_error = 0\<rparr>"

definition sample_ctrl :: controller_data where
  "sample_ctrl = controller_zero\<lparr>lba_shift := 9, c_nsid := 1\<rparr>"

definition sample_engine :: engine where
  "sample_engine = \<lparr>ctrls = [0 \<mapsto> sample_ctrl], ctrl_brk = 1, g_ctrl = Some 0, curr_thread_num = 1, next_io_qid = 2\<rparr>"

definition sample_io :: io_u where
  "sample_io = \<lparr>io_ddir = DDIR_READ, io_offset = 0xc800, xfer_buflen = 0x2000, xfer_buf = 0x50000200, number_trim = 0,
     io_trim = (\<lambda>_. (0, 0)), io_error = 0\<rparr>"

lemma sample_thread:
  "io_ops_data sample_td = Some sample_data" "ctrl sample_data = Some 0" "ctrls sample_engine 0 = Some sample_ctrl"
  by (simp_all add: sample_td_def sample_data_def sample_engine_def)

lemma sample_free: "\<not> sq_busy sample_data" "sq_ok sample_data" "sq_used sample_data = 2"
  by (simp_all add: sq_busy_def sq_ok_def sq_used_def next_sq_tail_def Let_def sample_data_def sample_queue_def nvme_data_init_def)

lemma sample_request: "\<not> bad_request sample_ctrl sample_io"
  by (simp add: bad_request_def sample_ctrl_def sample_io_def)

lemma sample_dma: "io_dma sample_td sample_data sample_io = 0x700200"
  by (simp add: io_dma_def sample_td_def sample_data_def sample_io_def)

theorem nvme_queue_outcome_witness:
  "\<exists>td' w'. nvme_queue idle_env False sample_td 40 sample_io sample_engine idle_world = Inr (FIO_Q_QUEUED, sample_io, td', w')"
  using nvme_queue_outcome [OF sample_thread, of idle_env False 40 sample_io idle_world] sample_free sample_request by auto

theorem nvme_queue_never_overruns_witness:
  "\<exists>td' w' n'. nvme_queue idle_env False sample_td 40 sample_io sample_engine idle_world = Inr (FIO_Q_QUEUED, sample_io, td', w')
     \<and> io_ops_data td' = Some n' \<and> sq_used n' = 3 \<and> cmd_io_u n' (io_cmd_id n') = Some 40"
proof (cases rule: nvme_queue_cases [OF sample_thread, of idle_env False 40 sample_io idle_world])
  case (3 w')
  from nvme_queue_never_overruns [OF sample_thread sample_free(2) 3(3)] sample_free(3) 3(3) show ?thesis by auto
qed (use sample_free sample_request in auto)

theorem nvme_queue_rw_end_to_end_witness:
  "\<exists>r td' n' cmd. nvme_queue idle_env False sample_td 40 sample_io sample_engine idle_world
       = Inr (FIO_Q_QUEUED, sample_io, td', ring_sq_doorbell idle_env sample_ctrl n' (idle_world\<lparr>ram := r\<rparr>))
     \<and> cmd = load_command r (sqe_addr sample_data) \<and> cmd_opcode cmd = 2 \<and> cmd_length cmd = 15
     \<and> prp_bytes (prp_device_read sample_data r) (cmd_prp1 cmd) (cmd_prp2 cmd) 8192 = byte_run 0x700200 8192"
proof -
  have apart: "sqe_apart sample_data"
    by (simp add: sqe_apart_def sample_data_def sample_queue_def prp_slot_def)
  have rw: "io_ddir sample_io = DDIR_READ \<or> io_ddir sample_io = DDIR_WRITE" by (simp add: sample_io_def)
  have "unat (io_dma sample_td sample_data sample_io) mod 4096 + unat (xfer_buflen sample_io) \<le> 513 * 4096"
    unfolding sample_dma by (simp_all add: sample_io_def)
  from nvme_queue_rw_end_to_end [OF sample_thread sample_free(1) sample_request rw apart this, of idle_env False 40 idle_world]
  show ?thesis
    unfolding sample_dma by (auto simp: sample_io_def sample_ctrl_def rw_opcode_def nvme_page_offset_def)
qed

end
