(* ===== verification/Engine_Events.thy ===== *)
theory Engine_Events
  imports Engine
begin

text \<open>
  Reaping completions: the loop of \<^verbatim>\<open>nvme_getevents\<close> over several polls, with a device that posts
  completions between and during the polls. Positions of the completion queue are those of the theory
  of \<^verbatim>\<open>poll_cq\<close>.
\<close>

unbundle bit_operations_syntax

section \<open>The device over several polls\<close>

text \<open>Taking \<open>c\<close> posted entries moves the head: what is posted from there on is again a ring.\<close>

lemma cq_ring_shift:
  assumes ring: "cq_ring b D k0 log p r" and c: "c \<le> p" and D: "0 < D"
  shows "cq_ring b D (k0 + c) (drop c log) (p - c) r"
  unfolding cq_ring_def
proof (intro conjI allI impI)
  show "p - c \<le> length (drop c log)" "length (drop c log) \<le> D" using ring by (auto simp: cq_ring_def)
  show "psf_p (cqe_psf (drop c log ! i)) = ucast (phase_tag_at D (k0 + c + i))" if "i < length (drop c log)" for i
  proof -
    have "c + i < length log" using that by simp
    then have "psf_p (cqe_psf (log ! (c + i))) = ucast (phase_tag_at D (k0 + (c + i)))"
      using ring unfolding cq_ring_def by blast
    then show ?thesis using that by (simp add: add.assoc)
  qed
  show "load_cqe r (cqe_addr b D (k0 + c + i)) = drop c log ! i" if "i < p - c" for i
  proof -
    have "c + i < p" using that by simp
    then have "load_cqe r (cqe_addr b D (k0 + (c + i))) = log ! (c + i)" using ring unfolding cq_ring_def by blast
    moreover have "c \<le> length log" using ring c by (simp add: cq_ring_def)
    ultimately show ?thesis by (simp add: add.assoc)
  qed
  show "psf_p (load16 r (cqe_addr b D (k0 + c + i) + 14)) \<noteq> ucast (phase_tag_at D (k0 + c + i))"
    if "i < D" "p - c \<le> i" for i
  proof (cases "c + i < D")
    case True
    then have "psf_p (load16 r (cqe_addr b D (k0 + (c + i)) + 14)) \<noteq> ucast (phase_tag_at D (k0 + (c + i)))"
      using ring that(2) unfolding cq_ring_def by simp
    then show ?thesis by (simp add: add.assoc)
  next
    case False
    then obtain q where q: "c + i = q + D" by (metis add.commute le_Suc_ex not_less)
    then have "q < p" using that c by simp
    note e = cq_ring_posted(1,4) [OF ring this]
    have "(k0 + (q + D)) mod D = (k0 + q) mod D" by (metis add.assoc mod_add_self2)
    then have "cqe_addr b D (k0 + c + i) = cqe_addr b D (k0 + q)" using q by (simp add: cqe_addr_def add.assoc)
    then show ?thesis
      using e phase_tag_lap [OF D, of "k0 + q"] q by (simp add: psf_p_def add.assoc phase_tag_cast_inject)
  qed
qed

text \<open>
  A device that will post all of \<open>log\<close>: it keeps the completion contract from every position of the
  head, the head doorbell at address \<open>db\<close> and the clock take nothing back, and as long as nothing is
  posted at the head and something is still to come, each of its steps brings it closer to posting
  (\<open>rank\<close> falls).
\<close>

definition cq_serves :: "'s env \<Rightarrow> ('s \<Rightarrow> nat) \<Rightarrow> u64 \<Rightarrow> u64 \<Rightarrow> nat \<Rightarrow> nat \<Rightarrow> nvme_cq_entry list \<Rightarrow> bool" where
  "cq_serves E rank db b D k0 log \<longleftrightarrow>
     (\<forall>j \<le> length log. cq_device E b D (k0 + j) (drop j log)
        \<and> (\<forall>r s p v. cq_ring b D (k0 + j) (drop j log) p r
             \<longrightarrow> (\<exists>p'. cq_ring b D (k0 + j) (drop j log) p' (fst (mmio_wr E db v (r, s)))))
        \<and> (j < length log \<longrightarrow> (\<forall>r s. cq_ring b D (k0 + j) (drop j log) 0 r
             \<longrightarrow> cq_ring b D (k0 + j) (drop j log) 0 (fst (hw_step E (r, s))) \<longrightarrow> rank (snd (hw_step E (r, s))) < rank s)))
     \<and> (\<forall>r s. fst (snd (sys_clock_gettime E (r, s))) = r \<and> rank (snd (snd (sys_clock_gettime E (r, s)))) \<le> rank s)"

text \<open>The engine data after the first \<open>d\<close> completions of \<open>log\<close> were taken, starting from \<open>n0\<close>.\<close>

definition taken :: "nvme_data \<Rightarrow> u64 \<Rightarrow> nat \<Rightarrow> nat \<Rightarrow> nvme_cq_entry list \<Rightarrow> nat \<Rightarrow> nvme_data \<Rightarrow> bool" where
  "taken n0 b D k0 log d n \<longleftrightarrow> nr_events n = d
     \<and> (\<forall>i < d. events n i = cmd_io_u n0 (cqe_cid (log ! i)))
     \<and> (\<forall>cid. cmd_io_u n cid = (if cid \<in> cqe_cid ` set (take d log) then None else cmd_io_u n0 cid))
     \<and> cq_synced n b D (k0 + d) \<and> io_cq_head_db n = io_cq_head_db n0
     \<and> io_sq_head n = (if d = 0 then io_sq_head n0 else ucast (cqe_sqhd (log ! (d - 1))))"

lemma cid_fresh:
  assumes "completable n0 log" and "d \<le> i" and "i < length log"
  shows "cqe_cid (log ! i) \<notin> cqe_cid ` set (take d log)"
proof
  assume "cqe_cid (log ! i) \<in> cqe_cid ` set (take d log)"
  then obtain j where j: "j < length (take d log)" "cqe_cid (log ! i) = cqe_cid (take d log ! j)"
    by (metis image_iff in_set_conv_nth)
  then have "map cqe_cid log ! i = map cqe_cid log ! j" using assms by simp
  moreover have "distinct (map cqe_cid log)" using assms(1) by (simp add: completable_def)
  ultimately have "i = j" using nth_eq_iff_index_eq [of "map cqe_cid log" i j] assms(3) j(1) by simp
  with j(1) assms(2) show False by simp
qed

lemma completable_drop:
  assumes "completable n0 log" and "taken n0 b D k0 log d n"
  shows "completable n (drop d log)"
proof -
  have "cmd_io_u n (cqe_cid e) = cmd_io_u n0 (cqe_cid e)" if e: "e \<in> set (drop d log)" for e
  proof -
    obtain i where i: "i < length (drop d log)" "drop d log ! i = e" using e unfolding in_set_conv_nth by blast
    then have "e = log ! (d + i)" "d + i < length log" by auto
    then show ?thesis using cid_fresh [OF assms(1), of d "d + i"] assms(2) by (simp add: taken_def)
  qed
  moreover have "distinct (drop d (map cqe_cid log))"
    using assms(1) unfolding completable_def by (intro distinct_drop) blast
  then have "distinct (map cqe_cid (drop d log))" by (simp add: drop_map)
  ultimately show ?thesis
    using assms(1) unfolding completable_def by (metis in_set_dropD)
qed

lemma completable_length:
  assumes "completable n log"
  shows "length log \<le> 65536"
proof -
  have "length log = card (set (map cqe_cid log))" using assms by (metis completable_def distinct_card length_map)
  also have "\<dots> \<le> CARD(u16)" by (intro card_mono) simp_all
  finally show ?thesis by (simp add: card_word)
qed

section \<open>One poll\<close>

lemma taken_more:
  assumes "completable n0 log" and t: "taken n0 b D k0 log d n" and le: "d + c \<le> length log"
    and nr: "nr_events n' = nr_events n + c"
    and ev: "\<forall>i < c. events n' (nr_events n + i) = cmd_io_u n (cqe_cid (drop d log ! i))" "\<forall>x < nr_events n. events n' x = events n x"
    and cmd: "\<forall>cid. cmd_io_u n' cid = (if cid \<in> cqe_cid ` set (take c (drop d log)) then None else cmd_io_u n cid)"
    and sync: "cq_synced n' b D (k0 + d + c)" and db: "io_cq_head_db n' = io_cq_head_db n"
    and hd: "io_sq_head n' = (if c = 0 then io_sq_head n else ucast (cqe_sqhd (drop d log ! (c - 1))))"
  shows "taken n0 b D k0 log (d + c) n'"
  unfolding taken_def
proof (intro conjI allI impI)
  show "nr_events n' = d + c" "io_cq_head_db n' = io_cq_head_db n0" "cq_synced n' b D (k0 + (d + c))"
    using nr t db sync by (simp_all add: taken_def add.assoc)
  show "io_sq_head n' = (if d + c = 0 then io_sq_head n0 else ucast (cqe_sqhd (log ! (d + c - 1))))"
    using hd t le by (cases c) (simp_all add: taken_def)
  show "events n' i = cmd_io_u n0 (cqe_cid (log ! i))" if "i < d + c" for i
  proof (cases "i < d")
    case True
    then show ?thesis using ev(2) t by (simp add: taken_def)
  next
    case False
    define j where "j = i - d"
    then have i: "i = d + j" "j < c" using False that by simp_all
    have "events n' i = cmd_io_u n (cqe_cid (log ! i))" using ev(1) i t le by (simp add: taken_def)
    also have "\<dots> = cmd_io_u n0 (cqe_cid (log ! i))"
      using cid_fresh [OF assms(1), of d i] i le t by (simp add: taken_def)
    finally show ?thesis .
  qed
  show "cmd_io_u n' cid = (if cid \<in> cqe_cid ` set (take (d + c) log) then None else cmd_io_u n0 cid)" for cid
  proof -
    have "set (take (d + c) log) = set (take d log) \<union> set (take c (drop d log))" by (simp add: take_add)
    then show ?thesis using cmd t by (auto simp: taken_def image_Un)
  qed
qed

lemma poll_taken:
  assumes serves: "cq_serves E rank (bar0_virt ct + ucast (io_cq_head_db n0)) b D k0 log" and ok: "completable n0 log"
    and t: "taken n0 b D k0 log d n" and d: "d \<le> length log"
    and ring: "cq_ring b D (k0 + d) (drop d log) p (ram w)" and max_n: "0 < max_n"
  obtains c n' w' p' where "poll_cq E ct n max_n w = Inr (of_nat c, n', w')" "c \<le> poll_limit max_n" "d + c \<le> length log"
    "min (poll_limit max_n) p \<le> c" "taken n0 b D k0 log (d + c) n'"
    "cq_ring b D (k0 + (d + c)) (drop (d + c) log) p' (ram w')"
    "c = 0 \<and> d < length log \<longrightarrow> rank (sys w') < rank (sys w)"
proof -
  have dev: "cq_device E b D (k0 + d) (drop d log)" using serves d by (simp add: cq_serves_def)
  have sync: "cq_synced n b D (k0 + d)" and D: "0 < D" using t by (simp_all add: taken_def cq_synced_def)
  from poll_cq_world [OF dev ring sync max_n completable_drop [OF ok t], of ct] obtain c n' w' w1 where
    run: "poll_cq E ct n max_n w = Inr (of_nat c, n', w')"
    and c: "min (poll_limit max_n) p \<le> c" "c \<le> poll_limit max_n" "c \<le> length (drop d log)"
    and data: "nr_events n' = nr_events n + c"
      "\<forall>i < c. events n' (nr_events n + i) = cmd_io_u n (cqe_cid (drop d log ! i))"
      "\<forall>x < nr_events n. events n' x = events n x"
      "\<forall>cid. cmd_io_u n' cid = (if cid \<in> cqe_cid ` set (take c (drop d log)) then None else cmd_io_u n cid)"
      "cq_synced n' b D (k0 + d + c)" "io_cq_head_db n' = io_cq_head_db n"
      "io_sq_head n' = (if c = 0 then io_sq_head n else ucast (cqe_sqhd (drop d log ! (c - 1))))"
    and w1: "polled E b D (k0 + d) (drop d log) c w w1"
      "w' = (if c = 0 then w1 else nvme_reg_write32_fast E (bar0_virt ct) (io_cq_head_db n) (of_nat ((k0 + d + c) mod D)) w1)"
    by blast
  have le: "d + c \<le> length log" using c(3) d by simp
  have db: "io_cq_head_db n = io_cq_head_db n0" using t by (simp add: taken_def)
  from w1(1) obtain q where q: "c \<le> q" "cq_ring b D (k0 + d) (drop d log) q (ram w1)" by (auto simp: polled_def)
  have shift: "cq_ring b D (k0 + (d + c)) (drop (d + c) log) (q - c) (ram w1)"
    using cq_ring_shift [OF q(2,1) D] by (simp add: add.assoc add.commute [of c d])
  have "\<exists>p'. cq_ring b D (k0 + (d + c)) (drop (d + c) log) p' (ram w')"
  proof (cases "c = 0")
    case True
    then show ?thesis using shift w1(2) by auto
  next
    case False
    have "\<exists>p'. cq_ring b D (k0 + (d + c)) (drop (d + c) log) p'
        (fst (mmio_wr E (bar0_virt ct + ucast (io_cq_head_db n0)) (of_nat ((k0 + d + c) mod D)) (ram w1, sys w1)))"
      using serves le shift unfolding cq_serves_def by blast
    then show ?thesis
      using False w1(2) by (auto simp: nvme_reg_write32_fast_def mmio_write32_def emit_def db split: prod.splits)
  qed
  then obtain p' where p': "cq_ring b D (k0 + (d + c)) (drop (d + c) log) p' (ram w')" by blast
  have "rank (sys w') < rank (sys w)" if "c = 0" "d < length log"
  proof -
    have "p = 0" using c(1) that(1) max_n by (auto simp: poll_limit_def min_def split: if_splits)
    have w': "w' = hw_run E w" "cq_ring b D (k0 + d) (drop d log) 0 (ram w')" using w1 that unfolding polled_def by auto
    have step: "ram w' = fst (hw_step E (ram w, sys w))" "sys w' = snd (hw_step E (ram w, sys w))"
      by (simp_all add: w'(1) hw_run_def split: prod.splits)
    have "cq_ring b D (k0 + d) (drop d log) 0 (ram w)" using ring \<open>p = 0\<close> by simp
    with serves that(2) d w'(2) show ?thesis unfolding cq_serves_def step by blast
  qed
  with run c(1,2) le taken_more [OF ok t le data] p' that show thesis by blast
qed


section \<open>The whole call\<close>

lemma room_left:
  assumes "sint mx = int m" and "d \<le> m"
  shows "sint ((mx :: u32) - word_of_int (int d)) = int (m - d)"
proof -
  have m: "m < 2 ^ 31" using assms(1) sint_lt [of mx] by simp
  have "mx = word_of_int (sint mx)" by simp
  then have "mx = word_of_int (int m)" unfolding assms(1) .
  then have "mx - word_of_int (int d) = word_of_int (int (m - d))" using assms(2) by (simp add: of_nat_diff)
  moreover have "- (2 ^ 31) \<le> int (m - d)" "int (m - d) < 2 ^ 31" using m by (simp_all add: of_nat_less_iff)
  ultimately show ?thesis by (simp add: signed_of_nat signed_take_bit_int_eq_self)
qed

lemma serves_clock:
  assumes "cq_serves E rank db b D k0 log" and "hw_act (sys_clock_gettime E) w = (t1, w')"
  shows "ram w' = ram w" and "rank (sys w') \<le> rank (sys w)"
proof -
  have "fst (snd (sys_clock_gettime E (ram w, sys w))) = ram w \<and> rank (snd (snd (sys_clock_gettime E (ram w, sys w)))) \<le> rank (sys w)"
    using assms(1) unfolding cq_serves_def by blast
  then show "ram w' = ram w" "rank (sys w') \<le> rank (sys w)"
    using assms(2) by (auto simp: hw_act_def split: prod.splits)
qed

text \<open>One round of the loop, up to the decision whether to go on.\<close>

lemma getevents_round:
  assumes serves: "cq_serves E rank (bar0_virt ct + ucast (io_cq_head_db n0)) b D k0 log" and ok: "completable n0 log"
    and mx: "sint mx = int m" and mn: "sint mn = int l" and d: "d < m" "d \<le> length log"
    and t: "taken n0 b D k0 log d n" and ring: "cq_ring b D (k0 + d) (drop d log) p (ram w)"
  obtains c n' w' p' where "d + c \<le> m" "d + c \<le> length log" "min (min (m - d) 65535) p \<le> c"
    "taken n0 b D k0 log (d + c) n'" "cq_ring b D (k0 + (d + c)) (drop (d + c) log) p' (ram w')"
    "c = 0 \<and> d < length log \<longrightarrow> rank (sys w') < rank (sys w)"
    "getevents_loop E ct mn mx tm (int d) n w = (if l \<le> d + c then Some (Inr (int (d + c), n', w'))
      else case tm of None \<Rightarrow> getevents_loop E ct mn mx tm (int (d + c)) n' w'
      | Some (timeout, t0) \<Rightarrow>
          (case hw_act (sys_clock_gettime E) w' of (t1, w'') \<Rightarrow>
           if elapsed_ns t0 t1 > timeout then Some (Inr (int (d + c), n', w''))
           else getevents_loop E ct mn mx tm (int (d + c)) n' w''))"
proof -
  let ?max = "sint (mx - word_of_int (int d))"
  have max_n: "?max = int (m - d)" "0 < ?max" using room_left [OF mx] d(1) by simp_all
  have lim: "poll_limit ?max = min (m - d) 65535" unfolding poll_limit_def max_n(1) by (auto simp: min_def)
  obtain c n' w' p' where poll: "poll_cq E ct n ?max w = Inr (of_nat c, n', w')"
    and c: "c \<le> poll_limit ?max" "d + c \<le> length log" "min (poll_limit ?max) p \<le> c"
    and post: "taken n0 b D k0 log (d + c) n'" "cq_ring b D (k0 + (d + c)) (drop (d + c) log) p' (ram w')"
      "c = 0 \<and> d < length log \<longrightarrow> rank (sys w') < rank (sys w)"
    by (rule poll_taken [OF serves ok t d(2) ring max_n(2)])
  note c = c [unfolded lim]
  have "c < 2 ^ 16" using c(1) by simp
  then have sum: "int d + uint (of_nat c :: u16) = int (d + c)" by (simp add: unsigned_of_nat take_bit_nat_eq_self)
  have dc: "d + c \<le> m" using c(1) d(1) by auto
  note loop = getevents_loop.simps [of E ct mn mx tm "int d" n w, unfolded poll sum.case prod.case sum mn of_nat_le_iff]
  show thesis by (rule that [OF dc c(2,3) post loop])
qed

text \<open>What the loop returns, given that \<open>d\<close> completions were taken and \<open>p\<close> more are posted.\<close>

definition reaped ::
  "nvme_data \<Rightarrow> u64 \<Rightarrow> nat \<Rightarrow> nat \<Rightarrow> nvme_cq_entry list \<Rightarrow> nat \<Rightarrow> nat \<Rightarrow> 'a option \<Rightarrow> nat \<Rightarrow> nat
     \<Rightarrow> (fatal + int \<times> nvme_data \<times> 's world) option \<Rightarrow> bool" where
  "reaped n0 b D k0 log l m tm d p r \<longleftrightarrow>
     (\<exists>k n' w'. r = Some (Inr (int k, n', w')) \<and> (tm = None \<longrightarrow> l \<le> k) \<and> d \<le> k \<and> k \<le> m \<and> k \<le> length log
        \<and> min (min (m - d) 65535) p \<le> k - d \<and> taken n0 b D k0 log k n')"

lemma reaped_stop:
  assumes "taken n0 b D k0 log (d + c) n'" and "d + c \<le> m" and "d + c \<le> length log" and "min (min (m - d) 65535) p \<le> c"
    and "tm \<noteq> None \<or> l \<le> d + c"
  shows "reaped n0 b D k0 log l m tm d p (Some (Inr (int (d + c), n', w')))"
  unfolding reaped_def using assms by (intro exI [of _ "d + c"] exI [of _ n'] exI [of _ w']) auto

lemma reaped_later:
  assumes "reaped n0 b D k0 log l m tm (d + c) p' r" and "min (min (m - d) 65535) p \<le> c"
  shows "reaped n0 b D k0 log l m tm d p r"
proof -
  obtain k n' w' where k: "r = Some (Inr (int k, n', w'))" "tm = None \<longrightarrow> l \<le> k" "d + c \<le> k" "k \<le> m" "k \<le> length log"
    "taken n0 b D k0 log k n'" using assms(1) unfolding reaped_def by blast
  then have "min (min (m - d) 65535) p \<le> k - d" using assms(2) by linarith
  with k show ?thesis unfolding reaped_def by auto
qed

lemma getevents_loop_returns:
  assumes serves: "cq_serves E rank (bar0_virt ct + ucast (io_cq_head_db n0)) b D k0 log" and ok: "completable n0 log"
    and mx: "sint mx = int m" and mn: "sint mn = int l" and l: "l \<le> m" "l \<le> length log"
  shows "taken n0 b D k0 log d n \<Longrightarrow> d < m \<Longrightarrow> d = 0 \<or> d < l \<Longrightarrow> cq_ring b D (k0 + d) (drop d log) p (ram w) \<Longrightarrow>
    reaped n0 b D k0 log l m tm d p (getevents_loop E ct mn mx tm (int d) n w)"
proof (induction "(length log - d, rank (sys w))" arbitrary: d n w p
    rule: wf_induct_rule [OF wf_lex_prod [OF wf_less_than wf_less_than]])
  case (1 d w n p)
  have d: "d \<le> length log" using "1.prems"(3) l by auto
  obtain c n' w' p' where c: "d + c \<le> m" "d + c \<le> length log" "min (min (m - d) 65535) p \<le> c"
    and t': "taken n0 b D k0 log (d + c) n'" and ring: "cq_ring b D (k0 + (d + c)) (drop (d + c) log) p' (ram w')"
    and rank: "c = 0 \<and> d < length log \<longrightarrow> rank (sys w') < rank (sys w)"
    and body: "getevents_loop E ct mn mx tm (int d) n w = (if l \<le> d + c then Some (Inr (int (d + c), n', w'))
      else case tm of None \<Rightarrow> getevents_loop E ct mn mx tm (int (d + c)) n' w'
      | Some (timeout, t0) \<Rightarrow>
          (case hw_act (sys_clock_gettime E) w' of (t1, w'') \<Rightarrow>
           if elapsed_ns t0 t1 > timeout then Some (Inr (int (d + c), n', w''))
           else getevents_loop E ct mn mx tm (int (d + c)) n' w''))"
    by (rule getevents_round [OF serves ok mx mn "1.prems"(2) d "1.prems"(1,4)])
  note stop = reaped_stop [OF t' c]
  have again: "reaped n0 b D k0 log l m tm d p (getevents_loop E ct mn mx tm (int (d + c)) n' w'')"
    if more: "\<not> l \<le> d + c" and w'': "ram w'' = ram w'" "rank (sys w'') \<le> rank (sys w')" for w''
  proof -
    have "((length log - (d + c), rank (sys w'')), (length log - d, rank (sys w))) \<in> less_than <*lex*> less_than"
      using rank w'' more l(2) by (cases "c = 0") auto
    moreover have "d + c < m" "d + c = 0 \<or> d + c < l" using more l by simp_all
    ultimately have "reaped n0 b D k0 log l m tm (d + c) p' (getevents_loop E ct mn mx tm (int (d + c)) n' w'')"
      using "1.hyps" [OF _ t' _ _ ring [folded w''(1)]] by blast
    then show ?thesis using c(3) by (rule reaped_later)
  qed
  show ?case
  proof (cases "l \<le> d + c \<or> tm = None")
    case True
    then show ?thesis unfolding body using stop again [of w'] by auto
  next
    case False
    then obtain timeout t0 where tm: "tm = Some (timeout, t0)" by (metis option.exhaust prod.exhaust)
    obtain t1 w2 where clk: "hw_act (sys_clock_gettime E) w' = (t1, w2)" by (rule prod.exhaust)
    show ?thesis
      unfolding body using False stop [of tm l w2] again [OF _ serves_clock [OF serves clk]] by (simp add: tm clk)
  qed
qed

section \<open>Properties\<close>

lemma getevents_returns:
  assumes td: "io_ops_data td = Some n" "ctrl n = Some a" "ctrls s a = Some c"
    and serves: "cq_serves E rank (bar0_virt c + ucast (io_cq_head_db n)) b D k0 log"
    and ok: "completable n log" and sync: "cq_synced n b D k0" and ring: "cq_ring b D k0 log p (ram w)"
    and mn: "sint mn = int l" and mx: "sint mx = int m" and l: "l \<le> m" "l \<le> length log" and m: "0 < m"
  shows "\<exists>k n' w'. nvme_getevents E td mn mx t s w = Inr (Some (Inr (int k, n', w')))
    \<and> (t = None \<longrightarrow> l \<le> k) \<and> k \<le> m \<and> k \<le> length log \<and> k \<le> 65536 \<and> min (min m 65535) p \<le> k
    \<and> (\<forall>i. nvme_event (td\<lparr>io_ops_data := Some n'\<rparr>) i
          = (if 0 \<le> i \<and> i < int k then cmd_io_u n (cqe_cid (log ! nat i)) else None))
    \<and> (\<forall>cid. cmd_io_u n' cid = (if cid \<in> cqe_cid ` set (take k log) then None else cmd_io_u n cid))
    \<and> cq_synced n' b D (k0 + k)"
proof -
  let ?n = "n\<lparr>nr_events := 0\<rparr>"
  have start: "taken ?n b D k0 log 0 ?n" using sync by (simp add: taken_def cq_synced_def)
  have serves': "cq_serves E rank (bar0_virt c + ucast (io_cq_head_db ?n)) b D k0 log" using serves by simp
  have ok': "completable ?n log" using ok by (simp add: completable_def)
  have event: "nvme_event (td\<lparr>io_ops_data := Some n'\<rparr>) i
      = (if 0 \<le> i \<and> i < int k then cmd_io_u n (cqe_cid (log ! nat i)) else None)" if "taken ?n b D k0 log k n'" for n' k i
    using that by (auto simp: nvme_event_def taken_def nat_less_iff)
  have loop: "\<exists>k n' w'. getevents_loop E c mn mx t' 0 ?n w1 = Some (Inr (int k, n', w')) \<and> (t' = None \<longrightarrow> l \<le> k) \<and> k \<le> m
      \<and> k \<le> length log \<and> min (min m 65535) p \<le> k \<and> taken ?n b D k0 log k n'" if "ram w1 = ram w" for t' w1
    using getevents_loop_returns [OF serves' ok' mx mn l start m, of p w1 t'] ring that by (simp add: reaped_def)
  have run: "\<exists>t' w1. nvme_getevents E td mn mx t s w = Inr (getevents_loop E c mn mx t' 0 ?n w1)
      \<and> ram w1 = ram w \<and> (t' = None \<longleftrightarrow> t = None)"
  proof (cases t)
    case None
    then show ?thesis using td by (auto simp: nvme_getevents_def deref_opt_def deref_def)
  next
    case (Some tv)
    obtain t0 w1 where clk: "hw_act (sys_clock_gettime E) w = (t0, w1)" by (rule prod.exhaust)
    show ?thesis using td Some clk serves_clock(1) [OF serves clk]
      by (intro exI [of _ "Some (word_of_int (fst tv * 1000000000 + snd tv), t0)"] exI [of _ w1])
        (simp add: nvme_getevents_def deref_opt_def deref_def)
  qed
  then obtain t' w1 where t': "nvme_getevents E td mn mx t s w = Inr (getevents_loop E c mn mx t' 0 ?n w1)"
    "ram w1 = ram w" "t' = None \<longleftrightarrow> t = None" by blast
  from loop [OF t'(2), of t'] obtain k n' w' where k: "getevents_loop E c mn mx t' 0 ?n w1 = Some (Inr (int k, n', w'))"
    "t' = None \<longrightarrow> l \<le> k" "k \<le> m" "k \<le> length log" "min (min m 65535) p \<le> k" "taken ?n b D k0 log k n'" by blast
  show ?thesis
    using t' k event [OF k(6)] le_trans [OF k(4) completable_length [OF ok]] by (intro exI [of _ k] exI [of _ n'] exI [of _ w']) (simp add: taken_def)
qed

text \<open>
  C32: \<^verbatim>\<open>nvme_getevents\<close> returns. With a device that will eventually post the completions \<open>log\<close> (each of
  a different outstanding command, at least \<open>min\<close> of them), the call ends; without a timeout it ends
  with at least \<open>min\<close> and never more than \<open>max\<close> completions, including those that were posted before
  the call, and never more than the \<^verbatim>\<open>events\<close> array holds. \<^verbatim>\<open>nvme_event\<close> then gives the requests of these commands in the order in which the device
  completed them and nothing else, exactly these commands are no longer outstanding, and the head
  of the completion queue is at the next entry.
\<close>

theorem nvme_getevents_returns:
  assumes td: "io_ops_data td = Some n" "ctrl n = Some a" "ctrls s a = Some c"
    and serves: "cq_serves E rank (bar0_virt c + ucast (io_cq_head_db n)) b D k0 log"
    and ok: "completable n log" and sync: "cq_synced n b D k0" and ring: "cq_ring b D k0 log p (ram w)"
    and mn: "sint mn = int l" and mx: "sint mx = int m" and l: "l \<le> m" "l \<le> length log" and m: "0 < m"
  shows "\<exists>k n' w'. nvme_getevents E td mn mx t s w = Inr (Some (Inr (int k, n', w')))
    \<and> (t = None \<longrightarrow> l \<le> k) \<and> k \<le> m \<and> k \<le> length log \<and> k \<le> 65536 \<and> min (min m 65535) p \<le> k
    \<and> (\<forall>i. nvme_event (td\<lparr>io_ops_data := Some n'\<rparr>) i
          = (if 0 \<le> i \<and> i < int k then cmd_io_u n (cqe_cid (log ! nat i)) else None))
    \<and> (\<forall>cid. cmd_io_u n' cid = (if cid \<in> cqe_cid ` set (take k log) then None else cmd_io_u n cid))
    \<and> cq_synced n' b D (k0 + k)"
  by (rule getevents_returns [OF assms])

section \<open>Witness\<close>

text \<open>A device that posts the two sample completions at its first step.\<close>

definition posting_env :: "unit env" where
  "posting_env = idle_env\<lparr>hw_step := \<lambda>(r, s). (sample_cq_ram, s)\<rparr>"

definition unposted_ram :: ram where
  "unposted_ram = (\<lambda>_. 0)(0x100e := 1, 0x101e := 1, 0x102e := 1)"

lemma unposted_ring: "cq_ring 0x1000 4 3 sample_log 0 unposted_ram"
proof -
  have "psf_p (load16 unposted_ram (cqe_addr 0x1000 4 (3 + i) + 14)) \<noteq> ucast (phase_tag_at 4 (3 + i))" if "i < 4" for i
  proof -
    from that have "i = 0 \<or> i = 1 \<or> i = 2 \<or> i = 3" by auto
    then show ?thesis
      by (auto simp: psf_p_def phase_at_def cqe_addr_def unposted_ram_def load16_def load_bytes_def upt_rec)
  qed
  then show ?thesis using sample_cq_ring by (simp add: cq_ring_def)
qed

lemma posting_serves: "cq_serves posting_env (\<lambda>_. 0) db 0x1000 4 3 sample_log"
proof -
  have len: "length sample_log = 2" by (simp add: sample_log_def)
  have post: "cq_ring 0x1000 4 (3 + j) (drop j sample_log) (2 - j) sample_cq_ram" if "j \<le> 2" for j
    by (rule cq_ring_shift [OF sample_cq_ring that]) simp
  have "cq_device posting_env 0x1000 4 (3 + j) (drop j sample_log)" if "j \<le> 2" for j
    unfolding cq_device_def
  proof (intro allI impI)
    fix r s p
    assume "cq_ring 0x1000 4 (3 + j) (drop j sample_log) p r"
    then have "p \<le> 2 - j" by (simp add: cq_ring_def len)
    then show "\<exists>p' \<ge> p. cq_ring 0x1000 4 (3 + j) (drop j sample_log) p' (fst (hw_step posting_env (r, s)))"
      using post [OF that] by (auto simp: posting_env_def)
  qed
  moreover have "\<not> cq_ring 0x1000 4 (3 + j) (drop j sample_log) 0 sample_cq_ram" if "j < 2" for j
    using cq_ring_empty [of "0x1000" 4 "3 + j" "drop j sample_log" 0 sample_cq_ram]
      cq_ring_posted(1,4) [OF post, of j 0] that by auto
  ultimately show ?thesis
    unfolding cq_serves_def len by (auto simp: posting_env_def idle_env_def)
qed

theorem nvme_getevents_returns_witness:
  "\<exists>n' w'. nvme_getevents posting_env
       \<lparr>o_nr_files = 1, o_use_thread = True, o_iodepth = 3, o_num_range = 1, o_filename = None, td_files = [],
        io_ops_data = Some (sample_cq\<lparr>ctrl := Some 0\<rparr>), orig_buffer = 0, td_error = 0\<rparr> 2 8 None
       \<lparr>ctrls = [0 \<mapsto> controller_zero], ctrl_brk = 1, g_ctrl = Some 0, curr_thread_num = 1, next_io_qid = 2\<rparr>
       (idle_world\<lparr>ram := unposted_ram\<rparr>) = Inr (Some (Inr (2, n', w')))
     \<and> events n' 0 = Some 40 \<and> events n' 1 = Some 41"
proof -
  let ?n = "sample_cq\<lparr>ctrl := Some 0\<rparr>"
  let ?td = "\<lparr>o_nr_files = 1, o_use_thread = True, o_iodepth = 3, o_num_range = 1, o_filename = None, td_files = [],
        io_ops_data = Some ?n, orig_buffer = 0, td_error = 0\<rparr>"
  let ?s = "\<lparr>ctrls = [0 \<mapsto> controller_zero], ctrl_brk = 1, g_ctrl = Some 0, curr_thread_num = 1, next_io_qid = 2\<rparr>"
  let ?w = "idle_world\<lparr>ram := unposted_ram\<rparr>"
  have td: "io_ops_data ?td = Some ?n" "ctrl ?n = Some 0" "ctrls ?s 0 = Some controller_zero" by simp_all
  have ok: "completable ?n sample_log"
    using sample_log_fields by (auto simp: completable_def sample_log_def sample_cq_def psf_sct_def psf_sc_def)
  have sync: "cq_synced ?n 0x1000 4 3" using sample_cq_synced by (simp add: cq_synced_def)
  have ring: "cq_ring 0x1000 4 3 sample_log 0 (ram ?w)" using unposted_ring by simp
  have len: "length sample_log = 2" by (simp add: sample_log_def)
  obtain k n' w' where k: "nvme_getevents posting_env ?td 2 8 None ?s ?w = Inr (Some (Inr (int k, n', w')))"
    "2 \<le> k" "k \<le> 2"
    and ev: "\<forall>i. nvme_event (?td\<lparr>io_ops_data := Some n'\<rparr>) i
          = (if 0 \<le> i \<and> i < int k then cmd_io_u ?n (cqe_cid (sample_log ! nat i)) else None)"
    using nvme_getevents_returns [OF td posting_serves ok sync ring, of 2 2 8 8 None] unfolding len by auto
  have "k = 2" using k by simp
  moreover have "cqe_cid (sample_log ! 0) = 7" "cqe_cid (sample_log ! 1) = 8" using sample_log_fields(1) by (simp_all add: sample_log_def)
  ultimately have "nvme_event (?td\<lparr>io_ops_data := Some n'\<rparr>) 0 = Some 40" "nvme_event (?td\<lparr>io_ops_data := Some n'\<rparr>) 1 = Some 41"
    using ev by (simp_all add: sample_cq_def)
  then have "events n' 0 = Some 40" "events n' 1 = Some 41" by (simp_all add: nvme_event_def split: if_splits)
  then show ?thesis using k(1) \<open>k = 2\<close> by auto
qed

end
