(* ===== verification/Engine_Setup.thy ===== *)
theory Engine_Setup
  imports Engine
begin

text \<open>
  Creating the shared controller: \<^verbatim>\<open>nvme_setup\<close> composed with the name parser and the controller's
  initialisation.
\<close>

lemma strtoul_trace: "strtoul b p w = (v, q, w') \<Longrightarrow> trace w' = trace w"
  by (auto simp: strtoul_def Let_def split: prod.splits if_splits)

lemma parse_field_trace: "parse_ulong_field p b m d w = (r, w') \<Longrightarrow> trace w' = trace w"
  by (auto simp: parse_ulong_field_def Let_def dest!: strtoul_trace split: prod.splits if_splits option.splits list.splits)

lemma parse_target_fresh:
  assumes "parse_target E f w = (cp, w')"
  shows "trace w' = trace w" and "cp = Some c \<Longrightarrow> released c"
  using assms
  by (auto simp: parse_target_def released_def controller_zero_def mem_valid_def mem_zero_def
      dest!: parse_field_trace trace_hw_act split: prod.splits if_splits option.splits)

text \<open>The critical section: the controller is created, or nothing is kept.\<close>

lemma setup_ctrl_outcome:
  assumes "dma_service E" and "g_ctrl s = None" and "ctrls s = Map.empty"
    and run: "setup_ctrl E td s w = (ok, td', s', w')"
  shows "if ok
    then \<exists>a c cap. g_ctrl s' = Some a \<and> ctrls s' = [a \<mapsto> c] \<and> admin_ready c cap \<and> td' = td
      \<and> (\<forall>x. fd_balance w' x = fd_balance w x + ctrl_fds c x) \<and> (\<forall>y. map_balance w' y = map_balance w y + ctrl_maps c y)
    else g_ctrl s' = None \<and> ctrls s' = Map.empty \<and> td' = td\<lparr>td_error := EINVAL\<rparr>
      \<and> fd_balance w' = fd_balance w \<and> map_balance w' = map_balance w"
proof -
  obtain cp w1 where 1: "parse_target E (target_name td None) w = (cp, w1)" by (rule prod.exhaust)
  note fresh = parse_target_fresh [OF 1]
  have b1: "fd_balance w1 = fd_balance w" "map_balance w1 = map_balance w" using fresh(1) by (simp_all add: balance_defs fun_eq_iff)
  show ?thesis
  proof (cases cp)
    case None
    then have "ok = False" "td' = td\<lparr>td_error := EINVAL\<rparr>" "s' = s" "w' = w1" using run assms(2) 1 by (simp_all add: setup_ctrl_def)
    then show ?thesis using assms(2,3) b1 by simp
  next
    case (Some c)
    obtain ok2 cp2 w2 where 2: "controller_init E (Some c) w1 = (ok2, cp2, w2)" by (rule prod_cases3)
    note rel = fresh(2) [OF Some]
    obtain c2 where c2: "cp2 = Some c2" "stage_ok c w1 ok2 c2 w2"
      by (rule dma_service.controller_init_stage [OF assms(1) 2 rel])
    then have acc: "accounts c w1 c2 w2" and out: "\<not> ok2 \<Longrightarrow> released c2" by (simp_all add: stage_ok_def)
    note bal = accounts_released [OF acc rel]
    let ?a = "ctrl_brk s"
    show ?thesis
    proof (cases ok2)
      case True
      have 3: "controller_init E (Some c) w1 = (True, cp2, w2)" using 2 True by simp
      obtain cap where ready: "admin_ready c2 cap"
        by (rule dma_service.controller_init_ready [OF assms(1) 3 rel]) (use c2 in auto)
      have r: "ok" "td' = td" "g_ctrl s' = Some ?a" "ctrls s' = [?a \<mapsto> c2]" "w' = w2"
        using run assms(2,3) 1 Some 2 True c2 by (auto simp: setup_ctrl_def Let_def)
      with ready bal b1 show ?thesis by auto
    next
      case False
      have r: "ok = False" "td' = td\<lparr>td_error := EINVAL\<rparr>" "g_ctrl s' = None" "ctrls s' = Map.empty" "w' = w2"
        using run assms(2,3) 1 Some 2 False by (auto simp: setup_ctrl_def Let_def)
      have "fd_balance w' = fd_balance w" "map_balance w' = map_balance w"
        using bal b1 out [OF False] by (auto simp: r(5) fun_eq_iff)
      then show ?thesis using r by simp
    qed
  qed
qed

lemma nvme_size_outcome:
  assumes "dma_service E" and "g_ctrl s = Some a" and "ctrls s = [a \<mapsto> c]"
  obtains (failed) s' w' c' where "nvme_size E td f s w = Inr (1, td\<lparr>td_error := EINVAL\<rparr>, f, s', w')"
      "g_ctrl s' = Some a" "ctrls s' = [a \<mapsto> c']" "sized_frame c c'" "fd_balance w' = fd_balance w" "map_balance w' = map_balance w"
  | (ok) f' s' w' c' where "nvme_size E td f s w = Inr (0, td, f', s', w')" "file_name f' = file_name f" "size_known f'"
      "real_file_size f' \<noteq> 0" "real_file_size f' = ns_size c'"
      "g_ctrl s' = Some a" "ctrls s' = [a \<mapsto> c']" "sized_frame c c'" "fd_balance w' = fd_balance w" "map_balance w' = map_balance w"
proof -
  obtain sz cp w1 where g: "nvme_get_file_size E (Some c) w = (sz, cp, w1)" by (rule prod_cases3)
  obtain c' where c': "cp = Some c'" "fd_balance w1 = fd_balance w" "map_balance w1 = map_balance w" "sized_frame c c'"
    "sz \<noteq> 0 \<longrightarrow> ns_size c' = sz"
    by (rule dma_service.get_file_size_outcome [OF assms(1) g])
  let ?s = "s\<lparr>ctrls := [a \<mapsto> c']\<rparr>"
  have run: "nvme_size E td f s w =
      (if sz = 0 then Inr (1, td\<lparr>td_error := EINVAL\<rparr>, f, ?s, w1) else Inr (0, td, f\<lparr>real_file_size := sz, size_known := True\<rparr>, ?s, w1))"
    using assms(2,3) g c'(1) by (simp add: nvme_size_def deref_def Let_def)
  show thesis
  proof (cases "sz = 0")
    case True
    then show ?thesis using run c' assms(2) by (intro failed [of ?s w1 c']) simp_all
  next
    case False
    then show ?thesis
      using run c' assms(2) by (intro ok [of "f\<lparr>real_file_size := sz, size_known := True\<rparr>" ?s w1 c']) simp_all
  qed
qed

text \<open>The size queries of all files: they stop at the first that fails.\<close>

lemma setup_sizes_outcome:
  assumes "dma_service E" and "g_ctrl s = Some a" and "ctrls s = [a \<mapsto> c]"
  shows "\<exists>r td' fs' s' w' c'. setup_sizes E td fs s w = Inr (r, td', fs', s', w') \<and> g_ctrl s' = Some a \<and> ctrls s' = [a \<mapsto> c']
    \<and> sized_frame c c' \<and> fd_balance w' = fd_balance w \<and> map_balance w' = map_balance w \<and> map file_name fs' = map file_name fs
    \<and> (if r = 0 then td' = td \<and> (\<forall>f\<in>set fs'. size_known f \<and> real_file_size f \<noteq> 0)
          \<and> (fs' \<noteq> [] \<longrightarrow> real_file_size (last fs') = ns_size c')
       else r = 1 \<and> td' = td\<lparr>td_error := EINVAL\<rparr>)"
  using assms(2,3)
proof (induction fs arbitrary: s c w)
  case Nil
  then show ?case
    by (intro exI [of _ 0] exI [of _ td] exI [of _ "[]"] exI [of _ s] exI [of _ w] exI [of _ c]) (simp add: sized_frame_refl)
next
  case (Cons f fs)
  show ?case
  proof (cases rule: nvme_size_outcome [OF assms(1) Cons.prems, of td f w])
    case (1 s' w' c')
    then show ?thesis by (intro exI [of _ 1] exI [of _ "td\<lparr>td_error := EINVAL\<rparr>"] exI [of _ "f # fs"] exI [of _ s'] exI [of _ w'] exI [of _ c']) simp
  next
    case (2 f' s1 w1 c1)
    from Cons.IH [OF 2(6,7), of w1] obtain r td' fs' s' w' c' where
      ih: "setup_sizes E td fs s1 w1 = Inr (r, td', fs', s', w')" "g_ctrl s' = Some a" "ctrls s' = [a \<mapsto> c']"
      "sized_frame c1 c'" "fd_balance w' = fd_balance w1" "map_balance w' = map_balance w1" "map file_name fs' = map file_name fs"
      "if r = 0 then td' = td \<and> (\<forall>f\<in>set fs'. size_known f \<and> real_file_size f \<noteq> 0)
          \<and> (fs' \<noteq> [] \<longrightarrow> real_file_size (last fs') = ns_size c') else r = 1 \<and> td' = td\<lparr>td_error := EINVAL\<rparr>"
      by blast
    have "fs' = [] \<Longrightarrow> r = 0 \<Longrightarrow> c' = c1" using ih(1,3,7) 2(7) by (auto split: sum.splits dest!: fun_cong [where x = a])
    then show ?thesis
      using ih 2 sized_frame_trans [OF 2(8) ih(4)]
      by (intro exI [of _ r] exI [of _ td'] exI [of _ "f' # fs'"] exI [of _ s'] exI [of _ w'] exI [of _ c']) (auto split: if_splits)
  qed
qed

text \<open>
  C39: The first \<^verbatim>\<open>nvme_setup\<close> always returns, in one of four ways. With more than one file it fails and does
  nothing. If the target name is bad or the controller cannot be initialised it fails with \<^verbatim>\<open>EINVAL\<close>, there
  is no controller, and every descriptor and mapping is given back. Otherwise there is the one shared
  controller, initialised with its admin queues in use and apart from the positions in these queues and the
  namespace size still as \<^verbatim>\<open>controller_init\<close> left it; its structure accounts for every descriptor and mapping
  that is new, and a later call keeps it. Then either every file has a known, non-zero size, that of the
  namespace, and the result is 0; or the size query failed, the result is 1 with \<^verbatim>\<open>EINVAL\<close>, and the controller
  with all its resources stays allocated.
\<close>

theorem setup_creates_one_controller:
  assumes "dma_service E" and "g_ctrl s = None" and "ctrls s = Map.empty"
  shows "\<exists>r td' s' w'. nvme_setup E td s w = Inr (r, td', s', w')
    \<and> (if o_nr_files td > 1 then r = 1 \<and> td' = td \<and> s' = s \<and> w' = w
       else if g_ctrl s' = None
       then r = 1 \<and> ctrls s' = Map.empty \<and> td' = td\<lparr>td_error := EINVAL\<rparr> \<and> fd_balance w' = fd_balance w \<and> map_balance w' = map_balance w
       else \<exists>a c0 c cap. g_ctrl s' = Some a \<and> ctrls s' = [a \<mapsto> c] \<and> admin_ready c0 cap \<and> sized_frame c0 c
         \<and> (\<forall>x. fd_balance w' x = fd_balance w x + ctrl_fds c x) \<and> (\<forall>y. map_balance w' y = map_balance w y + ctrl_maps c y)
         \<and> (\<forall>td2 w2. setup_ctrl E td2 s' w2 = (True, td2, s', w2))
         \<and> map file_name (td_files td') = map file_name (td_files td)
         \<and> (if r = 0
            then td_error td' = td_error td \<and> (\<forall>f\<in>set (td_files td'). size_known f \<and> real_file_size f \<noteq> 0)
              \<and> (td_files td' \<noteq> [] \<longrightarrow> real_file_size (last (td_files td')) = ns_size c)
            else r = 1 \<and> td_error td' = EINVAL))"
proof -
  obtain ok td1 s1 w1 where 1: "setup_ctrl E td s w = (ok, td1, s1, w1)" by (rule prod_cases4)
  note o1 = setup_ctrl_outcome [OF assms 1]
  consider "o_nr_files td > 1" | "\<not> o_nr_files td > 1" "\<not> ok" | "\<not> o_nr_files td > 1" ok by blast
  then show ?thesis
  proof cases
    case 3
    then obtain a c0 cap where c0: "g_ctrl s1 = Some a" "ctrls s1 = [a \<mapsto> c0]" "admin_ready c0 cap" "td1 = td"
      "\<forall>x. fd_balance w1 x = fd_balance w x + ctrl_fds c0 x" "\<forall>y. map_balance w1 y = map_balance w y + ctrl_maps c0 y"
      using o1 by auto
    from setup_sizes_outcome [OF assms(1) c0(1,2), of td "td_files td" w1] obtain r td' fs' s' w' c where
      z: "setup_sizes E td (td_files td) s1 w1 = Inr (r, td', fs', s', w')" "g_ctrl s' = Some a" "ctrls s' = [a \<mapsto> c]"
      "sized_frame c0 c" "fd_balance w' = fd_balance w1" "map_balance w' = map_balance w1" "map file_name fs' = map file_name (td_files td)"
      "if r = 0 then td' = td \<and> (\<forall>f\<in>set fs'. size_known f \<and> real_file_size f \<noteq> 0)
          \<and> (fs' \<noteq> [] \<longrightarrow> real_file_size (last fs') = ns_size c) else r = 1 \<and> td' = td\<lparr>td_error := EINVAL\<rparr>"
      by blast
    have "nvme_setup E td s w = Inr (r, td'\<lparr>td_files := fs'\<rparr>, s', w')" using 3 1 z(1) c0(4) by (simp add: nvme_setup_def)
    moreover have "setup_ctrl E td2 s' w2 = (True, td2, s', w2)" for td2 w2 using z(2) by (simp add: setup_ctrl_def)
    moreover have "td_error td' = (if r = 0 then td_error td else EINVAL)" using z(8) by (auto split: if_splits)
    ultimately show ?thesis
      using 3 c0(3,5,6) z sized_frame_fields [OF z(4)]
      by (intro exI [of _ r] exI [of _ "td'\<lparr>td_files := fs'\<rparr>"] exI [of _ s'] exI [of _ w'])
        (simp only: if_False option.distinct, intro conjI exI [of _ a] exI [of _ c0] exI [of _ c] exI [of _ cap],
          simp_all split: if_splits)
  qed (use 1 o1 in \<open>auto simp: nvme_setup_def\<close>)
qed

text \<open>The sample device of the controller's theory, found under its name.\<close>

definition boot_td :: thread_data where
  "boot_td = \<lparr>o_nr_files = 1, o_use_thread = True, o_iodepth = 3, o_num_range = 1, o_filename = Some ''1:0.0,1'', td_files = [],
     io_ops_data = None, orig_buffer = 0, td_error = 0\<rparr>"

definition boot_engine :: engine where
  "boot_engine = \<lparr>ctrls = Map.empty, ctrl_brk = 0, g_ctrl = None, curr_thread_num = 0, next_io_qid = 1\<rparr>"

lemma boot_parse: "parse_target boot_env (Some ''1:0.0,1'') boot_world = (Some boot_ctrl, boot_world)"
  by (auto simp: parse_target_def parse_ulong_field_def strtoul_def is_space_def is_digit_def digit_val_def
        digits_val_def hw_act_def boot_env_def boot_world_def boot_ctrl_def controller_zero_def)

lemma boot_setup:
  obtains s w where "setup_ctrl boot_env boot_td boot_engine boot_world = (True, boot_td, s, w)" "g_ctrl s = Some 0"
proof -
  obtain ok cp w1 where init: "controller_init boot_env (Some boot_ctrl) boot_world = (ok, cp, w1)" by (rule prod_cases3)
  have ok using boot_init_ok init by simp
  have "target_name boot_td None = Some ''1:0.0,1''" by (simp add: target_name_def boot_td_def)
  then have "\<exists>s. setup_ctrl boot_env boot_td boot_engine boot_world = (True, boot_td, s, w1) \<and> g_ctrl s = Some 0"
    using \<open>ok\<close> by (simp add: setup_ctrl_def boot_parse init Let_def boot_engine_def)
  with that show thesis by blast
qed

theorem setup_creates_one_controller_witness:
  "\<exists>td s w a c. nvme_setup boot_env boot_td boot_engine boot_world = Inr (0, td, s, w)
     \<and> g_ctrl s = Some a \<and> ctrls s = [a \<mapsto> c] \<and> fd_balance w 3 = ctrl_fds c 3"
proof -
  obtain s w where run: "setup_ctrl boot_env boot_td boot_engine boot_world = (True, boot_td, s, w)" "g_ctrl s = Some 0"
    by (rule boot_setup)
  have pre: "g_ctrl boot_engine = None" "ctrls boot_engine = Map.empty" "\<not> o_nr_files boot_td > 1" "td_files boot_td = []"
    by (simp_all add: boot_engine_def boot_td_def)
  then have su: "nvme_setup boot_env boot_td boot_engine boot_world = Inr (0, boot_td\<lparr>td_files := []\<rparr>, s, w)"
    using run by (simp add: nvme_setup_def)
  have "fd_balance boot_world 3 = 0" by (simp add: fd_balance_def boot_world_def)
  then show ?thesis
    using setup_creates_one_controller [OF boot.dma_service_axioms pre(1,2), of boot_td boot_world] su run(2) pre(3) by auto
qed

end
