(* ===== verification/Engine_Inv.thy ===== *)
theory Engine_Inv
  imports Engine_Setup
begin

text \<open>
  The engine as a transition system: any number of fio threads that call the callbacks in any order
  that fio allows (a thread initialises its engine data once before it cleans it up). The callbacks
  that touch the shared controller run under \<^verbatim>\<open>g_mutex\<close> or, like queueing and polling, only read it, so
  every callback is one step. \<^verbatim>\<open>nvme_setup\<close> releases the mutex between creating the controller and each
  size query; the first part alone is therefore also a step, and a size query is one anyway.
  \<^verbatim>\<open>nvme_alloc\<close> takes no mutex; it changes the controller only when it has to open the DMA device.
\<close>

section \<open>What the callbacks keep\<close>

lemma create_keeps_ctrl:
  assumes "create_io_queue_pair E c (Some n) w = (ok, c', np, w')"
  obtains n' where "np = Some n'" "ctrl n' = ctrl n"
proof (cases rule: create_pair_cases [OF assms])
  case 1
  then show ?thesis using that by blast
next
  case (2 cap w1)
  let ?sd = "effective_depth cap (io_sq_depth n)" and ?cd = "effective_depth cap (io_cq_depth n)"
  obtain ok2 c2 n2 w2 where a: "create_alloc E ?sd ?cd c n w1 = (ok2, c2, n2, w2)" by (rule prod_cases4)
  obtain ok3 c3 n3 w3 where b: "create_commands E cap (nvme_io_qid n) ?sd ?cd c2 n2 w2 = (ok3, c3, n3, w3)" by (rule prod_cases4)
  have "ctrl n2 = ctrl n" using a by (auto simp: create_alloc_def Let_def split: prod.splits if_splits)
  moreover have "ctrl n3 = ctrl n2" using create_commands_outcome(1) [OF b] by (simp add: create_fields_def)
  ultimately show ?thesis using 2(6) a b that by (auto split: if_splits)
qed

lemma poll_loop_ctrl: "poll_loop E m count cur n w = Inr (k, cur', n', w') \<Longrightarrow> ctrl n' = ctrl n"
proof (induction E m count cur n w rule: poll_loop.induct)
  case (1 E m count cur n w)
  obtain head tag cqe where cur: "cur = (head, tag, cqe)" by (rule prod_cases3)
  obtain psf w1 where v1: "vload16 E (cqe + 14) w = (psf, w1)" by (rule prod.exhaust)
  obtain cid w2 where v2: "vload16 E (cqe + 12) w1 = (cid, w2)" by (rule prod.exhaust)
  obtain cid' w3 where v3: "vload16 E (cqe + 12) w2 = (cid', w3)" by (rule prod.exhaust)
  obtain sqhd w4 where v4: "vload16 E (cqe + 8) w3 = (sqhd, w4)" by (rule prod.exhaust)
  note loop = poll_loop.simps [of E m count "(head, tag, cqe)" n w]
  show ?case
  proof (cases "count = m \<or> psf AND 1 \<noteq> ucast tag")
    case True
    then show ?thesis
      using "1.prems" v1 unfolding cur loop by (auto split: if_splits)
  next
    case False
    then have "drop_bit 9 psf AND 7 = 0" "drop_bit 1 psf AND 0xff = 0"
      using "1.prems" v1 unfolding cur loop by (auto simp: Let_def split: if_splits)
    note cond = False this
    obtain u where u: "cmd_io_u n cid = Some u"
      using "1.prems" v1 v2 cond unfolding cur loop by (cases "cmd_io_u n cid") (auto simp: Let_def)
    let ?n = "n\<lparr>events := (events n)(nr_events n + unat count := Some u), cmd_io_u := (cmd_io_u n)(cid' := None), io_sq_head := ucast sqhd\<rparr>"
    have "poll_loop E m (count + 1) (cq_advance (io_cq_depth ?n) (io_cq_virt_addr ?n) cur) ?n w4 = Inr (k, cur', n', w')"
      using "1.prems" v1 v2 v3 v4 cond u unfolding cur loop by (simp add: Let_def)
    then have "ctrl n' = ctrl ?n"
      using "1.IH" cur v1 v2 v3 v4 cond u by simp
    then show ?thesis by simp
  qed
qed

lemma poll_cq_ctrl: "poll_cq E c n m w = Inr (k, n', w') \<Longrightarrow> ctrl n' = ctrl n"
  by (auto simp: poll_cq_def Let_def dest!: poll_loop_ctrl split: if_splits sum.splits prod.splits)

lemma getevents_loop_ctrl:
  assumes "getevents_loop E c mn mx t done n w = Some y"
  shows "\<forall>k n' w'. y = Inr (k, n', w') \<longrightarrow> ctrl n' = ctrl n"
proof (rule getevents_loop.raw_induct [OF _ assms, where P = "\<lambda>E c mn mx t done n w y. \<forall>k n' w'. y = Inr (k, n', w') \<longrightarrow> ctrl n' = ctrl n"])
  fix rec and E :: "'s env" and c mn mx t completions n w y
  assume IH: "\<And>E c mn mx t done n w y. rec E c mn mx t done n w = Some y \<Longrightarrow> \<forall>k n' w'. y = Inr (k, n', w') \<longrightarrow> ctrl n' = ctrl n"
    and body: "(case poll_cq E c n (sint (mx - word_of_int completions)) w of
        Inl f \<Rightarrow> Some (Inl f)
      | Inr (k, n, w) \<Rightarrow>
          (if completions + uint k \<ge> sint mn then Some (Inr (completions + uint k, n, w))
           else case t of
             None \<Rightarrow> rec E c mn mx t (completions + uint k) n w
           | Some (timeout, t0) \<Rightarrow>
               (case hw_act (sys_clock_gettime E) w of (t1, w) \<Rightarrow>
                if elapsed_ns t0 t1 > timeout then Some (Inr (completions + uint k, n, w))
                else rec E c mn mx t (completions + uint k) n w))) = Some y"
  show "\<forall>k n' w'. y = Inr (k, n', w') \<longrightarrow> ctrl n' = ctrl n"
  proof (cases "poll_cq E c n (sint (mx - word_of_int completions)) w")
    case (Inl f)
    then show ?thesis using body by auto
  next
    case (Inr r)
    then obtain k n1 w1 where r: "poll_cq E c n (sint (mx - word_of_int completions)) w = Inr (k, n1, w1)" by (cases r) auto
    obtain t1 w2 where g: "hw_act (sys_clock_gettime E) w1 = (t1, w2)" by (rule prod.exhaust)
    have n1: "ctrl n1 = ctrl n" by (rule poll_cq_ctrl [OF r])
    show ?thesis
      using body r g n1 IH by (auto split: if_splits option.splits prod.splits)
  qed
qed

section \<open>Steps\<close>

type_synonym 's estate = "engine \<times> (nat \<Rightarrow> thread_data) \<times> 's world"

inductive estep :: "'s env \<Rightarrow> 's estate \<Rightarrow> 's estate \<Rightarrow> bool" for E where
  estep_setup: "nvme_setup E (T i) s w = Inr (r, td, s', w') \<Longrightarrow> estep E (s, T, w) (s', T(i := td), w')"
| estep_setup_ctrl: "setup_ctrl E (T i) s w = (ok, td, s', w') \<Longrightarrow> estep E (s, T, w) (s', T(i := td), w')"
| estep_init: "io_ops_data (T i) = None \<Longrightarrow> nvme_init E (T i) s w = Inr (r, td, s', w') \<Longrightarrow> estep E (s, T, w) (s', T(i := td), w')"
| estep_cleanup: "nvme_cleanup E (T i) s w = Inr (td, s', w') \<Longrightarrow> estep E (s, T, w) (s', T(i := td), w')"
| estep_size: "nvme_size E (T i) f s w = Inr (r, td, f', s', w') \<Longrightarrow> estep E (s, T, w) (s', T(i := td), w')"
| estep_queue: "nvme_queue E has_mrt (T i) io_p io s w = Inr (st, io', td, w') \<Longrightarrow> estep E (s, T, w) (s, T(i := td), w')"
| estep_getevents: "nvme_getevents E (T i) mn mx t s w = Inr (Some (Inr (k, n, w'))) \<Longrightarrow>
    estep E (s, T, w) (s, T(i := (T i)\<lparr>io_ops_data := Some n\<rparr>), w')"
| estep_alloc: "nvme_alloc E (T i) sz s w = Inr (r, td, s', w') \<Longrightarrow> estep E (s, T, w) (s', T(i := td), w')"
| estep_free: "nvme_free E (T i) w = (td, w') \<Longrightarrow> estep E (s, T, w) (s, T(i := td), w')"

definition engine_start :: "engine \<Rightarrow> (nat \<Rightarrow> thread_data) \<Rightarrow> bool" where
  "engine_start s T \<longleftrightarrow> ctrls s = Map.empty \<and> g_ctrl s = None \<and> curr_thread_num s = 0 \<and> next_io_qid s = 1
     \<and> (\<forall>i. io_ops_data (T i) = None)"

inductive ereach :: "'s env \<Rightarrow> 's estate \<Rightarrow> bool" for E where
  ereach_start: "engine_start s T \<Longrightarrow> ereach E (s, T, w)"
| ereach_step: "ereach E x \<Longrightarrow> estep E x y \<Longrightarrow> ereach E y"

section \<open>The invariant\<close>

definition active :: "(nat \<Rightarrow> thread_data) \<Rightarrow> nat set" where
  "active T = {i. io_ops_data (T i) \<noteq> None}"

text \<open>The controller that a thread's engine data points to.\<close>

definition points_to :: "thread_data \<Rightarrow> nat option option" where
  "points_to td = map_option ctrl (io_ops_data td)"

definition eng_inv :: "engine \<Rightarrow> (nat \<Rightarrow> thread_data) \<Rightarrow> bool" where
  "eng_inv s T \<longleftrightarrow> finite (active T) \<and> curr_thread_num s = int (card (active T))
     \<and> (\<forall>i p. points_to (T i) = Some p \<longrightarrow> p = g_ctrl s \<and> p \<noteq> None)
     \<and> dom (ctrls s) = set_option (g_ctrl s)"

lemma active_points_to: "i \<in> active T \<longleftrightarrow> points_to (T i) \<noteq> None"
  by (simp add: active_def points_to_def)

lemma active_upd: "active (T(i := td)) = (if points_to td = None then active T - {i} else insert i (active T))"
  by (auto simp: active_def points_to_def)

lemma eng_inv_same:
  assumes "eng_inv s T" and "g_ctrl s' = g_ctrl s" and "curr_thread_num s' = curr_thread_num s" and "dom (ctrls s') = dom (ctrls s)"
    and "points_to td = points_to (T i)"
  shows "eng_inv s' (T(i := td))"
proof -
  have "active (T(i := td)) = active T"
    using assms(5) by (auto simp: active_upd active_points_to)
  then show ?thesis using assms by (auto simp: eng_inv_def)
qed

lemma eng_inv_idle:
  assumes "active T = {}" and "curr_thread_num s = 0" and "dom (ctrls s) = set_option (g_ctrl s)"
  shows "eng_inv s T"
proof -
  have "points_to (T j) = None" for j using assms(1) active_points_to [of j T] by blast
  then show ?thesis using assms by (simp add: eng_inv_def)
qed

lemma eng_inv_live: "eng_inv s T \<Longrightarrow> g_ctrl s = Some a \<Longrightarrow> \<exists>c. ctrls s a = Some c"
proof -
  assume "eng_inv s T" "g_ctrl s = Some a"
  then have "a \<in> dom (ctrls s)" by (simp add: eng_inv_def)
  then show ?thesis by auto
qed

lemma eng_inv_ctrl:
  assumes "eng_inv s T" and "io_ops_data (T i) = Some n"
  obtains a c where "ctrl n = Some a" "g_ctrl s = Some a" "ctrls s a = Some c"
proof -
  have p: "points_to (T i) = Some (ctrl n)" using assms(2) by (simp add: points_to_def)
  then have g: "g_ctrl s = ctrl n" and "ctrl n \<noteq> None" using assms(1) unfolding eng_inv_def by metis+
  then obtain a where "ctrl n = Some a" by auto
  with g have a: "ctrl n = Some a" "g_ctrl s = Some a" by simp_all
  then show thesis using eng_inv_live [OF assms(1)] that by blast
qed

lemma dom_upd_same: "m a = Some x \<Longrightarrow> dom (m(a \<mapsto> y)) = dom m"
  by auto

lemma get_file_size_some:
  "nvme_get_file_size E (Some c) w = (sz, cp, w') \<Longrightarrow> \<exists>c'. cp = Some c'"
  by (auto simp: nvme_get_file_size_def Let_def split: prod.splits option.splits if_splits)

section \<open>Steps keep the invariant\<close>

lemma nvme_size_keeps:
  assumes "nvme_size E td f s w = Inr (r, td', f', s', w')" and "dom (ctrls s) = set_option (g_ctrl s)"
  shows "g_ctrl s' = g_ctrl s \<and> curr_thread_num s' = curr_thread_num s \<and> dom (ctrls s') = dom (ctrls s)
    \<and> io_ops_data td' = io_ops_data td"
proof (cases "g_ctrl s")
  case None
  then show ?thesis using assms(1) by (auto simp: nvme_size_def)
next
  case (Some a)
  then obtain c where c: "ctrls s a = Some c" using assms(2) by auto
  obtain sz cp w1 where g: "nvme_get_file_size E (Some c) w = (sz, cp, w1)" by (rule prod_cases3)
  obtain c' where "cp = Some c'" using get_file_size_some [OF g] by blast
  then show ?thesis using assms(1) Some c g by (auto simp: nvme_size_def deref_def Let_def split: if_splits)
qed

lemma setup_sizes_keeps:
  "setup_sizes E td fs s w = Inr (r, td', fs', s', w') \<Longrightarrow> dom (ctrls s) = set_option (g_ctrl s) \<Longrightarrow>
    g_ctrl s' = g_ctrl s \<and> curr_thread_num s' = curr_thread_num s \<and> dom (ctrls s') = dom (ctrls s)
    \<and> io_ops_data td' = io_ops_data td"
proof (induction E td fs s w arbitrary: r td' fs' s' w' rule: setup_sizes.induct)
  case (1 E td s w)
  then show ?case by simp
next
  case (2 E td f fs s w)
  obtain r1 td1 f1 s1 w1 where 1: "nvme_size E td f s w = Inr (r1, td1, f1, s1, w1)"
    using "2.prems"(1) by (auto split: sum.splits)
  note k = nvme_size_keeps [OF 1 "2.prems"(2)]
  show ?case
  proof (cases "r1 = 0")
    case False
    then show ?thesis using "2.prems" 1 k by auto
  next
    case True
    obtain r2 td2 fs2 s2 w2 where 2: "setup_sizes E td1 fs s1 w1 = Inr (r2, td2, fs2, s2, w2)"
      using "2.prems"(1) 1 True by (auto split: sum.splits)
    have "dom (ctrls s1) = set_option (g_ctrl s1)" using k "2.prems"(2) by simp
    with "2.IH" [OF 1 refl refl refl refl _ 2] True have
      "g_ctrl s2 = g_ctrl s1 \<and> curr_thread_num s2 = curr_thread_num s1 \<and> dom (ctrls s2) = dom (ctrls s1)
        \<and> io_ops_data td2 = io_ops_data td1" by simp
    then show ?thesis using "2.prems"(1) 1 2 True k by auto
  qed
qed

lemma nvme_size_total:
  assumes "dom (ctrls s) = set_option (g_ctrl s)"
  shows "\<exists>r td' f' s' w'. nvme_size E td f s w = Inr (r, td', f', s', w')"
proof (cases "g_ctrl s")
  case None
  then show ?thesis by (simp add: nvme_size_def)
next
  case (Some a)
  then obtain c where c: "ctrls s a = Some c" using assms by auto
  obtain sz cp w1 where g: "nvme_get_file_size E (Some c) w = (sz, cp, w1)" by (rule prod_cases3)
  show ?thesis by (simp add: nvme_size_def Some c g deref_def Let_def)
qed

lemma setup_sizes_total:
  "dom (ctrls s) = set_option (g_ctrl s) \<Longrightarrow> \<exists>y. setup_sizes E td fs s w = Inr y"
proof (induction fs arbitrary: td s w)
  case Nil
  then show ?case by simp
next
  case (Cons f fs)
  obtain r td1 f1 s1 w1 where 1: "nvme_size E td f s w = Inr (r, td1, f1, s1, w1)"
    using nvme_size_total [OF Cons.prems] by blast
  have "dom (ctrls s1) = set_option (g_ctrl s1)" using nvme_size_keeps [OF 1 Cons.prems] Cons.prems by simp
  from Cons.IH [OF this, of td1 w1] obtain y where "setup_sizes E td1 fs s1 w1 = Inr y" by blast
  then show ?case by (cases y) (simp add: 1)
qed

lemma eng_inv_no_ctrl:
  assumes "eng_inv s T" and "g_ctrl s = None"
  shows "active T = {}" and "ctrls s = Map.empty" and "curr_thread_num s = 0"
proof -
  show a: "active T = {}" using assms unfolding eng_inv_def active_points_to [symmetric] by (fastforce simp: active_points_to)
  show "ctrls s = Map.empty" using assms by (simp add: eng_inv_def)
  show "curr_thread_num s = 0" using assms(1) a by (simp add: eng_inv_def)
qed

lemma controller_init_some: "controller_init E (Some c) w = (ok, cp, w') \<Longrightarrow> \<exists>c'. cp = Some c'"
  by (auto simp: controller_init_def Let_def map_prod_def split: prod.splits if_splits)

lemma setup_ctrl_keeps:
  assumes inv: "eng_inv s T" and run: "setup_ctrl E (T i) s w = (ok, td, s', w')"
  shows "eng_inv s' (T(i := td))" and "dom (ctrls s') = set_option (g_ctrl s')"
    and "points_to td = points_to (T i)"
proof -
  have p: "points_to td = points_to (T i)"
    using run by (auto simp: setup_ctrl_def points_to_def Let_def split: prod.splits option.splits if_splits)
  show inv': "eng_inv s' (T(i := td))"
  proof (cases "g_ctrl s = None")
    case False
    then show ?thesis using run eng_inv_same [OF inv _ _ _ p] by (simp add: setup_ctrl_def)
  next
    case True
    note e = eng_inv_no_ctrl [OF inv True]
    obtain cp w1 where pt: "parse_target E (target_name (T i) None) w = (cp, w1)" by (rule prod.exhaust)
    show ?thesis
    proof (cases cp)
      case None
      then show ?thesis using run pt True eng_inv_same [OF inv _ _ _ p] by (simp add: setup_ctrl_def)
    next
      case (Some c)
      obtain ok2 cp2 w2 where ci: "controller_init E (Some c) w1 = (ok2, cp2, w2)" by (rule prod_cases3)
      obtain c2 where c2: "cp2 = Some c2" using controller_init_some [OF ci] by blast
      have "points_to (T i) = None" using e(1) active_points_to [of i T] by simp
      then have act: "active (T(i := td)) = {}" using e(1) p by (simp add: active_upd)
      have s': "curr_thread_num s' = 0" "dom (ctrls s') = set_option (g_ctrl s')"
        using run pt Some ci c2 True e by (auto simp: setup_ctrl_def Let_def split: if_splits)
      show ?thesis by (rule eng_inv_idle [OF act s'])
    qed
  qed
  show "dom (ctrls s') = set_option (g_ctrl s')" using inv' by (simp add: eng_inv_def)
  show "points_to td = points_to (T i)" by (rule p)
qed

lemma setup_keeps:
  assumes inv: "eng_inv s T" and run: "nvme_setup E (T i) s w = Inr (r, td, s', w')"
  shows "eng_inv s' (T(i := td))"
proof (cases "o_nr_files (T i) > 1")
  case True
  then show ?thesis using run inv by (auto simp: nvme_setup_def fun_upd_idem)
next
  case False
  obtain ok td1 s1 w1 where 1: "setup_ctrl E (T i) s w = (ok, td1, s1, w1)" by (rule prod_cases4)
  note k = setup_ctrl_keeps [OF inv 1]
  show ?thesis
  proof (cases ok)
    case False
    then show ?thesis using run 1 k(1) \<open>\<not> o_nr_files (T i) > 1\<close> by (simp add: nvme_setup_def)
  next
    case True
    obtain r2 td2 fs s2 w2 where 2: "setup_sizes E td1 (td_files td1) s1 w1 = Inr (r2, td2, fs, s2, w2)"
      using run 1 True False by (auto simp: nvme_setup_def split: sum.splits)
    note k2 = setup_sizes_keeps [OF 2 k(2)]
    have "td = td2\<lparr>td_files := fs\<rparr>" "s' = s2" using run 1 2 True False by (auto simp: nvme_setup_def)
    then have "points_to td = points_to ((T(i := td1)) i)" using k2 by (simp add: points_to_def)
    from eng_inv_same [OF k(1) _ _ _ this, of s'] k2 \<open>s' = s2\<close> show ?thesis
      unfolding fun_upd_upd by blast
  qed
qed

text \<open>After \<open>drop_ctrl\<close> there is a controller exactly if a thread is left.\<close>

lemma drop_ctrl_keeps:
  assumes "dom (ctrls s) = set_option (g_ctrl s)"
  shows "\<exists>s' w'. drop_ctrl E s w = Inr (s', w') \<and> dom (ctrls s') = set_option (g_ctrl s')
    \<and> curr_thread_num s' = curr_thread_num s \<and> g_ctrl s' = (if curr_thread_num s = 0 then None else g_ctrl s)"
proof (cases "curr_thread_num s = 0")
  case False
  then show ?thesis using assms by (simp add: drop_ctrl_def)
next
  case True
  show ?thesis
  proof (cases "g_ctrl s")
    case None
    obtain cp w1 where d: "controller_deinit E None w = (cp, w1)" by (rule prod.exhaust)
    show ?thesis using True None assms by (simp add: drop_ctrl_def d)
  next
    case (Some a)
    then obtain c where c: "ctrls s a = Some c" using assms by auto
    obtain cp w1 where d: "controller_deinit E (Some c) w = (cp, w1)" by (rule prod.exhaust)
    show ?thesis using True Some c assms by (simp add: drop_ctrl_def deref_def d)
  qed
qed

lemma drop_ctrl_inv:
  assumes "eng_inv s T"
  obtains s' w' where "drop_ctrl E s w = Inr (s', w')" "eng_inv s' T"
    "g_ctrl s' = (if curr_thread_num s = 0 then None else g_ctrl s)"
proof -
  have d: "dom (ctrls s) = set_option (g_ctrl s)" using assms by (simp add: eng_inv_def)
  obtain s' w' where 1: "drop_ctrl E s w = Inr (s', w')" "dom (ctrls s') = set_option (g_ctrl s')"
    "curr_thread_num s' = curr_thread_num s" "g_ctrl s' = (if curr_thread_num s = 0 then None else g_ctrl s)"
    using drop_ctrl_keeps [OF d, of E w] by blast
  have "eng_inv s' T"
  proof (cases "curr_thread_num s = 0")
    case True
    then have "active T = {}" using assms by (auto simp: eng_inv_def)
    then show ?thesis using True 1 by (intro eng_inv_idle) simp_all
  next
    case False
    then show ?thesis using assms 1 by (simp add: eng_inv_def)
  qed
  with 1 that show thesis by blast
qed

text \<open>A thread that gains or loses its engine data changes the count by one.\<close>

lemma eng_inv_gain:
  assumes "eng_inv s T" and "io_ops_data (T i) = None" and "points_to td = Some (Some a)" and "g_ctrl s = Some a"
    and "g_ctrl s' = g_ctrl s" and "curr_thread_num s' = curr_thread_num s + 1" and "dom (ctrls s') = dom (ctrls s)"
  shows "eng_inv s' (T(i := td))"
proof -
  have "i \<notin> active T" using assms(2) by (simp add: active_def)
  then have "card (active (T(i := td))) = card (active T) + 1" "finite (active (T(i := td)))"
    using assms(1,3) by (auto simp: active_upd eng_inv_def)
  then show ?thesis using assms by (auto simp: eng_inv_def)
qed

lemma eng_inv_lose:
  assumes "eng_inv s T" and "io_ops_data (T i) \<noteq> None" and "io_ops_data td = None"
    and "g_ctrl s' = g_ctrl s" and "curr_thread_num s' = curr_thread_num s - 1" and "dom (ctrls s') = dom (ctrls s)"
  shows "eng_inv s' (T(i := td))"
proof -
  have i: "i \<in> active T" and f: "finite (active T)" using assms(1,2) by (simp_all add: active_def eng_inv_def)
  have p: "points_to td = None" using assms(3) by (simp add: points_to_def)
  have "int (card (active T)) = int (card (active (T(i := td)))) + 1"
    using card.remove [OF f i] p by (simp add: active_upd)
  then show ?thesis using assms p f by (auto simp: eng_inv_def active_upd)
qed

lemma init_inv:
  assumes inv: "eng_inv s T" and idle: "io_ops_data (T i) = None"
  obtains r td s' w' where "nvme_init E (T i) s w = Inr (r, td, s', w')" "eng_inv s' (T(i := td))"
    "r = 0 \<longleftrightarrow> io_ops_data td \<noteq> None"
proof (cases "\<not> o_use_thread (T i) \<or> o_nr_files (T i) > 1")
  case True
  then show ?thesis
    using that [of 1 "T i" s w] inv idle by (auto simp: nvme_init_def)
next
  case False
  obtain ok w1 where 1: "hw_act (sys_calloc E) w = (ok, w1)" by (rule prod.exhaust)
  have same: "eng_inv s (T(i := (T i)\<lparr>td_error := e\<rparr>))" for e
    by (rule eng_inv_same [OF inv]) (simp_all add: points_to_def)
  show ?thesis
  proof (cases "ok \<and> g_ctrl s \<noteq> None")
    case False
    then show ?thesis
      using that [of 1 _ s w1] same \<open>\<not> (\<not> o_use_thread (T i) \<or> o_nr_files (T i) > 1)\<close> 1 idle
      by (cases ok) (auto simp: nvme_init_def)
  next
    case True
    then obtain a where a: "g_ctrl s = Some a" by auto
    obtain c where c: "ctrls s a = Some c" using eng_inv_live [OF inv a] by blast
    let ?n = "init_data (T i) a (next_io_qid s)"
    have n: "ctrl ?n = Some a" by (simp add: init_data_def Let_def)
    obtain ret c2 np w2 where 2: "create_io_queue_pair E c (Some ?n) w1 = (ret, c2, np, w2)" by (rule prod_cases4)
    obtain n2 where n2: "np = Some n2" "ctrl n2 = Some a" using create_keeps_ctrl [OF 2] n by metis
    let ?s = "s\<lparr>next_io_qid := next_io_qid s + 1, curr_thread_num := curr_thread_num s + 1, ctrls := (ctrls s)(a \<mapsto> c2)\<rparr>"
    have dom: "dom ((ctrls s)(a \<mapsto> c2)) = dom (ctrls s)" using c by auto
    note run = nvme_init_def Let_def deref_def 1 2 a c
    show ?thesis
    proof (cases ret)
      case True
      have "eng_inv ?s (T(i := (T i)\<lparr>io_ops_data := np\<rparr>))"
        by (rule eng_inv_gain [OF inv idle _ a]) (use n2 dom in \<open>simp_all add: points_to_def\<close>)
      then show ?thesis
        using that [of 0 "(T i)\<lparr>io_ops_data := np\<rparr>" ?s w2] True \<open>ok \<and> g_ctrl s \<noteq> None\<close>
          \<open>\<not> (\<not> o_use_thread (T i) \<or> o_nr_files (T i) > 1)\<close> n2 by (simp add: run)
    next
      case False
      let ?td = "(T i)\<lparr>io_ops_data := None, td_error := EINVAL\<rparr>"
      have "eng_inv (?s\<lparr>curr_thread_num := curr_thread_num ?s - 1\<rparr>) (T(i := ?td))"
        by (rule eng_inv_same [OF inv]) (use dom idle in \<open>simp_all add: points_to_def\<close>)
      then obtain s3 w3 where 3: "drop_ctrl E (?s\<lparr>curr_thread_num := curr_thread_num ?s - 1\<rparr>) w2 = Inr (s3, w3)"
        and i3: "eng_inv s3 (T(i := ?td))" by (rule drop_ctrl_inv)
      show ?thesis
        using that [of 1 ?td s3 w3] False \<open>ok \<and> g_ctrl s \<noteq> None\<close> i3 3
          \<open>\<not> (\<not> o_use_thread (T i) \<or> o_nr_files (T i) > 1)\<close> by (simp add: run)
    qed
  qed
qed

lemma cleanup_inv:
  assumes inv: "eng_inv s T"
  obtains td s' w' where "nvme_cleanup E (T i) s w = Inr (td, s', w')" "eng_inv s' (T(i := td))" "io_ops_data td = None"
    "active T = {i} \<Longrightarrow> g_ctrl s' = None"
proof (cases "io_ops_data (T i)")
  case None
  then have "i \<notin> active T" by (simp add: active_def)
  then show ?thesis using that [of "T i" s w] inv None by (auto simp: nvme_cleanup_def)
next
  case (Some n)
  obtain a c where a: "ctrl n = Some a" "g_ctrl s = Some a" "ctrls s a = Some c" by (rule eng_inv_ctrl [OF inv Some])
  obtain ok c2 np w2 where 2: "delete_io_queue_pair E c (Some n) w = (ok, c2, np, w2)" by (rule prod_cases4)
  let ?s = "s\<lparr>ctrls := (ctrls s)(a \<mapsto> c2), curr_thread_num := curr_thread_num s - 1\<rparr>"
  let ?td = "(T i)\<lparr>io_ops_data := None\<rparr>"
  have dom: "dom ((ctrls s)(a \<mapsto> c2)) = dom (ctrls s)" using a by auto
  have "eng_inv ?s (T(i := ?td))"
    by (rule eng_inv_lose [OF inv]) (use Some dom in simp_all)
  then obtain s3 w3 where 3: "drop_ctrl E ?s w2 = Inr (s3, w3)" "eng_inv s3 (T(i := ?td))"
    "g_ctrl s3 = (if curr_thread_num ?s = 0 then None else g_ctrl ?s)" by (rule drop_ctrl_inv)
  have "active T = {i} \<Longrightarrow> curr_thread_num s = 1" using inv by (simp add: eng_inv_def)
  then show ?thesis
    using that [of ?td s3 w3] 3 Some a 2 by (simp add: nvme_cleanup_def deref_opt_def deref_def Let_def)
qed

lemma size_inv:
  assumes inv: "eng_inv s T"
  obtains r td f' s' w' where "nvme_size E (T i) f s w = Inr (r, td, f', s', w')" "eng_inv s' (T(i := td))"
proof -
  have d: "dom (ctrls s) = set_option (g_ctrl s)" using inv by (simp add: eng_inv_def)
  obtain r td f' s' w' where 1: "nvme_size E (T i) f s w = Inr (r, td, f', s', w')"
    using nvme_size_total [OF d] by blast
  have "eng_inv s' (T(i := td))"
    by (rule eng_inv_same [OF inv]) (use nvme_size_keeps [OF 1 d] in \<open>simp_all add: points_to_def\<close>)
  with 1 that show thesis by blast
qed

lemma setup_inv:
  assumes inv: "eng_inv s T"
  obtains r td s' w' where "nvme_setup E (T i) s w = Inr (r, td, s', w')" "eng_inv s' (T(i := td))"
proof -
  obtain ok td1 s1 w1 where 1: "setup_ctrl E (T i) s w = (ok, td1, s1, w1)" by (rule prod_cases4)
  obtain y where "setup_sizes E td1 (td_files td1) s1 w1 = Inr y"
    using setup_sizes_total setup_ctrl_keeps(2) [OF inv 1] by blast
  then have "\<exists>z. nvme_setup E (T i) s w = Inr z" by (cases y) (auto simp: nvme_setup_def 1)
  then obtain r td s' w' where 2: "nvme_setup E (T i) s w = Inr (r, td, s', w')" by (metis prod_cases4)
  with that setup_keeps [OF inv 2] show thesis by blast
qed

lemma queue_inv:
  assumes inv: "eng_inv s T" and act: "io_ops_data (T i) \<noteq> None"
  obtains st io' td w' where "nvme_queue E has_mrt (T i) io_p io s w = Inr (st, io', td, w')" "eng_inv s (T(i := td))"
proof -
  obtain n where n: "io_ops_data (T i) = Some n" using act by auto
  obtain a c where a: "ctrl n = Some a" "g_ctrl s = Some a" "ctrls s a = Some c" by (rule eng_inv_ctrl [OF inv n])
  show thesis
  proof (cases rule: nvme_queue_cases [OF n a(1) a(3), of E has_mrt io_p io w])
    case 1
    then show ?thesis using that [of FIO_Q_BUSY io "T i" w] inv by simp
  next
    case 2
    then show ?thesis using that [of FIO_Q_COMPLETED _ "T i" w] inv by simp
  next
    case (3 w')
    have "eng_inv s (T(i := (T i)\<lparr>io_ops_data := Some (queued_data n io_p)\<rparr>))"
      by (rule eng_inv_same [OF inv])
        (simp_all add: points_to_def n queued_data_def submitted_def sq_advance_simps)
    with 3 that show ?thesis by blast
  qed
qed

lemma getevents_inv:
  assumes inv: "eng_inv s T" and act: "io_ops_data (T i) \<noteq> None"
  obtains y where "nvme_getevents E (T i) mn mx t s w = Inr y"
    "\<And>k n w'. y = Some (Inr (k, n, w')) \<Longrightarrow> eng_inv s (T(i := (T i)\<lparr>io_ops_data := Some n\<rparr>))"
proof -
  obtain n where n: "io_ops_data (T i) = Some n" using act by auto
  obtain a c where a: "ctrl n = Some a" "g_ctrl s = Some a" "ctrls s a = Some c" by (rule eng_inv_ctrl [OF inv n])
  let ?n = "n\<lparr>nr_events := 0\<rparr>"
  have "\<exists>t' w1. nvme_getevents E (T i) mn mx t s w = Inr (getevents_loop E c mn mx t' 0 ?n w1)"
    using n a by (cases t) (auto simp: nvme_getevents_def deref_opt_def deref_def Let_def split: prod.splits)
  then obtain t' w1 where run: "nvme_getevents E (T i) mn mx t s w = Inr (getevents_loop E c mn mx t' 0 ?n w1)" by blast
  have "eng_inv s (T(i := (T i)\<lparr>io_ops_data := Some n'\<rparr>))" if "getevents_loop E c mn mx t' 0 ?n w1 = Some (Inr (k, n', w'))" for k n' w'
  proof -
    have "ctrl n' = ctrl n" using getevents_loop_ctrl [OF that] by simp
    then show ?thesis by (intro eng_inv_same [OF inv]) (simp_all add: points_to_def n)
  qed
  with run that show thesis by blast
qed

lemma alloc_inv:
  assumes inv: "eng_inv s T"
  obtains r td s' w' where "nvme_alloc E (T i) sz s w = Inr (r, td, s', w')" "eng_inv s' (T(i := td))"
proof (cases "io_ops_data (T i)")
  case None
  have "eng_inv s (T(i := (T i)\<lparr>td_error := EINVAL\<rparr>))"
    by (rule eng_inv_same [OF inv]) (simp_all add: points_to_def)
  then show ?thesis using that [of 1 _ s w] None by (simp add: nvme_alloc_def)
next
  case (Some n)
  obtain a c where a: "ctrl n = Some a" "g_ctrl s = Some a" "ctrls s a = Some c" by (rule eng_inv_ctrl [OF inv Some])
  obtain ok m c2 w2 where 2: "nvme_alloc_dma_mem E c sz mem_zero w = (ok, m, c2, w2)" by (rule prod_cases4)
  let ?s = "s\<lparr>ctrls := (ctrls s)(a \<mapsto> c2)\<rparr>"
  have keep: "eng_inv ?s (T(i := td))" if "points_to td = points_to (T i)" for td
    by (rule eng_inv_same [OF inv _ _ _ that]) (use a in auto)
  have "\<exists>r td. nvme_alloc E (T i) sz s w = Inr (r, td, ?s, w2) \<and> points_to td = points_to (T i)"
    by (cases ok) (simp_all add: nvme_alloc_def Some a deref_def 2 Let_def points_to_def)
  with keep that show ?thesis by blast
qed

lemma free_inv:
  assumes inv: "eng_inv s T" and run: "nvme_free E (T i) w = (td, w')"
  shows "eng_inv s (T(i := td))"
proof (rule eng_inv_same [OF inv])
  show "points_to td = points_to (T i)"
    using run by (auto simp: nvme_free_def points_to_def split: option.splits prod.splits)
qed simp_all

lemma no_data:
  assumes "io_ops_data td = None"
  shows "nvme_queue E has_mrt td io_p io s w = Inl Use_After_Free" and "nvme_getevents E td mn mx t s w = Inl Use_After_Free"
  by (simp_all add: nvme_queue_def nvme_getevents_def assms)

definition einv :: "'s estate \<Rightarrow> bool" where
  "einv x = eng_inv (fst x) (fst (snd x))"

lemma einv_simps: "einv (s, T, w) = eng_inv s T"
  by (simp add: einv_def)

lemma estep_inv:
  assumes "estep E x y" and "einv x"
  shows "einv y"
  using assms
proof (induction rule: estep.induct)
  case (estep_setup T i s w r td s' w')
  then show ?case using setup_keeps [of s T E i w r td s' w'] unfolding einv_simps by blast
next
  case (estep_setup_ctrl T i s w ok td s' w')
  then show ?case using setup_ctrl_keeps(1) [of s T E i w ok td s' w'] unfolding einv_simps by blast
next
  case (estep_init T i s w r td s' w')
  obtain r1 td1 s1 w1 where "nvme_init E (T i) s w = Inr (r1, td1, s1, w1)" "eng_inv s1 (T(i := td1))"
    using init_inv [of s T i E w] estep_init by (metis einv_simps)
  then show ?case unfolding einv_simps using estep_init by simp
next
  case (estep_cleanup T i s w td s' w')
  obtain td1 s1 w1 where "nvme_cleanup E (T i) s w = Inr (td1, s1, w1)" "eng_inv s1 (T(i := td1))"
    using cleanup_inv [of s T E i w] estep_cleanup by (metis einv_simps)
  then show ?case unfolding einv_simps using estep_cleanup by simp
next
  case (estep_size T i f s w r td f' s' w')
  obtain r1 td1 f1 s1 w1 where "nvme_size E (T i) f s w = Inr (r1, td1, f1, s1, w1)" "eng_inv s1 (T(i := td1))"
    using size_inv [of s T E i f w] estep_size by (metis einv_simps)
  then show ?case unfolding einv_simps using estep_size by simp
next
  case (estep_queue has_mrt T i io_p io s w st io' td w')
  then have "io_ops_data (T i) \<noteq> None" using no_data(1) [of "T i"] by (metis sum.distinct(1))
  then obtain st1 io1 td1 w1 where "nvme_queue E has_mrt (T i) io_p io s w = Inr (st1, io1, td1, w1)" "eng_inv s (T(i := td1))"
    using queue_inv [of s T i E has_mrt io_p io w] estep_queue by (metis einv_simps)
  then show ?case unfolding einv_simps using estep_queue by simp
next
  case (estep_getevents T i mn mx t s w k n w')
  then have "io_ops_data (T i) \<noteq> None" using no_data(2) [of "T i"] by (metis sum.distinct(1))
  then obtain y where "nvme_getevents E (T i) mn mx t s w = Inr y"
    "\<And>k n w'. y = Some (Inr (k, n, w')) \<Longrightarrow> eng_inv s (T(i := (T i)\<lparr>io_ops_data := Some n\<rparr>))"
    using getevents_inv [of s T i E mn mx t w] estep_getevents by (metis einv_simps)
  then show ?case unfolding einv_simps using estep_getevents.hyps by (metis sum.inject(2))
next
  case (estep_alloc T i sz s w r td s' w')
  obtain r1 td1 s1 w1 where "nvme_alloc E (T i) sz s w = Inr (r1, td1, s1, w1)" "eng_inv s1 (T(i := td1))"
    using alloc_inv [of s T E i sz w] estep_alloc by (metis einv_simps)
  then show ?case unfolding einv_simps using estep_alloc by simp
next
  case (estep_free T i w td w' s)
  then show ?case using free_inv [of s T E i w td w'] unfolding einv_simps by blast
qed

lemma ereach_inv: "ereach E x \<Longrightarrow> einv x"
proof (induction rule: ereach.induct)
  case (ereach_start s T w)
  then have "active T = {}" by (simp add: engine_start_def active_def)
  with ereach_start show ?case by (simp add: einv_simps eng_inv_idle engine_start_def)
next
  case (ereach_step x y)
  then show ?case unfolding einv_simps using estep_inv by blast
qed

section \<open>What a new thread gets\<close>

lemma create_ok_depth:
  assumes "create_io_queue_pair E c (Some n) w = (True, c', Some n', w')" and "io_sq_depth n \<noteq> 0" and "io_cq_depth n \<noteq> 0"
  shows "io_sq_depth n' = io_sq_depth n" and "io_cq_depth n' = io_cq_depth n"
proof -
  have "io_sq_depth n' = io_sq_depth n \<and> io_cq_depth n' = io_cq_depth n"
  proof (cases rule: create_pair_cases [OF assms(1)])
    case 1
    then show ?thesis by simp
  next
    case (2 cap w1)
    let ?sd = "effective_depth cap (io_sq_depth n)" and ?cd = "effective_depth cap (io_cq_depth n)"
    obtain ok2 c2 n2 w2 where a: "create_alloc E ?sd ?cd c n w1 = (ok2, c2, n2, w2)" by (rule prod_cases4)
    obtain ok3 c3 n3 w3 where b: "create_commands E cap (nvme_io_qid n) ?sd ?cd c2 n2 w2 = (ok3, c3, n3, w3)" by (rule prod_cases4)
    have "ok3" "n' = n3" using 2(6) a b by (simp_all split: if_splits)
    then show ?thesis
      using create_commands_outcome(1) [OF b] assms(2,3) by (simp add: create_fields_def effective_depth_def)
  qed
  then show "io_sq_depth n' = io_sq_depth n" "io_cq_depth n' = io_cq_depth n" by simp_all
qed

lemma pair_ready_empty:
  assumes "pair_ready cap n"
  shows "sq_ok n" and "sq_used n = 0" and "cq_synced n (io_cq_virt_addr n) (unat (io_cq_depth n)) 0"
  using assms by (simp_all add: pair_ready_def depth_ok_def sq_ok_def sq_used_def cq_synced_def word_less_nat_alt phase_at_def)

lemma init_success:
  assumes "nvme_init E td s w = Inr (0, td', s', w')"
  obtains a c w1 c' n' where "g_ctrl s = Some a" "ctrls s a = Some c"
    "create_io_queue_pair E c (Some (init_data td a (next_io_qid s))) w1 = (True, c', Some n', w')"
    "io_ops_data td' = Some n'" "next_io_qid s' = next_io_qid s + 1" "curr_thread_num s' = curr_thread_num s + 1" "g_ctrl s' = g_ctrl s"
proof -
  obtain ok w1 where 1: "hw_act (sys_calloc E) w = (ok, w1)" by (rule prod.exhaust)
  obtain a where a: "g_ctrl s = Some a" using assms 1 by (auto simp: nvme_init_def split: if_splits option.splits)
  obtain c where c: "ctrls s a = Some c"
    using assms 1 a by (auto simp: nvme_init_def Let_def deref_def split: if_splits option.splits)
  obtain ret c' np w2 where 2: "create_io_queue_pair E c (Some (init_data td a (next_io_qid s))) w1 = (ret, c', np, w2)"
    by (rule prod_cases4)
  obtain n' where n': "np = Some n'" by (rule create_keeps_ctrl [OF 2])
  note run = assms [unfolded nvme_init_def 1 Let_def deref_def, simplified, simplified a, simplified c, simplified, simplified 2 n', simplified]
  from run have "ret" "w2 = w'" "io_ops_data td' = Some n'" "next_io_qid s' = next_io_qid s + 1"
    "curr_thread_num s' = curr_thread_num s + 1" "g_ctrl s' = g_ctrl s"
    by (auto simp: a c 2 n' split: if_splits sum.splits)
  with that a c 2 n' show thesis by simp
qed

section \<open>Properties\<close>

text \<open>
  C33: In every state that any interleaving of callbacks of any number of threads can reach,
  \<^verbatim>\<open>curr_thread_num\<close> is the number of threads that hold engine data, each of them points to the one
  controller \<^verbatim>\<open>g_ctrl\<close>, and the only controller structure that is allocated is that one (none, if
  \<^verbatim>\<open>g_ctrl\<close> is null): there is no dangling pointer to a freed controller and no forgotten controller.
\<close>

theorem engine_counts_threads:
  assumes "ereach E (s, T, w)"
  shows "finite {i. io_ops_data (T i) \<noteq> None} \<and> curr_thread_num s = int (card {i. io_ops_data (T i) \<noteq> None})
    \<and> (\<forall>i n. io_ops_data (T i) = Some n \<longrightarrow> ctrl n = g_ctrl s \<and> g_ctrl s \<noteq> None)
    \<and> dom (ctrls s) = set_option (g_ctrl s)"
proof -
  have inv: "eng_inv s T" using ereach_inv [OF assms] by (simp add: einv_simps)
  have "ctrl n = g_ctrl s \<and> g_ctrl s \<noteq> None" if "io_ops_data (T i) = Some n" for i n
    by (rule eng_inv_ctrl [OF inv that]) simp
  with inv show ?thesis by (simp add: eng_inv_def active_def)
qed

text \<open>
  C34: In every reachable state no callback accesses freed memory or a null pointer: set-up, cleaning
  up, size queries and allocation for every thread, initialisation of a thread without engine data,
  and queueing and reaping for a thread with engine data.
\<close>

theorem engine_never_faults:
  assumes "ereach E (s, T, w)"
  shows "(\<exists>y. nvme_setup E (T i) s w = Inr y) \<and> (\<exists>y. nvme_cleanup E (T i) s w = Inr y)
    \<and> (\<exists>y. nvme_size E (T i) f s w = Inr y) \<and> (\<exists>y. nvme_alloc E (T i) sz s w = Inr y)
    \<and> (io_ops_data (T i) = None \<longrightarrow> (\<exists>y. nvme_init E (T i) s w = Inr y))
    \<and> (io_ops_data (T i) \<noteq> None \<longrightarrow> (\<exists>y. nvme_queue E has_mrt (T i) io_p io s w = Inr y))
    \<and> (io_ops_data (T i) \<noteq> None \<longrightarrow> (\<exists>y. nvme_getevents E (T i) mn mx t s w = Inr y))"
proof (intro conjI impI)
  have inv: "eng_inv s T" using ereach_inv [OF assms] by (simp add: einv_simps)
  show "\<exists>y. nvme_setup E (T i) s w = Inr y" by (rule setup_inv [OF inv]) blast
  show "\<exists>y. nvme_cleanup E (T i) s w = Inr y" by (rule cleanup_inv [OF inv]) blast
  show "\<exists>y. nvme_size E (T i) f s w = Inr y" by (rule size_inv [OF inv]) blast
  show "\<exists>y. nvme_alloc E (T i) sz s w = Inr y" by (rule alloc_inv [OF inv]) blast
  show "\<exists>y. nvme_init E (T i) s w = Inr y" if "io_ops_data (T i) = None" by (rule init_inv [OF inv that]) blast
  show "\<exists>y. nvme_queue E has_mrt (T i) io_p io s w = Inr y" if "io_ops_data (T i) \<noteq> None"
    by (rule queue_inv [OF inv that]) blast
  show "\<exists>y. nvme_getevents E (T i) mn mx t s w = Inr y" if "io_ops_data (T i) \<noteq> None"
    by (rule getevents_inv [OF inv that]) blast
qed

text \<open>
  C35: A successful \<^verbatim>\<open>nvme_init\<close> leaves the thread with engine data that queueing and polling can start
  from: both rings empty and inside their buffers, the phase tag and head in step with a fresh
  completion queue, no command outstanding, the shared controller, the queue identifier handed out
  next, and a ring with room for fio's \<^verbatim>\<open>iodepth\<close> (one slot stays free; the smallest ring has two).
\<close>

theorem nvme_init_ready:
  assumes "dma_service E" and run: "nvme_init E td s w = Inr (0, td', s', w')"
  shows "\<exists>n cap. io_ops_data td' = Some n \<and> pair_ready cap n \<and> sq_ok n \<and> sq_used n = 0
    \<and> cq_synced n (io_cq_virt_addr n) (unat (io_cq_depth n)) 0 \<and> cmd_io_u n = (\<lambda>_. None)
    \<and> ctrl n = g_ctrl s' \<and> io_qid n = next_io_qid s \<and> next_io_qid s' = next_io_qid s + 1
    \<and> curr_thread_num s' = curr_thread_num s + 1 \<and> io_cq_depth n = io_sq_depth n
    \<and> io_sq_depth n = (if o_iodepth td + 1 < 2 then 2 else o_iodepth td + 1)"
proof -
  obtain a c w1 c' n where 1: "g_ctrl s = Some a"
    "create_io_queue_pair E c (Some (init_data td a (next_io_qid s))) w1 = (True, c', Some n, w')"
    "io_ops_data td' = Some n" "next_io_qid s' = next_io_qid s + 1" "curr_thread_num s' = curr_thread_num s + 1" "g_ctrl s' = g_ctrl s"
    by (rule init_success [OF run])
  let ?n = "init_data td a (next_io_qid s)"
  have n: "ctrl ?n = Some a" "io_qid ?n = next_io_qid s" "cmd_io_u ?n = (\<lambda>_. None)"
    "io_sq_depth ?n = (if o_iodepth td + 1 < 2 then 2 else o_iodepth td + 1)" "io_cq_depth ?n = io_sq_depth ?n"
    "pair_buffers ?n = [False, False, False]"
    by (simp_all add: init_data_def Let_def nvme_data_init_def pair_buffers_def mem_valid_def mem_zero_def)
  have nz: "io_sq_depth ?n \<noteq> 0" "io_cq_depth ?n \<noteq> 0" using n(4,5) by (auto simp: not_less)
  obtain cap where "pair_ready cap n" "ctrl n = ctrl ?n" "io_qid n = io_qid ?n" "cmd_io_u n = cmd_io_u ?n"
    by (rule dma_service.create_pair_outcome [OF assms(1) 1(2) n(6)]) auto
  with 1 n create_ok_depth [OF 1(2) nz] pair_ready_empty [of cap n] show ?thesis by auto
qed

text \<open>
  C36: When the last thread cleans up, the shared controller is shut down and freed and all its
  resources are given back: the DMA descriptor, the register mapping and the admin queues, and also
  the thread's own buffers, unless deleting the queue pair failed, in which case these stay mapped.
  From then on every \<^verbatim>\<open>nvme_init\<close> fails until \<^verbatim>\<open>nvme_setup\<close> is called again.
\<close>

theorem last_cleanup_releases:
  assumes "io_ops_data td = Some n" and "ctrl n = Some a" and "g_ctrl s = Some a" and "ctrls s = [a \<mapsto> c]"
    and "curr_thread_num s = 1" and "io_sq_virt_addr n \<noteq> NULL"
  shows "\<exists>s' w'. nvme_cleanup E td s w = Inr (td\<lparr>io_ops_data := None\<rparr>, s', w')
    \<and> g_ctrl s' = None \<and> ctrls s' = Map.empty \<and> curr_thread_num s' = 0 \<and> next_io_qid s' = 1
    \<and> (\<forall>x. fd_balance w' x = fd_balance w x - ctrl_fds c x)
    \<and> (\<forall>y. map_balance w' y = map_balance w y - ctrl_maps c y
          - (if fst (delete_io_queue_pair E c (Some n) w) then data_maps n y else 0))
    \<and> (\<forall>td2 w2. \<exists>td3 w3. nvme_init E td2 s' w2 = Inr (1, td3, s', w3))"
proof -
  obtain ok c2 np w2 where del: "delete_io_queue_pair E c (Some n) w = (ok, c2, np, w2)" by (rule prod_cases4)
  obtain cp w3 where dei: "controller_deinit E (Some c2) w2 = (cp, w3)" by (rule prod.exhaust)
  have "\<not> no_pair n" using assms(6) by (simp add: no_pair_def)
  note d = delete_pair_accounts [OF del, simplified this]
  have c2: "ctrl_fds c2 = ctrl_fds c" "ctrl_maps c2 = ctrl_maps c"
    using admin_frame_fields [OF conjunct1 [OF d]] by (simp_all add: ctrl_fds_def ctrl_maps_def fun_eq_iff)
  have fd: "fd_balance w3 x = fd_balance w x - ctrl_fds c x" for x
    using deinit_releases [OF dei] d c2 by auto
  have map: "map_balance w3 y = map_balance w y - ctrl_maps c y - (if ok then data_maps n y else 0)" for y
    using deinit_releases [OF dei] d c2 by (cases ok; cases y) auto
  let ?s = "s\<lparr>ctrls := Map.empty, curr_thread_num := 0, g_ctrl := None, next_io_qid := 1\<rparr>"
  have run: "nvme_cleanup E td s w = Inr (td\<lparr>io_ops_data := None\<rparr>, ?s, w3)"
    using assms by (simp add: nvme_cleanup_def deref_opt_def deref_def del dei drop_ctrl_def Let_def fun_eq_iff)
  have "\<exists>td3 w3. nvme_init E td2 ?s w4 = Inr (1, td3, ?s, w3)" for td2 w4
    by (auto simp: nvme_init_def split: prod.splits)
  with run fd map del show ?thesis by (intro exI [of _ ?s] exI [of _ w3]) simp
qed

section \<open>Witnesses\<close>

text \<open>A state with the controller of the sample device, after one thread has called \<^verbatim>\<open>nvme_setup\<close>.\<close>

lemma boot_reach:
  obtains s T w where "ereach boot_env (s, T, w)" "g_ctrl s = Some 0" "\<forall>i. io_ops_data (T i) = None"
proof -
  obtain s w1 where run: "setup_ctrl boot_env boot_td boot_engine boot_world = (True, boot_td, s, w1)" "g_ctrl s = Some 0"
    by (rule boot_setup)
  let ?T = "\<lambda>_ :: nat. boot_td"
  have "estep boot_env (boot_engine, ?T, boot_world) (s, ?T(0 := boot_td), w1)" by (rule estep_setup_ctrl) (rule run(1))
  moreover have "ereach boot_env (boot_engine, ?T, boot_world)"
    by (rule ereach_start) (simp add: engine_start_def boot_engine_def boot_td_def)
  ultimately have "ereach boot_env (s, ?T(0 := boot_td), w1)" by (rule ereach_step [rotated])
  then show thesis by (rule that) (simp_all add: run(2) boot_td_def)
qed

theorem engine_counts_threads_witness:
  "\<exists>s T w. ereach boot_env (s, T, w) \<and> g_ctrl s = Some 0 \<and> curr_thread_num s = 0 \<and> dom (ctrls s) = {0}"
proof -
  obtain s T w where r: "ereach boot_env (s, T, w)" "g_ctrl s = Some 0" "\<forall>i. io_ops_data (T i) = None" by (rule boot_reach)
  have "{i. io_ops_data (T i) \<noteq> None} = {}" using r(3) by auto
  then show ?thesis using engine_counts_threads [OF r(1)] r(1,2) by (intro exI) auto
qed

theorem engine_never_faults_witness:
  "\<exists>s T w y. ereach boot_env (s, T, w) \<and> g_ctrl s = Some 0 \<and> nvme_init boot_env (T 0) s w = Inr y"
proof -
  obtain s T w where r: "ereach boot_env (s, T, w)" "g_ctrl s = Some 0" "\<forall>i. io_ops_data (T i) = None" by (rule boot_reach)
  then show ?thesis using engine_never_faults [OF r(1), of 0] by blast
qed

definition admin_engine :: engine where
  "admin_engine = \<lparr>ctrls = [0 \<mapsto> admin_ctrl], ctrl_brk = 1, g_ctrl = Some 0, curr_thread_num = 0, next_io_qid = 2\<rparr>"

theorem nvme_init_ready_witness:
  "\<exists>td' s' w' n cap. nvme_init (admin_env 0) boot_td admin_engine admin_world = Inr (0, td', s', w')
     \<and> io_ops_data td' = Some n \<and> pair_ready cap n \<and> io_sq_depth n = 4 \<and> io_qid n = 2"
proof -
  obtain ok c' np w' where run: "create_io_queue_pair (admin_env 0) admin_ctrl (Some admin_pair) admin_world = (ok, c', np, w')"
    by (rule prod_cases4)
  have ok: ok using answering_create_ok run by simp
  have data: "init_data boot_td 0 2 = admin_pair"
    by (simp add: init_data_def Let_def boot_td_def admin_pair_def nvme_data_init_def)
  have alloc: "hw_act (sys_calloc (admin_env 0)) admin_world = (True, admin_world)"
    by (simp add: hw_act_def admin_env_def boot_env_def)
  have "\<exists>td' s'. nvme_init (admin_env 0) boot_td admin_engine admin_world = Inr (0, td', s', w')"
    using run ok by (simp add: nvme_init_def boot_td_def [THEN arg_cong [where f = o_use_thread]]
        boot_td_def [THEN arg_cong [where f = o_nr_files]] alloc admin_engine_def data deref_def)
  then obtain td' s' where init: "nvme_init (admin_env 0) boot_td admin_engine admin_world = Inr (0, td', s', w')" by blast
  from nvme_init_ready [OF answering.dma_service_axioms init] init show ?thesis
    by (auto simp: boot_td_def admin_engine_def)
qed

theorem last_cleanup_releases_witness:
  "\<exists>s' w'. nvme_cleanup boot_env (boot_td\<lparr>io_ops_data := Some (admin_used_pair\<lparr>ctrl := Some 0\<rparr>)\<rparr>)
       (admin_engine\<lparr>ctrls := [0 \<mapsto> boot_ctrl\<lparr>dma_fd := 3, dma_fd_opened := True\<rparr>], curr_thread_num := 1\<rparr>)
       (boot_world\<lparr>trace := [Ev_Open 3]\<rparr>) = Inr (boot_td, s', w')
     \<and> g_ctrl s' = None \<and> fd_balance w' 3 = 0"
proof -
  let ?n = "admin_used_pair\<lparr>ctrl := Some 0\<rparr>" and ?c = "boot_ctrl\<lparr>dma_fd := 3, dma_fd_opened := True\<rparr>"
  let ?td = "boot_td\<lparr>io_ops_data := Some ?n\<rparr>" and ?w = "boot_world\<lparr>trace := [Ev_Open 3]\<rparr>"
  let ?s = "admin_engine\<lparr>ctrls := [0 \<mapsto> ?c], curr_thread_num := 1\<rparr>"
  have sq: "io_sq_virt_addr ?n \<noteq> NULL" by (simp add: admin_used_pair_def)
  have td: "?td\<lparr>io_ops_data := None\<rparr> = boot_td" by (simp add: boot_td_def)
  have fd: "fd_balance ?w 3 = ctrl_fds ?c 3" by (simp add: fd_balance_def ctrl_fds_def one_fd_def)
  show ?thesis
    using last_cleanup_releases [of ?td ?n 0 ?s ?c boot_env ?w] sq fd unfolding td by (auto simp: admin_engine_def)
qed

end
