(* ===== verification/Spec2Isabelle.thy ===== *)
theory Spec2Isabelle
  imports Driver_Env Driver_Race Pci_Access Engine_Queue Engine_Events Engine_Inv
begin

text \<open>
  Verification of \<^verbatim>\<open>newperf\<close>, a fio I/O engine that drives an NVMe controller from user space, and of
  the kernel module \<^verbatim>\<open>genpci\<close> that gives it DMA memory. File names are relative to \<^verbatim>\<open>src/\<close>.

  \<^bold>\<open>The program.\<close> fio calls the engine (\<^verbatim>\<open>newperf.c\<close>) through a table of callbacks: \<^verbatim>\<open>setup\<close> parses a
  target name and starts the one controller that all threads share, \<^verbatim>\<open>init\<close> creates a submission and
  a completion queue for a thread, \<^verbatim>\<open>queue\<close>, \<^verbatim>\<open>getevents\<close> and \<^verbatim>\<open>event\<close> submit requests and reap them by
  polling, \<^verbatim>\<open>cleanup\<close> undoes \<^verbatim>\<open>init\<close> and, for the last thread, \<^verbatim>\<open>setup\<close>. The controller is programmed by
  \<^verbatim>\<open>tools/nvme.c\<close> over registers mapped by \<^verbatim>\<open>tools/lib/ctrl_access.c\<close>, with queues and data in buffers
  from \<^verbatim>\<open>tools/lib/driver/api/dma.c\<close>, which in turn maps them through the character device of
  \<^verbatim>\<open>tools/lib/driver/driver.c\<close>. \<^verbatim>\<open>tools/lib/pci_access.c\<close> reads and writes configuration space.

  \<^bold>\<open>Common theories.\<close>
  \<^item> \<^verbatim>\<open>Prelude\<close>: the C integer types as words, memory as a function from addresses to bytes, little-endian
    loads and stores with the collection \<open>ram_simps\<close>.
  \<^item> \<^verbatim>\<open>World\<close>: everything outside the program is the record \<open>env\<close>, an argument of each definition that uses
    it: system calls, the registers, and \<open>hw_step\<close>, what the device does to memory before a volatile
    access. The state of the program is \<open>world\<close>: \<^verbatim>\<open>errno\<close>, memory, the state of the outside, and a ghost
    trace of the visible effects in program order (collection \<open>trace_simps\<close>).
  \<^item> \<^verbatim>\<open>Resource\<close>: the balance of opens against closes and maps against unmaps of a trace, and the locale
    \<open>dma_service\<close>: what the engine needs of the kernel (a mapping is never at address zero, and the
    memory information after a mapping has its length).
  \<^item> \<^verbatim>\<open>Ring\<close>: the locales \<open>ring\<close> and \<open>phase_ring\<close> for an index that wraps, with a phase that flips at the
    wrap. Interpreted on the four queue indices of \<^verbatim>\<open>tools/nvme.c\<close>.
  \<^item> \<^verbatim>\<open>C_Format\<close>: the \<^verbatim>\<open>printf\<close> conversions that build path names.

  \<^bold>\<open>Components.\<close> Each theory has the operations of its file under the names of the source; a part of a
  long function that has a name of its own is mapped to its lines.
  \<^item> \<^verbatim>\<open>Ctrl_Access\<close> (\<^verbatim>\<open>ctrl_access.c\<close>), \<^verbatim>\<open>Dma_Api\<close> (\<^verbatim>\<open>dma.c\<close>), \<^verbatim>\<open>Pci_Access\<close> (\<^verbatim>\<open>pci_access.c\<close>). C26 to C28: reads and
    writes of configuration space end in spite of interrupts and short transfers, transfer exactly
    the requested bytes, and close their descriptor on every path.
  \<^item> \<^verbatim>\<open>Nvme_Defs\<close> (structures and constants of \<^verbatim>\<open>nvme.h\<close> and \<^verbatim>\<open>nvme.c\<close>), \<^verbatim>\<open>Nvme_Regs\<close> (C37, C38: the bit
    arithmetic of pages and doorbells agrees with its specification), \<^verbatim>\<open>Nvme_Prp\<close> (C1, C2: \<^verbatim>\<open>setup_prps\<close>
    against a model of how the controller reads PRPs; a page-aligned buffer of more than one page is
    described wrongly).
  \<^item> \<^verbatim>\<open>Nvme_Io\<close> (C3 to C5: the queue entries of reads, writes and trims at the moment the doorbell rings) and
    \<^verbatim>\<open>Nvme_Cq\<close> (C6, C7: \<^verbatim>\<open>poll_cq\<close> takes exactly the posted completions in order, or stops the process at
    the first bad one). Polling runs concurrently with the device: \<open>cq_ring\<close> says what is posted and
    \<open>cq_device\<close> that the steps of the device only post more.
  \<^item> \<^verbatim>\<open>Nvme_Ctrl\<close> (C8 to C11: initialisation and shutdown account for every descriptor and mapping on
    every path and program the registers in order) and \<^verbatim>\<open>Nvme_Admin\<close> (C12 to C16: admin commands, queue
    pairs, namespace size). \<open>admin_done\<close> says that the controller has executed a given command between two
    worlds of a run; C14 to C16 state with it which commands create and delete a queue pair and identify
    the namespace.
  \<^item> \<^verbatim>\<open>Nvme_Parse\<close> (C24, C25: parsing the target name, with \<^verbatim>\<open>strtoul\<close> as the C standard describes it).
  \<^item> \<^verbatim>\<open>Driver\<close> (the kernel module over an explicit kernel state in which a freed object is absent and
    using it is the value \<open>Inl Use_After_Free\<close>), \<^verbatim>\<open>Driver_Inv\<close> (all sequences of its entry points, each taken
    as one step, as the step relation \<open>kstep\<close>; C18 to C22), \<^verbatim>\<open>Driver_Race\<close> (the parts of \<^verbatim>\<open>dma_vma_close\<close> and
    \<^verbatim>\<open>genpci_remove\<close> between their accesses to shared data as steps of their own, interleaved with everything
    else, as the step relation \<open>fstep\<close>; C17, and two races with \<^verbatim>\<open>genpci_remove\<close> that end in a use after
    free), \<^verbatim>\<open>Driver_Env\<close> (the system calls of \<^verbatim>\<open>dma.c\<close> answered by the model of the module; interprets
    \<open>dma_service\<close> there, C23).
  \<^item> \<^verbatim>\<open>Engine\<close> (all callbacks of \<^verbatim>\<open>newperf.c\<close>; static variables and allocated controllers are the record
    \<open>engine\<close>), \<^verbatim>\<open>Engine_Setup\<close> (C39), \<^verbatim>\<open>Engine_Queue\<close> (C29 to C31: the outcome of \<^verbatim>\<open>nvme_queue\<close>, no overrun, and
    the whole way from a request to the command the device reads, with the page-aligned buffers that C1
    excludes named in C3 and C31), \<^verbatim>\<open>Engine_Events\<close> (C32: \<^verbatim>\<open>nvme_getevents\<close>
    returns and delivers in order), \<^verbatim>\<open>Engine_Inv\<close> (all interleavings of callbacks of any number of threads
    as the step relation \<open>estep\<close>; C33 to C36).
  \<^item> This theory has C40, which spans queueing, the device and reaping.

  \<^bold>\<open>Loops.\<close> \<^verbatim>\<open>poll_cq\<close>, the ready and completion waits, the PRP and range loops and the list walks of the
  driver are total functions with termination proofs. The transfer loops of \<^verbatim>\<open>pci_access.c\<close> and the loop of
  \<^verbatim>\<open>nvme_getevents\<close> need not end; they are \<^verbatim>\<open>partial_function (option)\<close>, and C26, C27 and C32 show that they
  return, under hypotheses on the environment that name what must happen (interrupts stop, the device
  posts). No fuel is used.

  \<^bold>\<open>Hypotheses on the outside.\<close> \<open>dma_service\<close>, which the model of the kernel module satisfies;
  \<open>cq_device\<close> and \<open>cq_serves\<close>, the NVMe rules for posting completions and that they are eventually
  posted; a \<^verbatim>\<open>completable\<close> log, in which each completion is for a different outstanding command and
  reports success. fio's structures are records with the fields the engine uses; fio calls
  \<^verbatim>\<open>init\<close> once before \<^verbatim>\<open>cleanup\<close> and queues and reaps only in between.

  \<^bold>\<open>Not modelled.\<close> \<^verbatim>\<open>print_errno\<close> and the messages (no state); the test programs, which exercise the library
  on real hardware; weak memory (barriers are events of the trace); saturation of the kernel's
  reference counters; which of several overlapping ranges of minors the kernel resolves an open to (a
  step may open any device); the effect of the uncached mapping attributes; processes that access pages
  through a mapping (only which pages it shows is recorded).

  \<^bold>\<open>Granularity.\<close> The callbacks of the engine are single steps of \<open>estep\<close>, except that the critical section of
  \<^verbatim>\<open>nvme_setup\<close> is one of its own; \<^verbatim>\<open>nvme_alloc\<close>, which takes no lock, is one step too, so the race of two
  \<^verbatim>\<open>alloc_dma\<close> calls appears only in the driver (C19). In \<open>kstep\<close> the entry points of the module are single
  steps, which C18 to C22 rest on; they do not take the device lock for all that they do. \<open>fstep\<close> drops this
  for the close of a mapping and the removal of a device; \<^verbatim>\<open>mmap_dma\<close>, \<^verbatim>\<open>genpci_ioctl\<close> and \<^verbatim>\<open>genpci_probe\<close>
  remain single steps there, so that a device freed in the middle of a file operation is not seen (C21 shows
  the use after free of the next one). The events of \<^verbatim>\<open>close\<close> and \<^verbatim>\<open>munmap\<close> record the call, so a failing one
  counts as given back.
\<close>

section \<open>From queueing to the event\<close>

text \<open>
  C40: A request comes back: when \<^verbatim>\<open>nvme_queue\<close> has queued a request and the device later completes its
  command as entry \<open>i\<close> of its completions, a call of \<^verbatim>\<open>nvme_getevents\<close> that waits for more than \<open>i\<close>
  events returns, and event \<open>i\<close> is exactly this request.
\<close>

theorem queued_request_comes_back:
  assumes "io_ops_data td = Some n" and "ctrl n = Some a" and "ctrls s a = Some c"
    and queue: "nvme_queue E has_mrt td io_p io s w = Inr (FIO_Q_QUEUED, io', td', w1)" and n': "io_ops_data td' = Some n'"
    and serves: "cq_serves E rank (bar0_virt c + ucast (io_cq_head_db n')) b D k0 log"
    and ok: "completable n' log" and sync: "cq_synced n' b D k0" and ring: "cq_ring b D k0 log p (ram w2)"
    and mn: "sint mn = int l" and mx: "sint mx = int m" and l: "l \<le> m" "l \<le> length log"
    and i: "i < l" "cqe_cid (log ! i) = io_cmd_id n'"
  shows "\<exists>k n2 w3. nvme_getevents E td' mn mx None s w2 = Inr (Some (Inr (int k, n2, w3))) \<and> l \<le> k \<and> k \<le> m
    \<and> nvme_event (td'\<lparr>io_ops_data := Some n2\<rparr>) (int i) = Some io_p \<and> cmd_io_u n2 (io_cmd_id n') = None"
proof (cases rule: nvme_queue_cases [OF assms(1-3), of E has_mrt io_p io w])
  case (3 w4)
  then have n'_eq: "n' = queued_data n io_p" using queue n' by auto
  then have ctrl: "ctrl n' = Some a" and cid: "cmd_io_u n' (io_cmd_id n') = Some io_p"
    using assms(2) by (simp_all add: queued_data_def submitted_def sq_advance_simps)
  have "0 < m" using i(1) l(1) by simp
  from getevents_returns [OF n' ctrl assms(3) serves ok sync ring mn mx l this, of None] obtain k n2 w3 where
    k: "nvme_getevents E td' mn mx None s w2 = Inr (Some (Inr (int k, n2, w3)))" "l \<le> k" "k \<le> m"
    and ev: "\<forall>j. nvme_event (td'\<lparr>io_ops_data := Some n2\<rparr>) j
      = (if 0 \<le> j \<and> j < int k then cmd_io_u n' (cqe_cid (log ! nat j)) else None)"
    and cmd: "\<forall>x. cmd_io_u n2 x = (if x \<in> cqe_cid ` set (take k log) then None else cmd_io_u n' x)" by blast
  have "log ! i \<in> set (take k log)" using i(1) k(2) l(2) by (auto simp: in_set_conv_nth intro!: exI [of _ i])
  then have "io_cmd_id n' \<in> cqe_cid ` set (take k log)" using i(2) by (metis imageI)
  then show ?thesis using k ev cmd i cid by (intro exI [of _ k] exI [of _ n2] exI [of _ w3]) simp
qed (use queue in auto)

text \<open>Request 41 is queued as command 8, the second one that the sample device completes.\<close>

theorem queued_request_comes_back_witness:
  "\<exists>td n w1 td' k n2 w3. nvme_queue posting_env False td 41 sample_io sample_engine idle_world = Inr (FIO_Q_QUEUED, sample_io, td', w1)
     \<and> io_ops_data td = Some n \<and> io_cmd_id n = 7
     \<and> nvme_getevents posting_env td' 2 2 None sample_engine (idle_world\<lparr>ram := unposted_ram\<rparr>) = Inr (Some (Inr (k, n2, w3)))
     \<and> nvme_event (td'\<lparr>io_ops_data := Some n2\<rparr>) 1 = Some 41"
proof -
  define n where "n = sample_cq\<lparr>ctrl := Some 0, io_sq_depth := 4, io_sq_head := 1, io_sq_tail := 3, io_cmd_id := 7,
    cmd_io_u := (\<lambda>_. None)(7 := Some 40)\<rparr>"
  define td where "td = sample_td\<lparr>io_ops_data := Some n\<rparr>"
  have td: "io_ops_data td = Some n" "ctrl n = Some 0" "ctrls sample_engine 0 = Some sample_ctrl"
    by (simp_all add: td_def n_def sample_engine_def)
  have free: "\<not> sq_busy n" by (simp add: sq_busy_def next_sq_tail_def Let_def n_def)
  show ?thesis
  proof (cases rule: nvme_queue_cases [OF td, of posting_env False 41 sample_io idle_world])
    case (3 w1)
    let ?n = "queued_data n 41" and ?w2 = "idle_world\<lparr>ram := unposted_ram\<rparr>"
    have n': "io_ops_data (td\<lparr>io_ops_data := Some ?n\<rparr>) = Some ?n" by simp
    have fields: "io_cmd_id ?n = 8" "cmd_io_u ?n = (\<lambda>_. None)(7 := Some 40, 8 := Some 41)" "cq_synced ?n 0x1000 4 3"
      using sample_cq_synced
      by (simp_all add: queued_data_def submitted_def sq_advance_simps n_def cq_synced_def)
    have ok: "completable ?n sample_log"
      using sample_log_fields by (auto simp: completable_def sample_log_def fields psf_sct_def psf_sc_def)
    have ring: "cq_ring 0x1000 4 3 sample_log 0 (ram ?w2)" using unposted_ring by simp
    have i: "cqe_cid (sample_log ! 1) = io_cmd_id ?n" using sample_log_fields(1) by (simp add: sample_log_def fields)
    have len: "length sample_log = 2" by (simp add: sample_log_def)
    have w: "sint (2 :: u32) = int 2" by simp
    from queued_request_comes_back [OF td 3(3) n' posting_serves ok fields(3) ring w w _ _ _ i] len
    obtain k n2 w3 where "nvme_getevents posting_env (td\<lparr>io_ops_data := Some ?n\<rparr>) 2 2 None sample_engine ?w2
        = Inr (Some (Inr (int k, n2, w3)))" "nvme_event (td\<lparr>io_ops_data := Some ?n, io_ops_data := Some n2\<rparr>) (int 1) = Some 41"
      by auto
    with 3(3) td(1) show ?thesis by (intro exI [of _ td]) (auto simp: n_def)
  qed (use free sample_request in auto)
qed

end
